(* ===== verification/Prelude.thy ===== *)
theory Prelude
  imports Main "HOL-Library.Word"
begin

text \<open>
  What every theory of the development shares: the machine values of the Rust sources (bytes,
  \<open>usize\<close>, \<open>u64\<close>, their checked additions and big-endian encodings), the error values of
  \<open>anyhow\<close>, the results of asynchronous calls and their sequencing (the \<open>?\<close> and \<open>.await\<close>
  of the sources), and the fact collections the component proofs use.
\<close>

named_theorems io_simps \<open>unfolding of sequenced asynchronous calls\<close>
named_theorems wire_simps \<open>layout and length of wire values\<close>

section \<open>Bytes and machine integers\<close>

type_synonym byte = "8 word"
type_synonym bytes = "byte list"
type_synonym usize = nat
type_synonym u64 = "64 word"

text \<open>\<open>usize\<close> is 64 bits wide on every documented target; \<open>checked_add\<close> is \<open>None\<close> on overflow.\<close>

definition usize_limit :: nat where
  "usize_limit = 2 ^ 64"

definition usize_checked_add :: "usize \<Rightarrow> usize \<Rightarrow> usize option" where
  "usize_checked_add a b = (if a + b < usize_limit then Some (a + b) else None)"

definition u64_checked_add :: "u64 \<Rightarrow> u64 \<Rightarrow> u64 option" where
  "u64_checked_add a b = (if unat a + unat b < 2 ^ 64 then Some (a + b) else None)"

lemma usize_checked_add_Some [simp]:
  "usize_checked_add a b = Some c \<longleftrightarrow> a + b < usize_limit \<and> c = a + b"
  by (auto simp: usize_checked_add_def)

lemma u64_checked_add_SomeD:
  "u64_checked_add a b = Some c \<Longrightarrow> unat c = unat a + unat b"
  by (auto simp: u64_checked_add_def unat_word_ariths split: if_splits)

lemma u64_checked_add_Some_iff:
  "u64_checked_add a b = Some c \<longleftrightarrow> unat a + unat b < 2 ^ 64 \<and> c = a + b"
  by (auto simp: u64_checked_add_def)

lemma unat_u64_less: "unat (a :: u64) < 2 ^ 64"
  using unsigned_less [of a] by simp

lemma unat_byte_less: "unat (b :: byte) < 256"
  using unsigned_less [of b] by simp

lemma u64_succ_eq: "u64_checked_add a 1 = (if a = - 1 then None else Some (a + 1))"
proof -
  have "a = - 1 \<longleftrightarrow> unat a = 2 ^ 64 - 1"
    by (simp add: word_eq_iff_unsigned [where ?'a = nat] unsigned_minus_1_eq_mask mask_eq_exp_minus_1)
  then show ?thesis
    using unat_u64_less [of a] by (auto simp: u64_checked_add_def)
qed

section \<open>Big-endian encodings\<close>

text \<open>
  \<open>be_bytes n v\<close> is the \<open>n\<close>-byte big-endian encoding of \<open>v\<close> (\<open>to_be_bytes\<close>), and
  \<open>be_value\<close> reads one back (\<open>from_be_bytes\<close>).
\<close>

primrec be_bytes :: "nat \<Rightarrow> nat \<Rightarrow> bytes" where
  "be_bytes 0 v = []"
| "be_bytes (Suc n) v = be_bytes n (v div 256) @ [of_nat v]"

definition be_value :: "bytes \<Rightarrow> nat" where
  "be_value bs = foldl (\<lambda>acc b. acc * 256 + unat b) 0 bs"

lemma length_be_bytes [simp, wire_simps]: "length (be_bytes n v) = n"
  by (induction n arbitrary: v) auto

lemma be_value_Nil [simp]: "be_value [] = 0"
  by (simp add: be_value_def)

lemma be_value_snoc [simp]: "be_value (bs @ [b]) = be_value bs * 256 + unat b"
  by (simp add: be_value_def)

lemma be_value_bytes: "be_value (be_bytes n v) = v mod 256 ^ n"
proof (induction n arbitrary: v)
  case 0
  then show ?case by simp
next
  case (Suc n)
  have "v mod (256 * 256 ^ n) = 256 * (v div 256 mod 256 ^ n) + v mod 256"
    by (rule mod_mult2_eq)
  then show ?case
    by (simp add: Suc.IH unat_of_nat)
qed

lemma be_bytes_value: "be_bytes (length bs) (be_value bs) = bs"
proof (induction bs rule: rev_induct)
  case Nil
  then show ?case by simp
next
  case (snoc b bs)
  have wrap: "(256 :: byte) = 0" by simp
  have "(word_of_nat (be_value bs * 256 + unat b) :: byte) = word_of_nat (unat b)"
    by (simp only: of_nat_add of_nat_mult of_nat_numeral wrap mult_zero_right add_0)
  then have "(word_of_nat (be_value bs * 256 + unat b) :: byte) = b" by simp
  then show ?case
    using unat_byte_less [of b] by (simp add: snoc.IH del: of_nat_add of_nat_mult)
qed

end
