(* ===== verification/Results.thy ===== *)
theory Results
  imports Prelude
begin

text \<open>
  The error values of the sources and the results of their asynchronous calls.
  An \<open>anyhow::Error\<close> is its text together with what \<open>downcast_ref\<close> can still see of it:
  a plain message (\<open>anyhow!("...")\<close>, \<open>bail!\<close>), a wrapped \<open>std::io::Error\<close>, or the error of
  another library (the Ed25519 decoder, MessagePack). A call that awaits something which never
  happens is \<open>Pending\<close>: not returning is a value of the model, so that a theorem saying a call
  returns says so in its statement.
\<close>

section \<open>Errors\<close>

datatype anyhow = Message string | IoError string | OtherError string

fun error_text :: "anyhow \<Rightarrow> string" where
  "error_text (Message t) = t"
| "error_text (IoError t) = t"
| "error_text (OtherError t) = t"

fun is_io_error :: "anyhow \<Rightarrow> bool" where
  "is_io_error (IoError t) = True"
| "is_io_error _ = False"

text \<open>Decimal rendering, as \<open>{}\<close> of a number in a format string.\<close>

definition digit :: "nat \<Rightarrow> char" where
  "digit d = char_of (48 + d)"

fun decimal :: "nat \<Rightarrow> string" where
  "decimal n = (if n < 10 then [digit n] else decimal (n div 10) @ [digit (n mod 10)])"

declare decimal.simps [simp del]

text \<open>\<open>str::contains\<close>.\<close>

fun str_contains :: "string \<Rightarrow> string \<Rightarrow> bool" where
  "str_contains [] p = (p = [])"
| "str_contains (c # cs) p = (take (length p) (c # cs) = p \<or> str_contains cs p)"

lemma str_contains_iff: "str_contains s p \<longleftrightarrow> (\<exists>a b. s = a @ p @ b)"
proof (induction s)
  case Nil
  then show ?case by auto
next
  case (Cons c cs)
  have "str_contains (c # cs) p \<longleftrightarrow> (\<exists>b. c # cs = p @ b) \<or> (\<exists>a b. cs = a @ p @ b)"
    using Cons.IH by (metis append_eq_conv_conj append_take_drop_id str_contains.simps(2))
  also have "\<dots> \<longleftrightarrow> (\<exists>a b. c # cs = a @ p @ b)"
    by (metis append_Cons append_Nil list.inject neq_Nil_conv)
  finally show ?case .
qed

lemma str_contains_prefix: "str_contains s p \<Longrightarrow> str_contains (s @ t) p"
  by (metis append.assoc str_contains_iff)

lemma str_contains_suffix: "str_contains t p \<Longrightarrow> str_contains (s @ t) p"
  by (metis append.assoc str_contains_iff)

section \<open>Asynchronous calls\<close>

datatype 'a outcome = Ret 'a | Fail anyhow | Pending

type_synonym ('a, 'w) async = "'w \<Rightarrow> 'a outcome \<times> 'w"

definition async_return :: "'a \<Rightarrow> ('a, 'w) async" where
  "async_return a w = (Ret a, w)"

definition async_fail :: "anyhow \<Rightarrow> ('a, 'w) async" where
  "async_fail e w = (Fail e, w)"

definition and_then :: "('a, 'w) async \<Rightarrow> ('a \<Rightarrow> ('b, 'w) async) \<Rightarrow> ('b, 'w) async" where
  "and_then m k w =
     (case m w of
        (Ret a, w') \<Rightarrow> k a w'
      | (Fail e, w') \<Rightarrow> (Fail e, w')
      | (Pending, w') \<Rightarrow> (Pending, w'))"

text \<open>The \<open>?\<close> on the result of a synchronous call.\<close>

definition check :: "anyhow + 'a \<Rightarrow> ('a, 'w) async" where
  "check r w = (case r of Inl e \<Rightarrow> (Fail e, w) | Inr a \<Rightarrow> (Ret a, w))"

lemma async_return_eq [simp, io_simps]: "async_return a w = (Ret a, w)"
  by (simp add: async_return_def)

lemma async_fail_eq [simp, io_simps]: "async_fail e w = (Fail e, w)"
  by (simp add: async_fail_def)

lemma check_Inl [simp, io_simps]: "check (Inl e) w = (Fail e, w)"
  and check_Inr [simp, io_simps]: "check (Inr a) w = (Ret a, w)"
  by (simp_all add: check_def)

lemma check_Ret_iff [simp]: "check r w = (Ret a, w') \<longleftrightarrow> r = Inr a \<and> w' = w"
  by (auto simp: check_def split: sum.splits)

lemma and_then_Ret [io_simps]: "m w = (Ret a, w') \<Longrightarrow> and_then m k w = k a w'"
  and and_then_Fail [io_simps]: "m w = (Fail e, w') \<Longrightarrow> and_then m k w = (Fail e, w')"
  and and_then_Pending [io_simps]: "m w = (Pending, w') \<Longrightarrow> and_then m k w = (Pending, w')"
  by (simp_all add: and_then_def)

lemma and_then_return_left [simp]: "and_then (async_return a) k w = k a w"
  by (simp add: and_then_def)

lemma and_then_check_Inr [simp]: "and_then (check (Inr a)) k w = k a w"
  and and_then_check_Inl [simp]: "and_then (check (Inl e)) k w = (Fail e, w)"
  by (simp_all add: and_then_def)

text \<open>Inversion: a sequence returns only if both parts did.\<close>

lemma and_then_Ret_iff:
  "and_then m k w = (Ret b, w'') \<longleftrightarrow> (\<exists>a w'. m w = (Ret a, w') \<and> k a w' = (Ret b, w''))"
  by (auto simp: and_then_def split: prod.splits outcome.splits)

lemma and_then_RetE:
  assumes "and_then m k w = (Ret b, w'')"
  obtains a w' where "m w = (Ret a, w')" and "k a w' = (Ret b, w'')"
  using assms by (auto simp: and_then_Ret_iff)

section \<open>Synchronous results\<close>

text \<open>The \<open>?\<close> of a synchronous function: go on with the value or return the error.\<close>

definition try_result :: "'e + 'a \<Rightarrow> ('a \<Rightarrow> 'e + 'b) \<Rightarrow> 'e + 'b" where
  "try_result r k = (case r of Inl e \<Rightarrow> Inl e | Inr a \<Rightarrow> k a)"

lemma try_result_simps [simp]:
  "try_result (Inl e) k = Inl e" "try_result (Inr a) k = k a"
  by (simp_all add: try_result_def)

lemma try_result_Inr_iff:
  "try_result r k = Inr b \<longleftrightarrow> (\<exists>a. r = Inr a \<and> k a = Inr b)"
  by (auto simp: try_result_def split: sum.splits)

end
