(* ===== verification/Lifecycle.thy ===== *)
theory Lifecycle
  imports Results
begin

text \<open>
  The contract shared by the two lifecycle flags of the transport: a server that is paused,
  resumed and stopped, and a connection that is paused, resumed and closed. Both promise that
  the terminal state absorbs every later call, that only the call which enters it is told so,
  and that nothing terminal is ever reported as paused. The locale states the contract once;
  \<open>Server\<close> and \<open>Conn_Core\<close> interpret it on the code's own flags.
\<close>

datatype lifecycle_call = PauseCall | ResumeCall | EndCall

text \<open>A history of calls, with the answers the terminating calls gave, in order.\<close>

primrec lifecycle_run ::
  "('s \<Rightarrow> 's) \<Rightarrow> ('s \<Rightarrow> 's) \<Rightarrow> ('s \<Rightarrow> bool \<times> 's) \<Rightarrow> lifecycle_call list \<Rightarrow> 's \<Rightarrow> bool list \<times> 's"
where
  "lifecycle_run pause resume terminate [] s = ([], s)"
| "lifecycle_run pause resume terminate (c # cs) s =
     (case c of
        PauseCall \<Rightarrow> lifecycle_run pause resume terminate cs (pause s)
      | ResumeCall \<Rightarrow> lifecycle_run pause resume terminate cs (resume s)
      | EndCall \<Rightarrow>
          (let (won, s') = terminate s;
               (wins, t) = lifecycle_run pause resume terminate cs s'
           in (won # wins, t)))"

text \<open>The paused flag a history leaves: the last pause or resume before the end decides.\<close>

primrec paused_after :: "bool \<Rightarrow> lifecycle_call list \<Rightarrow> bool" where
  "paused_after p [] = p"
| "paused_after p (c # cs) =
     (case c of PauseCall \<Rightarrow> paused_after True cs | ResumeCall \<Rightarrow> paused_after False cs | EndCall \<Rightarrow> False)"

locale lifecycle =
  fixes ended :: "'s \<Rightarrow> bool"
    and is_paused :: "'s \<Rightarrow> bool"
    and pause :: "'s \<Rightarrow> 's"
    and resume :: "'s \<Rightarrow> 's"
    and terminate :: "'s \<Rightarrow> bool \<times> 's"
  assumes pause_ended: "ended s \<Longrightarrow> pause s = s"
    and resume_ended: "ended s \<Longrightarrow> resume s = s"
    and pause_live: "\<not> ended s \<Longrightarrow> \<not> ended (pause s) \<and> is_paused (pause s)"
    and resume_live: "\<not> ended s \<Longrightarrow> \<not> ended (resume s) \<and> \<not> is_paused (resume s)"
    and terminate_won: "fst (terminate s) \<longleftrightarrow> \<not> ended s"
    and terminate_ends: "ended (snd (terminate s)) \<and> \<not> is_paused (snd (terminate s))"
begin

lemma run_ended:
  assumes "ended s"
  shows "ended (snd (lifecycle_run pause resume terminate cs s))
    \<and> fst (lifecycle_run pause resume terminate cs s) = replicate (count_list cs EndCall) False"
  using assms
proof (induction cs arbitrary: s)
  case Nil
  then show ?case by simp
next
  case (Cons c cs)
  show ?case
  proof (cases c)
    case EndCall
    obtain w s' where t: "terminate s = (w, s')" by (cases "terminate s")
    with Cons.prems have "\<not> w" "ended s'"
      using terminate_won [of s] terminate_ends [of s] by auto
    with t EndCall Cons.IH [of s'] show ?thesis by (simp add: case_prod_beta)
  qed (use Cons pause_ended resume_ended in auto)
qed

lemma terminal_absorbs:
  "ended s \<Longrightarrow> ended (snd (lifecycle_run pause resume terminate cs s))"
  using run_ended by blast

lemma first_end_wins:
  assumes "\<not> ended s"
  shows "fst (lifecycle_run pause resume terminate cs s)
    = (if EndCall \<in> set cs then True # replicate (count_list cs EndCall - 1) False else [])"
  using assms
proof (induction cs arbitrary: s)
  case Nil
  then show ?case by simp
next
  case (Cons c cs)
  show ?case
  proof (cases c)
    case EndCall
    obtain w s' where t: "terminate s = (w, s')" by (cases "terminate s")
    with Cons.prems have "w" "ended s'"
      using terminate_won [of s] terminate_ends [of s] by auto
    with t EndCall run_ended [of s' cs] show ?thesis by (simp add: case_prod_beta)
  qed (use Cons pause_live resume_live in auto)
qed

lemma ended_iff:
  "ended (snd (lifecycle_run pause resume terminate cs s)) \<longleftrightarrow> ended s \<or> EndCall \<in> set cs"
proof (induction cs arbitrary: s)
  case Nil
  then show ?case by simp
next
  case (Cons c cs)
  show ?case
  proof (cases c)
    case EndCall
    then show ?thesis
      using Cons.IH [of "snd (terminate s)"] terminate_ends [of s] by (simp add: case_prod_beta)
  qed (use Cons pause_live resume_live pause_ended resume_ended in \<open>auto, (metis+)?\<close>)
qed

lemma paused_run:
  assumes "ended s \<longrightarrow> \<not> is_paused s"
  shows "is_paused (snd (lifecycle_run pause resume terminate cs s))
    \<longleftrightarrow> \<not> ended s \<and> paused_after (is_paused s) cs"
  using assms
proof (induction cs arbitrary: s)
  case Nil
  then show ?case by auto
next
  case (Cons c cs)
  show ?case
  proof (cases c)
    case EndCall
    then show ?thesis
      using Cons.IH [of "snd (terminate s)"] terminate_ends [of s] by (simp add: case_prod_beta)
  next
    case PauseCall
    then show ?thesis
      using Cons.IH [of "pause s"] Cons.prems pause_ended [of s] pause_live [of s]
      by (cases "ended s") auto
  next
    case ResumeCall
    then show ?thesis
      using Cons.IH [of "resume s"] Cons.prems resume_ended [of s] resume_live [of s]
      by (cases "ended s") auto
  qed
qed

end

end
