(* ===== verification/Endpoint.thy ===== *)
theory Endpoint
  imports Results
begin

text \<open>
  \<open>Endpoint\<close> of \<open>crates/taunicorn/src/lib.rs\<close>: the logical name of a socket. The checked
  constructor is \<open>Endpoint::new\<close>; the \<open>From\<close> conversions skip its check, so every operation
  that opens a socket has to repeat it. The mapping of a name to the platform's socket name is
  \<open>interprocess\<close> code: it is the argument \<open>to_ns_name\<close>, which may fail with an I/O error.
\<close>

datatype endpoint = Endpoint (endpoint_as_str: string)

definition err_endpoint_empty :: anyhow where
  "err_endpoint_empty = Message ''socket endpoint must not be empty''"

definition err_name_empty :: anyhow where
  "err_name_empty = Message ''socket name must not be empty''"

definition endpoint_new :: "string \<Rightarrow> anyhow + endpoint" where
  "endpoint_new name = (if name = [] then Inl err_endpoint_empty else Inr (Endpoint name))"

definition endpoint_to_string :: "endpoint \<Rightarrow> string" where
  "endpoint_to_string e = endpoint_as_str e"

definition endpoint_from_string :: "string \<Rightarrow> endpoint" where
  "endpoint_from_string value = Endpoint value"

definition get_async_socket_name ::
  "(string \<Rightarrow> string + 'name) \<Rightarrow> string \<Rightarrow> anyhow + 'name" where
  "get_async_socket_name to_ns_name name =
     (if name = [] then Inl err_name_empty
      else (case to_ns_name name of Inl e \<Rightarrow> Inl (IoError e) | Inr n \<Rightarrow> Inr n))"

definition valid_endpoint :: "endpoint \<Rightarrow> bool" where
  "valid_endpoint e \<longleftrightarrow> endpoint_as_str e \<noteq> []"

lemma endpoint_new_Inr_iff [simp]:
  "endpoint_new name = Inr e \<longleftrightarrow> name \<noteq> [] \<and> e = Endpoint name"
  by (auto simp: endpoint_new_def)

lemma endpoint_roundtrip: "endpoint_new name = Inr e \<Longrightarrow> endpoint_to_string e = name"
  by (auto simp: endpoint_to_string_def)

end
