(* ===== verification/Conn_Core.thy ===== *)
theory Conn_Core
  imports Lifecycle Endpoint
begin

text \<open>
  \<open>ConnectionState\<close> and the synchronous part of \<open>ConnectionCore\<close> of
  \<open>crates/taunicorn/src/lib.rs\<close>: the five flags of a connection, the shared core with its
  stream slot, gates and cancellation tokens, and the helper functions every operation calls.
  The raw stream is an \<open>interprocess\<close> handle; here it is only a name for one OS stream.
  A \<open>tokio\<close> gate is whether somebody holds it, a cancellation token is whether it is cancelled.
\<close>

section \<open>The flags\<close>

record conn_state =
  c_closed :: bool
  c_paused :: bool
  c_read_shutdown :: bool
  c_write_shutdown :: bool
  c_peer_sent_eof :: bool

definition conn_state_default :: conn_state where
  "conn_state_default = \<lparr>c_closed = False, c_paused = False, c_read_shutdown = False,
     c_write_shutdown = False, c_peer_sent_eof = False\<rparr>"

definition cs_pause :: "conn_state \<Rightarrow> conn_state" where
  "cs_pause s = (if \<not> c_closed s then s\<lparr>c_paused := True\<rparr> else s)"

definition cs_resume :: "conn_state \<Rightarrow> conn_state" where
  "cs_resume s = (if \<not> c_closed s then s\<lparr>c_paused := False\<rparr> else s)"

text \<open>True only for the call that makes the transition.\<close>

definition cs_close :: "conn_state \<Rightarrow> bool \<times> conn_state" where
  "cs_close s =
     (\<not> c_closed s,
      s\<lparr>c_closed := True, c_paused := False, c_read_shutdown := True, c_write_shutdown := True\<rparr>)"

interpretation conn_lifecycle: lifecycle c_closed c_paused cs_pause cs_resume cs_close
  by unfold_locales (simp_all add: cs_pause_def cs_resume_def cs_close_def)

section \<open>The shared core\<close>

type_synonym raw_stream = nat

record core =
  core_id :: u64
  core_endpoint :: endpoint
  core_local :: "endpoint option"
  core_peer :: "endpoint option"
  core_stream :: "raw_stream option"
  core_poisoned :: bool
  core_state :: conn_state
  core_read_gate :: bool
  core_write_gate :: bool
  core_close_token :: bool
  core_read_token :: bool

definition next_socket_id :: "u64 \<Rightarrow> u64 \<times> u64" where
  "next_socket_id counter = (counter, counter + 1)"

definition core_new ::
  "raw_stream \<Rightarrow> endpoint \<Rightarrow> endpoint option \<Rightarrow> endpoint option \<Rightarrow> u64 \<Rightarrow> core \<times> u64" where
  "core_new stream endpoint local_endpoint peer_endpoint counter =
     (let (sid, counter') = next_socket_id counter in
      (\<lparr>core_id = sid, core_endpoint = endpoint, core_local = local_endpoint,
        core_peer = peer_endpoint, core_stream = Some stream, core_poisoned = False,
        core_state = conn_state_default, core_read_gate = False, core_write_gate = False,
        core_close_token = False, core_read_token = False\<rparr>, counter'))"

definition err_conn_closed :: anyhow where
  "err_conn_closed = Message ''socket connection is closed''"

definition err_conn_was_closed :: anyhow where
  "err_conn_was_closed = Message ''socket connection was closed''"

definition err_conn_poisoned :: anyhow where
  "err_conn_poisoned = Message ''socket connection state is poisoned''"

definition err_conn_paused :: anyhow where
  "err_conn_paused = Message ''socket connection is paused''"

definition err_recv_is_shut :: anyhow where
  "err_recv_is_shut = Message ''socket receive direction is shut down''"

definition err_recv_was_shut :: anyhow where
  "err_recv_was_shut = Message ''socket receive direction was shut down''"

definition err_send_is_shut :: anyhow where
  "err_send_is_shut = Message ''socket send direction is shut down''"

definition core_get_stream :: "core \<Rightarrow> anyhow + raw_stream" where
  "core_get_stream c =
     (if c_closed (core_state c) then Inl err_conn_closed
      else if core_poisoned c then Inl err_conn_poisoned
      else (case core_stream c of None \<Rightarrow> Inl err_conn_closed | Some h \<Rightarrow> Inr h))"

definition core_take_stream :: "core \<Rightarrow> (anyhow + raw_stream option) \<times> core" where
  "core_take_stream c =
     (if core_poisoned c then (Inl err_conn_poisoned, c)
      else (Inr (core_stream c), c\<lparr>core_stream := None\<rparr>))"

definition ensure_common_io_available :: "core \<Rightarrow> anyhow + unit" where
  "ensure_common_io_available c =
     (if c_closed (core_state c) then Inl err_conn_closed
      else if c_paused (core_state c) then Inl err_conn_paused
      else Inr ())"

definition ensure_read_available :: "core \<Rightarrow> anyhow + unit" where
  "ensure_read_available c =
     (case ensure_common_io_available c of
        Inl e \<Rightarrow> Inl e
      | Inr _ \<Rightarrow> if c_read_shutdown (core_state c) then Inl err_recv_is_shut else Inr ())"

definition ensure_write_available :: "core \<Rightarrow> anyhow + unit" where
  "ensure_write_available c =
     (case ensure_common_io_available c of
        Inl e \<Rightarrow> Inl e
      | Inr _ \<Rightarrow> if c_write_shutdown (core_state c) then Inl err_send_is_shut else Inr ())"

definition fail_connection :: "core \<Rightarrow> core" where
  "fail_connection c =
     (let (won, st) = cs_close (core_state c); c' = c\<lparr>core_state := st\<rparr> in
      if won
      then c'\<lparr>core_close_token := True, core_read_token := True,
              core_stream := (if core_poisoned c then core_stream c else None)\<rparr>
      else c')"

definition core_set_eof :: "core \<Rightarrow> core" where
  "core_set_eof c = c\<lparr>core_state := (core_state c)\<lparr>c_peer_sent_eof := True\<rparr>\<rparr>"

definition core_pause :: "core \<Rightarrow> core" where
  "core_pause c = c\<lparr>core_state := cs_pause (core_state c)\<rparr>"

definition core_resume :: "core \<Rightarrow> core" where
  "core_resume c = c\<lparr>core_state := cs_resume (core_state c)\<rparr>"

section \<open>Well-formed cores\<close>

text \<open>
  What the code keeps true between the fields whenever no operation is between two awaits: a
  closed connection has both directions shut down, is not paused, has its tokens cancelled and
  its stream slot emptied; an open one still has its stream; a read shutdown has fired its token.
\<close>

definition core_wf :: "core \<Rightarrow> bool" where
  "core_wf c \<longleftrightarrow>
     \<not> core_poisoned c
     \<and> (core_stream c = None \<longleftrightarrow> c_closed (core_state c))
     \<and> core_close_token c = c_closed (core_state c)
     \<and> core_read_token c = c_read_shutdown (core_state c)
     \<and> (c_closed (core_state c) \<longrightarrow> c_read_shutdown (core_state c)
          \<and> c_write_shutdown (core_state c) \<and> \<not> c_paused (core_state c))"

lemma core_wf_new: "core_wf (fst (core_new h e l p n))"
  by (simp add: core_wf_def core_new_def next_socket_id_def conn_state_default_def)

lemma core_wf_pause: "core_wf c \<Longrightarrow> core_wf (core_pause c)"
  by (auto simp: core_wf_def core_pause_def cs_pause_def)

lemma core_wf_resume: "core_wf c \<Longrightarrow> core_wf (core_resume c)"
  by (auto simp: core_wf_def core_resume_def cs_resume_def)

lemma core_wf_set_eof: "core_wf c \<Longrightarrow> core_wf (core_set_eof c)"
  by (auto simp: core_wf_def core_set_eof_def)

lemma core_wf_fail: "core_wf c \<Longrightarrow> core_wf (fail_connection c)"
  by (auto simp: core_wf_def fail_connection_def cs_close_def)

lemma core_wf_gates [simp]:
  "core_wf (c\<lparr>core_read_gate := b\<rparr>) = core_wf c"
  "core_wf (c\<lparr>core_write_gate := b\<rparr>) = core_wf c"
  by (simp_all add: core_wf_def)

lemmas core_wf_steps = core_wf_pause core_wf_resume core_wf_set_eof core_wf_fail

lemma ensure_common_Inr_iff:
  "ensure_common_io_available c = Inr u
    \<longleftrightarrow> \<not> c_closed (core_state c) \<and> \<not> c_paused (core_state c)"
  by (auto simp: ensure_common_io_available_def)

lemma ensure_read_Inr_iff:
  "ensure_read_available c = Inr u
    \<longleftrightarrow> \<not> c_closed (core_state c) \<and> \<not> c_paused (core_state c)
       \<and> \<not> c_read_shutdown (core_state c)"
  by (auto simp: ensure_read_available_def ensure_common_io_available_def)

lemma ensure_write_Inr_iff:
  "ensure_write_available c = Inr u
    \<longleftrightarrow> \<not> c_closed (core_state c) \<and> \<not> c_paused (core_state c)
       \<and> \<not> c_write_shutdown (core_state c)"
  by (auto simp: ensure_write_available_def ensure_common_io_available_def)

lemma core_get_stream_wf:
  "core_wf c \<Longrightarrow> \<not> c_closed (core_state c) \<Longrightarrow> \<exists>h. core_get_stream c = Inr h \<and> core_stream c = Some h"
  by (auto simp: core_wf_def core_get_stream_def)

lemma fail_connection_closed [simp]: "c_closed (core_state (fail_connection c))"
  by (simp add: fail_connection_def cs_close_def Let_def)

lemma fail_connection_gates [simp]:
  "core_read_gate (fail_connection c) = core_read_gate c"
  "core_write_gate (fail_connection c) = core_write_gate c"
  by (simp_all add: fail_connection_def cs_close_def Let_def)

lemma set_eof_gates [simp]:
  "core_read_gate (core_set_eof c) = core_read_gate c"
  "core_write_gate (core_set_eof c) = core_write_gate c"
  "c_closed (core_state (core_set_eof c)) = c_closed (core_state c)"
  "c_write_shutdown (core_state (core_set_eof c)) = c_write_shutdown (core_state c)"
  by (simp_all add: core_set_eof_def)

lemma fail_connection_flags [simp]:
  "c_write_shutdown (core_state (fail_connection c))"
  "c_read_shutdown (core_state (fail_connection c))"
  "c_peer_sent_eof (core_state (fail_connection c)) = c_peer_sent_eof (core_state c)"
  by (simp_all add: fail_connection_def cs_close_def Let_def)

text \<open>A failed connection refuses every later read and write.\<close>

lemma fail_connection_refuses:
  "ensure_read_available (fail_connection c) = Inl err_conn_closed"
  "ensure_write_available (fail_connection c) = Inl err_conn_closed"
  by (simp_all add: ensure_read_available_def ensure_write_available_def
      ensure_common_io_available_def)

text \<open>Identifiers: consecutive calls of \<open>fetch_add\<close> hand out different ids until it wraps.\<close>

primrec socket_ids :: "nat \<Rightarrow> u64 \<Rightarrow> u64 list" where
  "socket_ids 0 counter = []"
| "socket_ids (Suc n) counter =
     (let (sid, counter') = next_socket_id counter in sid # socket_ids n counter')"

lemma socket_ids_eq: "socket_ids n c = map (\<lambda>i. c + of_nat i) [0..<n]"
proof (induction n arbitrary: c)
  case 0
  then show ?case by simp
next
  case (Suc n)
  have "map (\<lambda>i. c + of_nat i) [0..<Suc n] = c # map (\<lambda>i. c + 1 + of_nat i) [0..<n]"
    by (simp add: upt_conv_Cons map_Suc_upt [symmetric] comp_def add.assoc del: upt_Suc)
  then show ?case by (simp add: next_socket_id_def Suc.IH del: upt_Suc)
qed

lemma socket_ids_distinct: "n \<le> 2 ^ 64 \<Longrightarrow> distinct (socket_ids n c)"
  by (auto simp: socket_ids_eq distinct_map inj_on_def word_of_nat_eq_iff take_bit_nat_eq_self)

end
