(* ===== verification/Conn_Ops.thy ===== *)
theory Conn_Ops
  imports Conn_Core
begin

text \<open>
  The asynchronous operations of \<open>ConnectionCore\<close>. An \<open>async fn\<close> is a state machine that runs
  without interruption from one \<open>.await\<close> to the next: \<open>start\<close> runs an operation up to its first
  await, and \<open>poll\<close> resumes it with the one thing it was waiting for. A \<open>tokio::select!\<close> takes
  any branch that is ready, so \<open>poll\<close> is given the branch as an event and answers \<open>None\<close> when that
  branch is not ready. What the OS stream answers is an event too, bounded only by the contract of
  \<open>AsyncRead\<close> and \<open>AsyncWrite\<close>: a read fills at most the buffer, a write accepts at most the data.
\<close>

datatype receive_result = Data usize | EndOfStream

datatype reply = VReceive receive_result bytes | VUsize usize | VUnit

datatype operation =
  Receive bytes
| WriteOnce bytes
| Send bytes
| SendTimeout bytes
| Flush
| ShutdownRead
| ShutdownWrite
| Close

datatype event =
  CloseFired
| ReadShutdownFired
| GateAcquired
| DeadlineElapsed
| ReadDone "string + bytes"
| WriteDone "string + usize"
| FlushDone "string + unit"
| ShutdownDone "string + unit"

text \<open>Where an operation is suspended; \<open>Dropped\<close> is a future that was dropped before it finished.\<close>

datatype pc =
  Finished "anyhow + reply"
| Dropped
| ReceiveGate bytes
| ReceiveIo bytes raw_stream
| WriteGate bytes
| WriteIo bytes raw_stream
| SendGate bytes
| SendIo bytes usize raw_stream
| TimedGate bytes
| TimedIo bytes usize raw_stream
| FlushGate
| FlushIo raw_stream
| ShutdownGate
| ShutdownIo raw_stream
| CloseGate raw_stream
| CloseIo raw_stream

definition lock_read :: "core \<Rightarrow> core" where
  "lock_read c = c\<lparr>core_read_gate := True\<rparr>"

definition unlock_read :: "core \<Rightarrow> core" where
  "unlock_read c = c\<lparr>core_read_gate := False\<rparr>"

definition lock_write :: "core \<Rightarrow> core" where
  "lock_write c = c\<lparr>core_write_gate := True\<rparr>"

definition unlock_write :: "core \<Rightarrow> core" where
  "unlock_write c = c\<lparr>core_write_gate := False\<rparr>"

section \<open>Receive\<close>

definition receive_start :: "bytes \<Rightarrow> core \<Rightarrow> pc" where
  "receive_start buffer c =
     (if buffer = [] then Finished (Inr (VReceive (Data 0) buffer))
      else if c_peer_sent_eof (core_state c) then Finished (Inr (VReceive EndOfStream buffer))
      else (case ensure_read_available c of
              Inl e \<Rightarrow> Finished (Inl e)
            | Inr _ \<Rightarrow> ReceiveGate buffer))"

definition receive_locked :: "bytes \<Rightarrow> core \<Rightarrow> pc \<times> core" where
  "receive_locked buffer c =
     (if c_peer_sent_eof (core_state c) then (Finished (Inr (VReceive EndOfStream buffer)), c)
      else (case ensure_read_available c of
              Inl e \<Rightarrow> (Finished (Inl e), c)
            | Inr _ \<Rightarrow>
                (case core_get_stream c of
                   Inl e \<Rightarrow> (Finished (Inl e), c)
                 | Inr h \<Rightarrow> (ReceiveIo buffer h, lock_read c))))"

definition receive_gate :: "bytes \<Rightarrow> event \<Rightarrow> core \<Rightarrow> (pc \<times> core) option" where
  "receive_gate buffer ev c =
     (case ev of
        CloseFired \<Rightarrow>
          if core_close_token c then Some (Finished (Inl err_conn_was_closed), c) else None
      | ReadShutdownFired \<Rightarrow>
          if core_read_token c then Some (Finished (Inl err_recv_was_shut), c) else None
      | GateAcquired \<Rightarrow> if core_read_gate c then None else Some (receive_locked buffer c)
      | _ \<Rightarrow> None)"

definition receive_done :: "bytes \<Rightarrow> string + bytes \<Rightarrow> core \<Rightarrow> pc \<times> core" where
  "receive_done buffer result c =
     (case result of
        Inr got \<Rightarrow>
          if got = [] then (Finished (Inr (VReceive EndOfStream buffer)), unlock_read (core_set_eof c))
          else (Finished (Inr (VReceive (Data (length got)) (got @ drop (length got) buffer))),
                unlock_read c)
      | Inl e \<Rightarrow> (Finished (Inl (IoError e)), unlock_read (fail_connection c)))"

definition receive_io :: "bytes \<Rightarrow> event \<Rightarrow> core \<Rightarrow> (pc \<times> core) option" where
  "receive_io buffer ev c =
     (case ev of
        CloseFired \<Rightarrow>
          if core_close_token c then Some (Finished (Inl err_conn_was_closed), unlock_read c)
          else None
      | ReadShutdownFired \<Rightarrow>
          if core_read_token c then Some (Finished (Inl err_recv_was_shut), unlock_read c) else None
      | ReadDone result \<Rightarrow>
          (case result of
             Inr got \<Rightarrow> if length got \<le> length buffer then Some (receive_done buffer result c) else None
           | Inl _ \<Rightarrow> Some (receive_done buffer result c))
      | _ \<Rightarrow> None)"

section \<open>One write\<close>

definition err_write_zero :: anyhow where
  "err_write_zero =
     Message ''socket write returned zero for a non-empty buffer; connection closed''"

definition write_start :: "bytes \<Rightarrow> core \<Rightarrow> pc" where
  "write_start data c =
     (if data = [] then Finished (Inr (VUsize 0))
      else (case ensure_write_available c of
              Inl e \<Rightarrow> Finished (Inl e)
            | Inr _ \<Rightarrow> WriteGate data))"

definition write_locked :: "bytes \<Rightarrow> core \<Rightarrow> pc \<times> core" where
  "write_locked data c =
     (case ensure_write_available c of
        Inl e \<Rightarrow> (Finished (Inl e), c)
      | Inr _ \<Rightarrow>
          (case core_get_stream c of
             Inl e \<Rightarrow> (Finished (Inl e), c)
           | Inr h \<Rightarrow> (WriteIo data h, lock_write c)))"

definition write_gate :: "bytes \<Rightarrow> event \<Rightarrow> core \<Rightarrow> (pc \<times> core) option" where
  "write_gate data ev c =
     (case ev of
        CloseFired \<Rightarrow>
          if core_close_token c then Some (Finished (Inl err_conn_was_closed), c) else None
      | GateAcquired \<Rightarrow> if core_write_gate c then None else Some (write_locked data c)
      | _ \<Rightarrow> None)"

definition write_done :: "string + usize \<Rightarrow> core \<Rightarrow> pc \<times> core" where
  "write_done result c =
     (case result of
        Inr n \<Rightarrow>
          if n = 0 then (Finished (Inl err_write_zero), unlock_write (fail_connection c))
          else (Finished (Inr (VUsize n)), unlock_write c)
      | Inl e \<Rightarrow> (Finished (Inl (IoError e)), unlock_write (fail_connection c)))"

definition write_io :: "bytes \<Rightarrow> event \<Rightarrow> core \<Rightarrow> (pc \<times> core) option" where
  "write_io data ev c =
     (case ev of
        CloseFired \<Rightarrow>
          if core_close_token c then Some (Finished (Inl err_conn_was_closed), unlock_write c)
          else None
      | WriteDone result \<Rightarrow>
          (case result of
             Inr n \<Rightarrow> if n \<le> length data then Some (write_done result c) else None
           | Inl _ \<Rightarrow> Some (write_done result c))
      | _ \<Rightarrow> None)"

section \<open>The complete send\<close>

definition err_send_closed :: "usize \<Rightarrow> usize \<Rightarrow> anyhow" where
  "err_send_closed written n =
     Message (''socket connection closed after '' @ decimal written @ '' of '' @ decimal n
       @ '' bytes were written; do not blindly retry the full buffer'')"

definition err_send_zero :: "usize \<Rightarrow> usize \<Rightarrow> anyhow" where
  "err_send_zero written n =
     Message (''socket write returned zero after '' @ decimal written @ '' of '' @ decimal n
       @ '' bytes; connection closed'')"

definition err_send_failed :: "usize \<Rightarrow> usize \<Rightarrow> string \<Rightarrow> anyhow" where
  "err_send_failed written n e =
     Message (''socket write failed after '' @ decimal written @ '' of '' @ decimal n
       @ '' bytes; connection closed because a partial prefix may have been written: '' @ e)"

definition send_start :: "bytes \<Rightarrow> core \<Rightarrow> pc" where
  "send_start data c =
     (if data = [] then Finished (Inr VUnit)
      else (case ensure_write_available c of
              Inl e \<Rightarrow> Finished (Inl e)
            | Inr _ \<Rightarrow> SendGate data))"

text \<open>The head of the loop \<open>while written < data.len()\<close>.\<close>

definition send_loop :: "bytes \<Rightarrow> usize \<Rightarrow> raw_stream \<Rightarrow> core \<Rightarrow> pc \<times> core" where
  "send_loop data written h c =
     (if written < length data then (SendIo data written h, c)
      else (Finished (Inr VUnit), unlock_write c))"

definition send_locked :: "bytes \<Rightarrow> core \<Rightarrow> pc \<times> core" where
  "send_locked data c =
     (case ensure_write_available c of
        Inl e \<Rightarrow> (Finished (Inl e), c)
      | Inr _ \<Rightarrow>
          (case core_get_stream c of
             Inl e \<Rightarrow> (Finished (Inl e), c)
           | Inr h \<Rightarrow> send_loop data 0 h (lock_write c)))"

definition send_gate :: "bytes \<Rightarrow> event \<Rightarrow> core \<Rightarrow> (pc \<times> core) option" where
  "send_gate data ev c =
     (case ev of
        CloseFired \<Rightarrow>
          if core_close_token c then Some (Finished (Inl err_conn_was_closed), c) else None
      | GateAcquired \<Rightarrow> if core_write_gate c then None else Some (send_locked data c)
      | _ \<Rightarrow> None)"

definition send_done :: "bytes \<Rightarrow> usize \<Rightarrow> raw_stream \<Rightarrow> string + usize \<Rightarrow> core \<Rightarrow> pc \<times> core" where
  "send_done data written h result c =
     (case result of
        Inr n \<Rightarrow>
          if n = 0
          then (Finished (Inl (err_send_zero written (length data))),
                unlock_write (fail_connection c))
          else send_loop data (written + n) h c
      | Inl e \<Rightarrow>
          (Finished (Inl (err_send_failed written (length data) e)),
           unlock_write (fail_connection c)))"

definition send_io :: "bytes \<Rightarrow> usize \<Rightarrow> raw_stream \<Rightarrow> event \<Rightarrow> core \<Rightarrow> (pc \<times> core) option" where
  "send_io data written h ev c =
     (case ev of
        CloseFired \<Rightarrow>
          if core_close_token c
          then Some (Finished (Inl (err_send_closed written (length data))), unlock_write c)
          else None
      | WriteDone result \<Rightarrow>
          (case result of
             Inr n \<Rightarrow>
               if n \<le> length (drop written data) then Some (send_done data written h result c)
               else None
           | Inl _ \<Rightarrow> Some (send_done data written h result c))
      | _ \<Rightarrow> None)"

section \<open>The complete send with a deadline\<close>

definition err_timed_gate :: anyhow where
  "err_timed_gate = Message ''socket write timeout before any write progress''"

definition err_timed_io :: "usize \<Rightarrow> usize \<Rightarrow> anyhow" where
  "err_timed_io written n =
     Message (''socket write timeout after '' @ decimal written @ '' of '' @ decimal n
       @ '' bytes; connection closed because a partial prefix may have been written'')"

definition timed_start :: "bytes \<Rightarrow> core \<Rightarrow> pc" where
  "timed_start data c =
     (if data = [] then Finished (Inr VUnit)
      else (case ensure_write_available c of
              Inl e \<Rightarrow> Finished (Inl e)
            | Inr _ \<Rightarrow> TimedGate data))"

definition timed_loop :: "bytes \<Rightarrow> usize \<Rightarrow> raw_stream \<Rightarrow> core \<Rightarrow> pc \<times> core" where
  "timed_loop data written h c =
     (if written < length data then (TimedIo data written h, c)
      else (Finished (Inr VUnit), unlock_write c))"

definition timed_locked :: "bytes \<Rightarrow> core \<Rightarrow> pc \<times> core" where
  "timed_locked data c =
     (case ensure_write_available c of
        Inl e \<Rightarrow> (Finished (Inl e), c)
      | Inr _ \<Rightarrow>
          (case core_get_stream c of
             Inl e \<Rightarrow> (Finished (Inl e), c)
           | Inr h \<Rightarrow> timed_loop data 0 h (lock_write c)))"

definition timed_gate :: "bytes \<Rightarrow> event \<Rightarrow> core \<Rightarrow> (pc \<times> core) option" where
  "timed_gate data ev c =
     (case ev of
        CloseFired \<Rightarrow>
          if core_close_token c then Some (Finished (Inl err_conn_was_closed), c) else None
      | GateAcquired \<Rightarrow> if core_write_gate c then None else Some (timed_locked data c)
      | DeadlineElapsed \<Rightarrow> Some (Finished (Inl err_timed_gate), c)
      | _ \<Rightarrow> None)"

definition timed_done :: "bytes \<Rightarrow> usize \<Rightarrow> raw_stream \<Rightarrow> string + usize \<Rightarrow> core \<Rightarrow> pc \<times> core" where
  "timed_done data written h result c =
     (case result of
        Inr n \<Rightarrow>
          if n = 0
          then (Finished (Inl (err_send_zero written (length data))),
                unlock_write (fail_connection c))
          else timed_loop data (written + n) h c
      | Inl e \<Rightarrow>
          (Finished (Inl (err_send_failed written (length data) e)),
           unlock_write (fail_connection c)))"

definition timed_io :: "bytes \<Rightarrow> usize \<Rightarrow> raw_stream \<Rightarrow> event \<Rightarrow> core \<Rightarrow> (pc \<times> core) option" where
  "timed_io data written h ev c =
     (case ev of
        CloseFired \<Rightarrow>
          if core_close_token c
          then Some (Finished (Inl (err_send_closed written (length data))), unlock_write c)
          else None
      | WriteDone result \<Rightarrow>
          (case result of
             Inr n \<Rightarrow>
               if n \<le> length (drop written data) then Some (timed_done data written h result c)
               else None
           | Inl _ \<Rightarrow> Some (timed_done data written h result c))
      | DeadlineElapsed \<Rightarrow>
          Some (Finished (Inl (err_timed_io written (length data))),
                unlock_write (fail_connection c))
      | _ \<Rightarrow> None)"

section \<open>Flush\<close>

definition flush_start :: "core \<Rightarrow> pc" where
  "flush_start c =
     (case ensure_write_available c of
        Inl e \<Rightarrow> Finished (Inl e)
      | Inr _ \<Rightarrow> FlushGate)"

definition flush_locked :: "core \<Rightarrow> pc \<times> core" where
  "flush_locked c =
     (case ensure_write_available c of
        Inl e \<Rightarrow> (Finished (Inl e), c)
      | Inr _ \<Rightarrow>
          (case core_get_stream c of
             Inl e \<Rightarrow> (Finished (Inl e), c)
           | Inr h \<Rightarrow> (FlushIo h, lock_write c)))"

definition flush_gate :: "event \<Rightarrow> core \<Rightarrow> (pc \<times> core) option" where
  "flush_gate ev c =
     (case ev of
        CloseFired \<Rightarrow>
          if core_close_token c then Some (Finished (Inl err_conn_was_closed), c) else None
      | GateAcquired \<Rightarrow> if core_write_gate c then None else Some (flush_locked c)
      | _ \<Rightarrow> None)"

definition flush_done :: "string + unit \<Rightarrow> core \<Rightarrow> pc \<times> core" where
  "flush_done result c =
     (case result of
        Inr _ \<Rightarrow> (Finished (Inr VUnit), unlock_write c)
      | Inl e \<Rightarrow> (Finished (Inl (IoError e)), unlock_write (fail_connection c)))"

definition flush_io :: "event \<Rightarrow> core \<Rightarrow> (pc \<times> core) option" where
  "flush_io ev c =
     (case ev of
        CloseFired \<Rightarrow>
          if core_close_token c then Some (Finished (Inl err_conn_was_closed), unlock_write c)
          else None
      | FlushDone result \<Rightarrow> Some (flush_done result c)
      | _ \<Rightarrow> None)"

section \<open>Directional shutdown\<close>

definition shutdown_read :: "core \<Rightarrow> pc \<times> core" where
  "shutdown_read c =
     (if c_closed (core_state c) \<or> c_read_shutdown (core_state c) then (Finished (Inr VUnit), c)
      else (Finished (Inr VUnit),
            c\<lparr>core_state := (core_state c)\<lparr>c_read_shutdown := True\<rparr>, core_read_token := True\<rparr>))"

definition shutdown_write_start :: "core \<Rightarrow> pc" where
  "shutdown_write_start c =
     (if c_closed (core_state c) \<or> c_write_shutdown (core_state c) then Finished (Inr VUnit)
      else ShutdownGate)"

definition shutdown_write_locked :: "core \<Rightarrow> pc \<times> core" where
  "shutdown_write_locked c =
     (if c_closed (core_state c) \<or> c_write_shutdown (core_state c) then (Finished (Inr VUnit), c)
      else
        (let c' = c\<lparr>core_state := (core_state c)\<lparr>c_write_shutdown := True\<rparr>\<rparr> in
         (case core_get_stream c' of
            Inl e \<Rightarrow> (Finished (Inl e), c')
          | Inr h \<Rightarrow> (ShutdownIo h, lock_write c'))))"

definition shutdown_write_gate :: "event \<Rightarrow> core \<Rightarrow> (pc \<times> core) option" where
  "shutdown_write_gate ev c =
     (case ev of
        GateAcquired \<Rightarrow> if core_write_gate c then None else Some (shutdown_write_locked c)
      | _ \<Rightarrow> None)"

definition shutdown_write_io :: "event \<Rightarrow> core \<Rightarrow> (pc \<times> core) option" where
  "shutdown_write_io ev c =
     (case ev of
        ShutdownDone result \<Rightarrow>
          (case result of
             Inr _ \<Rightarrow> Some (Finished (Inr VUnit), unlock_write c)
           | Inl e \<Rightarrow> Some (Finished (Inl (IoError e)), unlock_write (fail_connection c)))
      | _ \<Rightarrow> None)"

section \<open>Close\<close>

definition close_start :: "core \<Rightarrow> pc \<times> core" where
  "close_start c =
     (let (won, st) = cs_close (core_state c); c1 = c\<lparr>core_state := st\<rparr> in
      if \<not> won then (Finished (Inr VUnit), c1)
      else
        (let c2 = c1\<lparr>core_close_token := True, core_read_token := True\<rparr> in
         (case core_take_stream c2 of
            (Inl e, c3) \<Rightarrow> (Finished (Inl e), c3)
          | (Inr None, c3) \<Rightarrow> (Finished (Inr VUnit), c3)
          | (Inr (Some h), c3) \<Rightarrow> (CloseGate h, c3))))"

definition close_gate :: "raw_stream \<Rightarrow> event \<Rightarrow> core \<Rightarrow> (pc \<times> core) option" where
  "close_gate h ev c =
     (case ev of
        GateAcquired \<Rightarrow> if core_write_gate c then None else Some (CloseIo h, lock_write c)
      | _ \<Rightarrow> None)"

definition close_io :: "event \<Rightarrow> core \<Rightarrow> (pc \<times> core) option" where
  "close_io ev c =
     (case ev of
        ShutdownDone result \<Rightarrow>
          (case result of
             Inr _ \<Rightarrow> Some (Finished (Inr VUnit), unlock_write c)
           | Inl e \<Rightarrow> Some (Finished (Inl (IoError e)), unlock_write c))
      | _ \<Rightarrow> None)"

section \<open>Starting, resuming and dropping an operation\<close>

fun start :: "operation \<Rightarrow> core \<Rightarrow> pc \<times> core" where
  "start (Receive buffer) c = (receive_start buffer c, c)"
| "start (WriteOnce data) c = (write_start data c, c)"
| "start (Send data) c = (send_start data c, c)"
| "start (SendTimeout data) c = (timed_start data c, c)"
| "start Flush c = (flush_start c, c)"
| "start ShutdownRead c = shutdown_read c"
| "start ShutdownWrite c = (shutdown_write_start c, c)"
| "start Close c = close_start c"

fun poll :: "pc \<Rightarrow> event \<Rightarrow> core \<Rightarrow> (pc \<times> core) option" where
  "poll (Finished r) ev c = None"
| "poll Dropped ev c = None"
| "poll (ReceiveGate buffer) ev c = receive_gate buffer ev c"
| "poll (ReceiveIo buffer h) ev c = receive_io buffer ev c"
| "poll (WriteGate data) ev c = write_gate data ev c"
| "poll (WriteIo data h) ev c = write_io data ev c"
| "poll (SendGate data) ev c = send_gate data ev c"
| "poll (SendIo data written h) ev c = send_io data written h ev c"
| "poll (TimedGate data) ev c = timed_gate data ev c"
| "poll (TimedIo data written h) ev c = timed_io data written h ev c"
| "poll FlushGate ev c = flush_gate ev c"
| "poll (FlushIo h) ev c = flush_io ev c"
| "poll ShutdownGate ev c = shutdown_write_gate ev c"
| "poll (ShutdownIo h) ev c = shutdown_write_io ev c"
| "poll (CloseGate h) ev c = close_gate h ev c"
| "poll (CloseIo h) ev c = close_io ev c"

text \<open>Which gate's guard a suspended operation owns; dropping the future releases it.\<close>

fun holds_read :: "pc \<Rightarrow> bool" where
  "holds_read (ReceiveIo buffer h) = True"
| "holds_read _ = False"

fun holds_write :: "pc \<Rightarrow> bool" where
  "holds_write (WriteIo data h) = True"
| "holds_write (SendIo data written h) = True"
| "holds_write (TimedIo data written h) = True"
| "holds_write (FlushIo h) = True"
| "holds_write (ShutdownIo h) = True"
| "holds_write (CloseIo h) = True"
| "holds_write _ = False"

fun is_done :: "pc \<Rightarrow> bool" where
  "is_done (Finished r) = True"
| "is_done Dropped = True"
| "is_done _ = False"

definition drop_future :: "pc \<Rightarrow> core \<Rightarrow> pc \<times> core" where
  "drop_future p c =
     (if is_done p then (p, c)
      else (Dropped,
            (if holds_read p then unlock_read else id)
              ((if holds_write p then unlock_write else id) c)))"

text \<open>The bytes a resumption hands to the OS stream.\<close>

fun written_by :: "pc \<Rightarrow> event \<Rightarrow> bytes" where
  "written_by (WriteIo data h) (WriteDone (Inr n)) = take n data"
| "written_by (SendIo data written h) (WriteDone (Inr n)) = take n (drop written data)"
| "written_by (TimedIo data written h) (WriteDone (Inr n)) = take n (drop written data)"
| "written_by _ _ = []"

end
