(* ===== verification/Conn_Tasks.thy ===== *)
theory Conn_Tasks
  imports Conn_Ops
begin

text \<open>
  A connection shared by any number of tasks (\<open>Arc<ConnectionCore>\<close>; the halves of \<open>into_split\<close>
  share the same core). The state is the core, the tasks in the order they were started, each with
  its operation and where it is suspended, and the log of the bytes the OS stream accepted, each
  tagged with the task that wrote it. One action starts an operation, resumes one task with one
  event, drops a future, or calls \<open>pause\<close> or \<open>resume\<close>; the choice between them is free, so every
  interleaving the runtime can produce between awaits is a run of this system.
\<close>

record sys =
  sys_core :: core
  sys_tasks :: "(operation \<times> pc) list"
  sys_log :: "(nat \<times> byte) list"

datatype action = Spawn operation | Resume nat event | DropTask nat | PauseConn | ResumeConn

definition resume_task :: "nat \<Rightarrow> event \<Rightarrow> sys \<Rightarrow> sys option" where
  "resume_task i ev s =
     (if i < length (sys_tasks s)
      then (let (oper, p) = sys_tasks s ! i in
            (case poll p ev (sys_core s) of
               None \<Rightarrow> None
             | Some (p', c') \<Rightarrow>
                 Some \<lparr>sys_core = c', sys_tasks = (sys_tasks s)[i := (oper, p')],
                       sys_log = sys_log s @ map (Pair i) (written_by p ev)\<rparr>))
      else None)"

definition drop_task :: "nat \<Rightarrow> sys \<Rightarrow> sys option" where
  "drop_task i s =
     (if i < length (sys_tasks s)
      then (let (oper, p) = sys_tasks s ! i; (p', c') = drop_future p (sys_core s) in
            Some (s\<lparr>sys_core := c', sys_tasks := (sys_tasks s)[i := (oper, p')]\<rparr>))
      else None)"

fun sys_step :: "sys \<Rightarrow> action \<Rightarrow> sys option" where
  "sys_step s (Spawn oper) =
     (let (p, c) = start oper (sys_core s) in
      Some (s\<lparr>sys_core := c, sys_tasks := sys_tasks s @ [(oper, p)]\<rparr>))"
| "sys_step s (Resume i ev) = resume_task i ev s"
| "sys_step s (DropTask i) = drop_task i s"
| "sys_step s PauseConn = Some (s\<lparr>sys_core := core_pause (sys_core s)\<rparr>)"
| "sys_step s ResumeConn = Some (s\<lparr>sys_core := core_resume (sys_core s)\<rparr>)"

fun sys_run :: "sys \<Rightarrow> action list \<Rightarrow> sys option" where
  "sys_run s [] = Some s"
| "sys_run s (a # as) = (case sys_step s a of None \<Rightarrow> None | Some t \<Rightarrow> sys_run t as)"

definition sys_init :: "raw_stream \<Rightarrow> endpoint \<Rightarrow> endpoint option \<Rightarrow> endpoint option \<Rightarrow> u64 \<Rightarrow> sys" where
  "sys_init h e l p counter = \<lparr>sys_core = fst (core_new h e l p counter), sys_tasks = [], sys_log = []\<rparr>"

inductive reachable :: "sys \<Rightarrow> bool" where
  initial: "reachable (sys_init h e l p counter)"
| step: "reachable s \<Longrightarrow> sys_step s a = Some t \<Longrightarrow> reachable t"

lemma reachable_run: "sys_run s as = Some t \<Longrightarrow> reachable s \<Longrightarrow> reachable t"
  by (induction s as rule: sys_run.induct) (auto split: option.splits intro: reachable.step)

lemma sys_run_append:
  "sys_run s (as @ bs) = (case sys_run s as of None \<Rightarrow> None | Some t \<Rightarrow> sys_run t bs)"
  by (induction s as rule: sys_run.induct) (auto split: option.splits)

section \<open>What one resumption does\<close>

lemmas poll_defs =
  receive_gate_def receive_locked_def receive_io_def receive_done_def
  write_gate_def write_locked_def write_io_def write_done_def
  send_gate_def send_locked_def send_io_def send_done_def send_loop_def
  timed_gate_def timed_locked_def timed_io_def timed_done_def timed_loop_def
  flush_gate_def flush_locked_def flush_io_def flush_done_def
  shutdown_write_gate_def shutdown_write_locked_def shutdown_write_io_def
  close_gate_def close_io_def

lemmas start_defs =
  receive_start_def write_start_def send_start_def timed_start_def flush_start_def
  shutdown_read_def shutdown_write_start_def close_start_def core_take_stream_def

lemmas gate_defs = lock_read_def unlock_read_def lock_write_def unlock_write_def

lemmas poll_splits = if_splits option.splits sum.splits event.splits prod.splits

lemma gate_flags [simp]:
  "core_state (lock_read c) = core_state c" "core_state (unlock_read c) = core_state c"
  "core_state (lock_write c) = core_state c" "core_state (unlock_write c) = core_state c"
  "core_wf (lock_read c) = core_wf c" "core_wf (unlock_read c) = core_wf c"
  "core_wf (lock_write c) = core_wf c" "core_wf (unlock_write c) = core_wf c"
  "core_read_gate (lock_write c) = core_read_gate c"
  "core_read_gate (unlock_write c) = core_read_gate c"
  "core_write_gate (lock_read c) = core_write_gate c"
  "core_write_gate (unlock_read c) = core_write_gate c"
  "core_write_gate (lock_write c)" "\<not> core_write_gate (unlock_write c)"
  "core_read_gate (lock_read c)" "\<not> core_read_gate (unlock_read c)"
  by (simp_all add: gate_defs)

lemma core_wf_write_shutdown:
  "core_wf c \<Longrightarrow> core_wf (c\<lparr>core_state := (core_state c)\<lparr>c_write_shutdown := True\<rparr>\<rparr>)"
  by (auto simp: core_wf_def)

lemma poll_wf: "poll p ev c = Some (p', c') \<Longrightarrow> core_wf c \<Longrightarrow> core_wf c'"
  by (cases p) (auto simp: poll_defs core_wf_steps core_wf_write_shutdown Let_def split: poll_splits)

lemma start_wf: "start oper c = (p, c') \<Longrightarrow> core_wf c \<Longrightarrow> core_wf c'"
  by (cases oper) (auto simp: start_defs cs_close_def core_wf_def Let_def split: poll_splits)

text \<open>Gates: a task owns a gate exactly from the poll that acquires it to the poll that returns.\<close>

lemma poll_write_gate:
  assumes "poll p ev c = Some (p', c')" and "holds_write p \<Longrightarrow> core_write_gate c"
  shows "core_write_gate c' = (if holds_write p then holds_write p' else core_write_gate c \<or> holds_write p')
    \<and> (holds_write p' \<and> \<not> holds_write p \<longrightarrow> \<not> core_write_gate c)"
  using assms by (cases p) (auto simp: poll_defs Let_def split: poll_splits)

lemma poll_read_gate:
  assumes "poll p ev c = Some (p', c')" and "holds_read p \<Longrightarrow> core_read_gate c"
  shows "core_read_gate c' = (if holds_read p then holds_read p' else core_read_gate c \<or> holds_read p')
    \<and> (holds_read p' \<and> \<not> holds_read p \<longrightarrow> \<not> core_read_gate c)"
  using assms by (cases p) (auto simp: poll_defs Let_def split: poll_splits)

lemma start_gates:
  "start oper c = (p, c') \<Longrightarrow> core_write_gate c' = core_write_gate c
    \<and> core_read_gate c' = core_read_gate c \<and> \<not> holds_write p \<and> \<not> holds_read p"
  by (cases oper) (auto simp: start_defs Let_def split: poll_splits)

lemma drop_gates:
  "drop_future p c = (p', c') \<Longrightarrow> \<not> holds_write p' \<and> \<not> holds_read p'
    \<and> core_write_gate c' = (core_write_gate c \<and> \<not> holds_write p)
    \<and> core_read_gate c' = (core_read_gate c \<and> \<not> holds_read p)
    \<and> core_state c' = core_state c \<and> (core_wf c' = core_wf c)"
  by (cases p) (auto simp: drop_future_def)

text \<open>The flags that only ever rise.\<close>

definition flags_le :: "core \<Rightarrow> core \<Rightarrow> bool" where
  "flags_le c d \<longleftrightarrow>
     (c_closed (core_state c) \<longrightarrow> c_closed (core_state d))
     \<and> (c_read_shutdown (core_state c) \<longrightarrow> c_read_shutdown (core_state d))
     \<and> (c_write_shutdown (core_state c) \<longrightarrow> c_write_shutdown (core_state d))
     \<and> (c_peer_sent_eof (core_state c) \<longrightarrow> c_peer_sent_eof (core_state d))
     \<and> (core_close_token c \<longrightarrow> core_close_token d)
     \<and> (core_read_token c \<longrightarrow> core_read_token d)
     \<and> (core_stream c = None \<longrightarrow> core_stream d = None)"

lemma flags_le_refl [simp]: "flags_le c c"
  by (simp add: flags_le_def)

lemma flags_le_trans: "flags_le a b \<Longrightarrow> flags_le b c \<Longrightarrow> flags_le a c"
  by (auto simp: flags_le_def)

lemma flags_le_fail [simp]: "flags_le c (fail_connection c)"
  by (auto simp: flags_le_def fail_connection_def cs_close_def Let_def)

lemma flags_le_unlock [simp]:
  "flags_le c (unlock_write d) = flags_le c d" "flags_le c (unlock_read d) = flags_le c d"
  "flags_le c (lock_write d) = flags_le c d" "flags_le c (lock_read d) = flags_le c d"
  by (simp_all add: flags_le_def gate_defs)

lemma flags_le_others [simp]:
  "flags_le c (core_set_eof c)" "flags_le c (core_pause c)" "flags_le c (core_resume c)"
  "flags_le c (c\<lparr>core_state := (core_state c)\<lparr>c_write_shutdown := True\<rparr>\<rparr>)"
  by (auto simp: flags_le_def core_set_eof_def core_pause_def core_resume_def cs_pause_def cs_resume_def)

lemma poll_flags_le: "poll p ev c = Some (p', c') \<Longrightarrow> flags_le c c'"
  by (cases p) (auto simp: poll_defs Let_def split: poll_splits)

lemma start_flags_le: "start oper c = (p, c') \<Longrightarrow> flags_le c c'"
  by (cases oper) (auto simp: start_defs Let_def cs_close_def flags_le_def split: poll_splits)

lemma drop_flags_le: "drop_future p c = (p', c') \<Longrightarrow> flags_le c c'"
  by (cases p) (auto simp: drop_future_def)

end
