(* ===== verification/Conn_Safety.thy ===== *)
theory Conn_Safety
  imports Conn_Tasks
begin

text \<open>
  Safety of the shared connection in every interleaving: the core stays well-formed, the gates
  serialise each direction, concurrent complete-buffer sends never interleave their bytes, a
  finished write shutdown freezes the outgoing stream, and end of stream is final.
\<close>

section \<open>The system invariant\<close>

definition task_pc :: "sys \<Rightarrow> nat \<Rightarrow> pc" where
  "task_pc s i = snd (sys_tasks s ! i)"

definition task_op :: "sys \<Rightarrow> nat \<Rightarrow> operation" where
  "task_op s i = fst (sys_tasks s ! i)"

definition bytes_of :: "nat \<Rightarrow> (nat \<times> 'a) list \<Rightarrow> 'a list" where
  "bytes_of i log = map snd (filter (\<lambda>x. fst x = i) log)"

text \<open>At most one task owns a gate, and the gate is locked exactly when one does.\<close>

definition gate_inv :: "(pc \<Rightarrow> bool) \<Rightarrow> bool \<Rightarrow> (operation \<times> pc) list \<Rightarrow> bool" where
  "gate_inv holds locked tasks \<longleftrightarrow>
     (\<forall>i < length tasks. \<forall>j < length tasks.
        holds (snd (tasks ! i)) \<longrightarrow> holds (snd (tasks ! j)) \<longrightarrow> i = j)
     \<and> (locked \<longleftrightarrow> (\<exists>i < length tasks. holds (snd (tasks ! i))))"

lemma gate_inv_update:
  assumes inv: "gate_inv holds locked tasks" and i: "i < length tasks"
    and locked': "locked' = (if holds (snd (tasks ! i)) then holds p' else locked \<or> holds p')"
    and free: "holds p' \<and> \<not> holds (snd (tasks ! i)) \<longrightarrow> \<not> locked"
  shows "gate_inv holds locked' (tasks[i := (oper, p')])"
  using assms unfolding gate_inv_def by (auto simp: nth_list_update)

lemma gate_inv_drop:
  assumes inv: "gate_inv holds locked tasks" and i: "i < length tasks" and "\<not> holds p'"
  shows "gate_inv holds (locked \<and> \<not> holds (snd (tasks ! i))) (tasks[i := (oper, p')])"
  using assms unfolding gate_inv_def by (auto simp: nth_list_update)

lemma gate_inv_append:
  "gate_inv holds locked tasks \<Longrightarrow> \<not> holds p \<Longrightarrow> gate_inv holds locked (tasks @ [(oper, p)])"
  unfolding gate_inv_def by (auto simp: nth_append less_Suc_eq)

lemma gate_inv_held: "gate_inv holds locked tasks \<Longrightarrow> i < length tasks \<Longrightarrow> holds (snd (tasks ! i)) \<Longrightarrow> locked"
  unfolding gate_inv_def by blast

lemma gate_inv_unique:
  "gate_inv holds locked tasks \<Longrightarrow> i < length tasks \<Longrightarrow> j < length tasks
    \<Longrightarrow> holds (snd (tasks ! i)) \<Longrightarrow> holds (snd (tasks ! j)) \<Longrightarrow> i = j"
  unfolding gate_inv_def by blast

definition core_inv :: "sys \<Rightarrow> bool" where
  "core_inv s \<longleftrightarrow> core_wf (sys_core s)
     \<and> gate_inv holds_write (core_write_gate (sys_core s)) (sys_tasks s)
     \<and> gate_inv holds_read (core_read_gate (sys_core s)) (sys_tasks s)"

lemma resume_taskE:
  assumes "resume_task i ev s = Some t"
  obtains oper p p' c' where "i < length (sys_tasks s)" and "sys_tasks s ! i = (oper, p)"
    and "poll p ev (sys_core s) = Some (p', c')"
    and "t = \<lparr>sys_core = c', sys_tasks = (sys_tasks s)[i := (oper, p')],
              sys_log = sys_log s @ map (Pair i) (written_by p ev)\<rparr>"
  using assms unfolding resume_task_def
  by (cases "sys_tasks s ! i") (auto split: if_splits option.splits)

lemma drop_taskE:
  assumes "drop_task i s = Some t"
  obtains oper p p' c' where "i < length (sys_tasks s)" and "sys_tasks s ! i = (oper, p)"
    and "drop_future p (sys_core s) = (p', c')"
    and "t = s\<lparr>sys_core := c', sys_tasks := (sys_tasks s)[i := (oper, p')]\<rparr>"
  using assms unfolding drop_task_def
  by (cases "sys_tasks s ! i"; cases "drop_future (snd (sys_tasks s ! i)) (sys_core s)")
    (auto split: if_splits)

lemma pause_gates:
  "core_write_gate (core_pause c) = core_write_gate c" "core_read_gate (core_pause c) = core_read_gate c"
  "core_write_gate (core_resume c) = core_write_gate c" "core_read_gate (core_resume c) = core_read_gate c"
  by (simp_all add: core_pause_def core_resume_def)

lemma core_inv_step: "sys_step s a = Some t \<Longrightarrow> core_inv s \<Longrightarrow> core_inv t"
proof (cases a)
  case (Spawn oper)
  assume st: "sys_step s a = Some t" and inv: "core_inv s"
  obtain p c where sp: "start oper (sys_core s) = (p, c)" by (cases "start oper (sys_core s)")
  from sp st Spawn have "t = s\<lparr>sys_core := c, sys_tasks := sys_tasks s @ [(oper, p)]\<rparr>" by simp
  with sp inv show ?thesis
    using start_gates [OF sp] start_wf [OF sp] by (auto simp: core_inv_def gate_inv_append)
next
  case (Resume i ev)
  assume st: "sys_step s a = Some t" and inv: "core_inv s"
  from st Resume have "resume_task i ev s = Some t" by simp
  then obtain oper p p' c' where i: "i < length (sys_tasks s)" and p: "sys_tasks s ! i = (oper, p)"
    and po: "poll p ev (sys_core s) = Some (p', c')"
    and t: "t = \<lparr>sys_core = c', sys_tasks = (sys_tasks s)[i := (oper, p')],
              sys_log = sys_log s @ map (Pair i) (written_by p ev)\<rparr>"
    by (rule resume_taskE)
  from inv have w: "gate_inv holds_write (core_write_gate (sys_core s)) (sys_tasks s)"
    and r: "gate_inv holds_read (core_read_gate (sys_core s)) (sys_tasks s)"
    and wf: "core_wf (sys_core s)"
    by (auto simp: core_inv_def)
  from gate_inv_held [OF w i] p have hw: "holds_write p \<Longrightarrow> core_write_gate (sys_core s)" by simp
  from gate_inv_held [OF r i] p have hr: "holds_read p \<Longrightarrow> core_read_gate (sys_core s)" by simp
  have "gate_inv holds_write (core_write_gate c') (sys_tasks t)"
    using gate_inv_update [OF w i] poll_write_gate [OF po hw] p t by simp
  moreover have "gate_inv holds_read (core_read_gate c') (sys_tasks t)"
    using gate_inv_update [OF r i] poll_read_gate [OF po hr] p t by simp
  ultimately show ?thesis
    using poll_wf [OF po wf] t by (simp add: core_inv_def)
next
  case (DropTask i)
  assume st: "sys_step s a = Some t" and inv: "core_inv s"
  from st DropTask have "drop_task i s = Some t" by simp
  then obtain oper p p' c' where i: "i < length (sys_tasks s)" and p: "sys_tasks s ! i = (oper, p)"
    and d: "drop_future p (sys_core s) = (p', c')"
    and t: "t = s\<lparr>sys_core := c', sys_tasks := (sys_tasks s)[i := (oper, p')]\<rparr>"
    by (rule drop_taskE)
  from inv have w: "gate_inv holds_write (core_write_gate (sys_core s)) (sys_tasks s)"
    and r: "gate_inv holds_read (core_read_gate (sys_core s)) (sys_tasks s)"
    by (auto simp: core_inv_def)
  have "gate_inv holds_write (core_write_gate c') (sys_tasks t)"
    using gate_inv_drop [OF w i, of p' oper] drop_gates [OF d] p t by simp
  moreover have "gate_inv holds_read (core_read_gate c') (sys_tasks t)"
    using gate_inv_drop [OF r i, of p' oper] drop_gates [OF d] p t by simp
  ultimately show ?thesis
    using drop_gates [OF d] inv t by (auto simp: core_inv_def)
qed (auto simp: core_inv_def core_wf_steps pause_gates)

lemma core_inv_init: "core_inv (sys_init h e l p n)"
  using core_wf_new [of h e l p n]
  by (simp add: core_inv_def sys_init_def gate_inv_def core_new_def next_socket_id_def)

lemma reachable_core_inv: "reachable s \<Longrightarrow> core_inv s"
  by (induction rule: reachable.induct) (auto intro: core_inv_init core_inv_step)

section \<open>Whose bytes are on the wire\<close>

fun data_of :: "operation \<Rightarrow> bytes" where
  "data_of (WriteOnce data) = data"
| "data_of (Send data) = data"
| "data_of (SendTimeout data) = data"
| "data_of _ = []"

fun silent :: "operation \<Rightarrow> bool" where
  "silent (WriteOnce data) = False"
| "silent (Send data) = False"
| "silent (SendTimeout data) = False"
| "silent _ = True"

text \<open>
  What a task has put on the wire, given where it is: a complete send that is still writing has
  written exactly the prefix it counted, one that returned \<open>Ok\<close> has written all its data, a single
  write has written the count it returned, and one that failed or was dropped some prefix.
\<close>

fun finished_ok :: "operation \<Rightarrow> anyhow + reply \<Rightarrow> bytes \<Rightarrow> bool" where
  "finished_ok (Send data) (Inr v) out \<longleftrightarrow> v = VUnit \<and> out = data"
| "finished_ok (SendTimeout data) (Inr v) out \<longleftrightarrow> v = VUnit \<and> out = data"
| "finished_ok (WriteOnce data) (Inr v) out \<longleftrightarrow> (\<exists>n \<le> length data. v = VUsize n \<and> out = take n data)"
| "finished_ok oper r out \<longleftrightarrow> (\<exists>k. out = take k (data_of oper))"

fun contribution_ok :: "operation \<Rightarrow> pc \<Rightarrow> bytes \<Rightarrow> bool" where
  "contribution_ok oper (Finished r) out \<longleftrightarrow> finished_ok oper r out"
| "contribution_ok oper Dropped out \<longleftrightarrow> (\<exists>k. out = take k (data_of oper))"
| "contribution_ok oper (WriteGate data) out \<longleftrightarrow> oper = WriteOnce data \<and> out = []"
| "contribution_ok oper (WriteIo data h) out \<longleftrightarrow> oper = WriteOnce data \<and> out = []"
| "contribution_ok oper (SendGate data) out \<longleftrightarrow> oper = Send data \<and> out = []"
| "contribution_ok oper (SendIo data written h) out \<longleftrightarrow>
     oper = Send data \<and> written < length data \<and> out = take written data"
| "contribution_ok oper (TimedGate data) out \<longleftrightarrow> oper = SendTimeout data \<and> out = []"
| "contribution_ok oper (TimedIo data written h) out \<longleftrightarrow>
     oper = SendTimeout data \<and> written < length data \<and> out = take written data"
| "contribution_ok oper _ out \<longleftrightarrow> silent oper \<and> out = []"

lemma finished_ok_silent [simp]: "silent oper \<Longrightarrow> finished_ok oper r out \<longleftrightarrow> out = []"
  by (cases oper) auto

lemma finished_ok_Inl [simp]: "finished_ok oper (Inl e) out \<longleftrightarrow> (\<exists>k. out = take k (data_of oper))"
  by (cases oper) auto

lemma start_contribution: "start oper c = (p, c') \<Longrightarrow> contribution_ok oper p []"
  by (cases oper) (auto simp: start_defs Let_def split: poll_splits)

lemma poll_contribution:
  assumes "poll p ev c = Some (p', c')" and "contribution_ok oper p out"
  shows "contribution_ok oper p' (out @ written_by p ev)"
  using assms
  by (cases p) (auto simp: poll_defs Let_def take_add [symmetric] not_less take_all_iff
      intro: exI [of _ 0] split: poll_splits)

lemma poll_silent:
  "poll p ev c = Some (p', c') \<Longrightarrow> \<not> holds_write p \<Longrightarrow> written_by p ev = []"
  by (cases p) auto

lemma poll_acquires:
  assumes "poll p ev c = Some (p', c')" and "contribution_ok oper p out"
    and "holds_write p'" and "\<not> holds_write p"
  shows "out = []"
  using assms by (cases p) (auto simp: poll_defs Let_def split: poll_splits)

lemma drop_contribution:
  "drop_future p c = (p', c') \<Longrightarrow> contribution_ok oper p out \<Longrightarrow> contribution_ok oper p' out"
  by (cases p) (auto simp: drop_future_def intro: exI [of _ 0])

section \<open>One run per task\<close>

text \<open>
  The log is a sequence of runs: the tasks in some order, each with all its bytes at one place.
\<close>

definition in_runs :: "(nat \<times> 'a) list \<Rightarrow> nat list \<Rightarrow> bool" where
  "in_runs log order \<longleftrightarrow> distinct order \<and> (\<forall>i \<in> set order. bytes_of i log \<noteq> [])
     \<and> log = concat (map (\<lambda>i. map (Pair i) (bytes_of i log)) order)"

lemma bytes_of_Nil [simp]: "bytes_of i [] = []"
  by (simp add: bytes_of_def)

lemma bytes_of_append [simp]:
  "bytes_of j (log @ map (Pair i) bs) = bytes_of j log @ (if j = i then bs else [])"
  by (induction bs) (auto simp: bytes_of_def)

lemma in_runs_last:
  assumes "in_runs log order" and "log \<noteq> []"
  obtains order' where "order = order' @ [fst (last log)]"
proof -
  from assms have "order \<noteq> []" by (auto simp: in_runs_def)
  then obtain os i where order: "order = os @ [i]" by (metis rev_exhaust)
  with assms(1) have ne: "bytes_of i log \<noteq> []"
    and log: "log = concat (map (\<lambda>i. map (Pair i) (bytes_of i log)) os) @ map (Pair i) (bytes_of i log)"
    by (auto simp: in_runs_def)
  from ne have "last log = (i, last (bytes_of i log))"
    by (subst log) (simp add: last_map)
  with order that show ?thesis by simp
qed

lemma in_runs_append:
  assumes runs: "in_runs log order"
    and last: "bytes_of i log \<noteq> [] \<Longrightarrow> fst (last log) = i"
  shows "\<exists>order'. in_runs (log @ map (Pair i) bs) order'"
proof (cases "bs = []")
  case True
  with runs show ?thesis by auto
next
  case bs: False
  from runs have dist: "distinct order" and ne: "\<forall>j \<in> set order. bytes_of j log \<noteq> []"
    and log: "log = concat (map (\<lambda>i. map (Pair i) (bytes_of i log)) order)"
    by (auto simp: in_runs_def)
  let ?log = "log @ map (Pair i) bs"
  have same: "map (\<lambda>j. map (Pair j) (bytes_of j ?log)) os = map (\<lambda>j. map (Pair j) (bytes_of j log)) os"
    if "i \<notin> set os" for os
    using that by auto
  show ?thesis
  proof (cases "bytes_of i log = []")
    case True
    with ne have i: "i \<notin> set order" by auto
    have "concat (map (\<lambda>j. map (Pair j) (bytes_of j ?log)) (order @ [i])) = ?log"
      using True log by (simp add: same [OF i] del: bytes_of_append) (simp add: True)
    then have "in_runs ?log (order @ [i])"
      using dist ne i bs by (auto simp: in_runs_def)
    then show ?thesis by blast
  next
    case False
    then have "log \<noteq> []" by auto
    with runs obtain os where order: "order = os @ [fst (last log)]" by (rule in_runs_last)
    with last [OF False] dist have os: "order = os @ [i]" and i: "i \<notin> set os" by auto
    have "concat (map (\<lambda>j. map (Pair j) (bytes_of j ?log)) order) = ?log"
      using log os by (simp add: same [OF i] del: bytes_of_append) simp
    then have "in_runs ?log order"
      using dist ne by (auto simp: in_runs_def)
    then show ?thesis by blast
  qed
qed

definition log_inv :: "sys \<Rightarrow> bool" where
  "log_inv s \<longleftrightarrow>
     (\<exists>order. in_runs (sys_log s) order)
     \<and> (\<forall>x \<in> set (sys_log s). fst x < length (sys_tasks s))
     \<and> (\<forall>i < length (sys_tasks s).
          contribution_ok (task_op s i) (task_pc s i) (bytes_of i (sys_log s))
          \<and> (holds_write (task_pc s i) \<longrightarrow> bytes_of i (sys_log s) \<noteq> [] \<longrightarrow> fst (last (sys_log s)) = i))"

lemma log_inv_contribution:
  "log_inv s \<Longrightarrow> i < length (sys_tasks s) \<Longrightarrow> sys_tasks s ! i = (oper, p)
    \<Longrightarrow> contribution_ok oper p (bytes_of i (sys_log s))"
  unfolding log_inv_def task_op_def task_pc_def by (metis fst_conv snd_conv)

lemma log_inv_last:
  "log_inv s \<Longrightarrow> i < length (sys_tasks s) \<Longrightarrow> sys_tasks s ! i = (oper, p) \<Longrightarrow> holds_write p
    \<Longrightarrow> bytes_of i (sys_log s) \<noteq> [] \<Longrightarrow> fst (last (sys_log s)) = i"
  unfolding log_inv_def task_pc_def by (metis snd_conv)

lemma bytes_of_fresh:
  "\<forall>x \<in> set log. fst x < n \<Longrightarrow> bytes_of n log = []"
  by (auto simp: bytes_of_def filter_empty_conv)

lemma log_inv_spawn:
  assumes "log_inv s" and "start oper (sys_core s) = (p, c)"
  shows "log_inv (s\<lparr>sys_core := c, sys_tasks := sys_tasks s @ [(oper, p)]\<rparr>)"
proof -
  have "bytes_of (length (sys_tasks s)) (sys_log s) = []"
    using assms(1) by (intro bytes_of_fresh) (simp add: log_inv_def)
  then show ?thesis
    using assms start_contribution [OF assms(2)] start_gates [OF assms(2)]
    by (auto simp: log_inv_def task_op_def task_pc_def nth_append less_Suc_eq)
qed

lemma log_inv_resume:
  assumes inv: "log_inv s" and core: "core_inv s"
    and i: "i < length (sys_tasks s)" and p: "sys_tasks s ! i = (oper, p)"
    and po: "poll p ev (sys_core s) = Some (p', c')"
  shows "log_inv \<lparr>sys_core = c', sys_tasks = (sys_tasks s)[i := (oper, p')],
              sys_log = sys_log s @ map (Pair i) (written_by p ev)\<rparr>" (is "log_inv ?t")
proof -
  let ?log = "sys_log s" and ?out = "written_by p ev"
  have c: "contribution_ok oper p (bytes_of i ?log)" using inv i p by (rule log_inv_contribution)
  have last_i: "fst (last ?log) = i" if "?out \<noteq> []" "bytes_of i ?log \<noteq> []"
    using log_inv_last [OF inv i p] poll_silent [OF po] that by blast
  obtain order where "in_runs ?log order" using inv by (auto simp: log_inv_def)
  then have runs: "\<exists>order'. in_runs (sys_log ?t) order'"
    using in_runs_append [of ?log order i ?out] last_i by (cases "?out = []") auto
  have acquires: "bytes_of i ?log = []" if "holds_write p'" "\<not> holds_write p"
    using poll_acquires [OF po c] that by blast
  have others: "?out = []"
    if "j < length (sys_tasks s)" "j \<noteq> i" "holds_write (snd (sys_tasks s ! j))" for j
  proof -
    have "gate_inv holds_write (core_write_gate (sys_core s)) (sys_tasks s)"
      using core by (simp add: core_inv_def)
    from gate_inv_unique [OF this i that(1) _ that(3)] that(2) p have "\<not> holds_write p" by auto
    with poll_silent [OF po] show ?thesis by blast
  qed
  have "contribution_ok (task_op ?t j) (task_pc ?t j) (bytes_of j (sys_log ?t))
      \<and> (holds_write (task_pc ?t j) \<longrightarrow> bytes_of j (sys_log ?t) \<noteq> [] \<longrightarrow> fst (last (sys_log ?t)) = j)"
    if j: "j < length (sys_tasks s)" for j
  proof (cases "j = i")
    case True
    have "fst (last (sys_log ?t)) = i" if "holds_write p'" "bytes_of i (sys_log ?t) \<noteq> []"
    proof (cases "?out = []")
      case False
      then show ?thesis by (simp add: last_map)
    next
      case out: True
      with that acquires have "holds_write p" by auto
      with out that log_inv_last [OF inv i p] show ?thesis by simp
    qed
    then show ?thesis
      using True poll_contribution [OF po c] i by (simp add: task_op_def task_pc_def)
  next
    case False
    have "contribution_ok (task_op s j) (task_pc s j) (bytes_of j ?log)"
      and "holds_write (task_pc s j) \<longrightarrow> bytes_of j ?log \<noteq> [] \<longrightarrow> fst (last ?log) = j"
      using inv j by (auto simp: log_inv_def)
    with False others [OF j] show ?thesis by (auto simp: task_op_def task_pc_def)
  qed
  moreover have "\<forall>x \<in> set (sys_log ?t). fst x < length (sys_tasks ?t)"
    using inv i by (auto simp: log_inv_def)
  ultimately show ?thesis using runs by (simp add: log_inv_def)
qed

lemma log_inv_drop:
  assumes inv: "log_inv s" and i: "i < length (sys_tasks s)" and p: "sys_tasks s ! i = (oper, p)"
    and d: "drop_future p (sys_core s) = (p', c')"
  shows "log_inv (s\<lparr>sys_core := c', sys_tasks := (sys_tasks s)[i := (oper, p')]\<rparr>)"
  using inv i p drop_contribution [OF d log_inv_contribution [OF inv i p]] drop_gates [OF d]
  by (auto simp: log_inv_def task_op_def task_pc_def nth_list_update)

lemma log_inv_core: "log_inv (s\<lparr>sys_core := c\<rparr>) = log_inv s"
  by (simp add: log_inv_def task_op_def task_pc_def)

lemma log_inv_step:
  assumes "sys_step s a = Some t" and "log_inv s" and "core_inv s"
  shows "log_inv t"
proof (cases a)
  case (Spawn oper)
  with assms log_inv_spawn [of s oper] show ?thesis by (cases "start oper (sys_core s)") auto
next
  case (Resume i ev)
  with assms(1) have "resume_task i ev s = Some t" by simp
  then show ?thesis by (rule resume_taskE) (simp add: log_inv_resume assms(2,3))
next
  case (DropTask i)
  with assms(1) have "drop_task i s = Some t" by simp
  then show ?thesis by (rule drop_taskE) (simp add: log_inv_drop assms(2))
qed (use assms in \<open>auto simp: log_inv_core\<close>)

lemma reachable_log_inv: "reachable s \<Longrightarrow> log_inv s"
proof (induction rule: reachable.induct)
  case initial
  then show ?case by (auto simp: log_inv_def sys_init_def in_runs_def)
next
  case step
  then show ?case by (blast intro: log_inv_step reachable_core_inv)
qed

end
