(* ===== verification/Conn_Liveness.thy ===== *)
theory Conn_Liveness
  imports Conn_Safety
begin

text \<open>
  What the terminal transitions of a connection guarantee in every interleaving: a finished write
  shutdown freezes the outgoing stream, end of stream is final, an I/O failure closes the
  connection, and a close lets every pending operation finish and releases the OS stream.
\<close>

section \<open>The outgoing stream after a write shutdown\<close>

fun data_io :: "pc \<Rightarrow> bool" where
  "data_io (WriteIo data h) = True"
| "data_io (SendIo data written h) = True"
| "data_io (TimedIo data written h) = True"
| "data_io _ = False"

lemma data_io_holds: "data_io p \<Longrightarrow> holds_write p"
  by (cases p) auto

lemma not_data_io_silent: "\<not> data_io p \<Longrightarrow> written_by p ev = []"
  by (cases p) auto

lemma poll_data_io:
  "poll p ev c = Some (p', c') \<Longrightarrow> data_io p' \<Longrightarrow> data_io p \<or> \<not> c_write_shutdown (core_state c)"
  by (cases p) (auto simp: poll_defs ensure_write_Inr_iff Let_def split: poll_splits)

lemma poll_data_io_keeps:
  "poll p ev c = Some (p', c') \<Longrightarrow> data_io p' \<Longrightarrow> core_state c' = core_state c"
  by (cases p) (auto simp: poll_defs Let_def split: poll_splits)

lemma poll_shuts_write:
  assumes "poll p ev c = Some (p', c')" and "\<not> c_write_shutdown (core_state c)"
    and "c_write_shutdown (core_state c')" and "\<not> c_closed (core_state c')"
  shows "\<not> core_write_gate c"
  using assms
  by (cases p) (auto simp: poll_defs Let_def core_set_eof_def split: poll_splits)

lemma start_not_data_io: "start oper c = (p, c') \<Longrightarrow> \<not> data_io p"
  by (cases oper) (auto simp: start_defs Let_def split: poll_splits)

lemma start_shuts_write:
  "start oper c = (p, c') \<Longrightarrow> c_write_shutdown (core_state c') \<Longrightarrow> \<not> c_closed (core_state c')
    \<Longrightarrow> c_write_shutdown (core_state c)"
  by (cases oper) (auto simp: start_defs Let_def cs_close_def split: poll_splits)

definition no_writer :: "sys \<Rightarrow> bool" where
  "no_writer s \<longleftrightarrow> (\<forall>i < length (sys_tasks s). \<not> data_io (snd (sys_tasks s ! i)))"

lemma no_writer_update:
  "no_writer s \<Longrightarrow> i < length (sys_tasks s) \<Longrightarrow> \<not> data_io p
    \<Longrightarrow> no_writer \<lparr>sys_core = c, sys_tasks = (sys_tasks s)[i := (oper, p)], sys_log = l\<rparr>"
  by (auto simp: no_writer_def nth_list_update)

definition frozen :: "sys \<Rightarrow> bool" where
  "frozen s \<longleftrightarrow> c_write_shutdown (core_state (sys_core s)) \<and> no_writer s"

lemma frozen_step: "sys_step s a = Some t \<Longrightarrow> frozen s \<Longrightarrow> frozen t \<and> sys_log t = sys_log s"
proof (cases a)
  case (Spawn oper)
  assume st: "sys_step s a = Some t" and fr: "frozen s"
  obtain p c where sp: "start oper (sys_core s) = (p, c)" by (cases "start oper (sys_core s)")
  with st Spawn have t: "t = s\<lparr>sys_core := c, sys_tasks := sys_tasks s @ [(oper, p)]\<rparr>" by simp
  with fr start_not_data_io [OF sp] start_flags_le [OF sp] show ?thesis
    by (auto simp: frozen_def no_writer_def flags_le_def nth_append less_Suc_eq)
next
  case (Resume i ev)
  assume st: "sys_step s a = Some t" and fr: "frozen s"
  from st Resume have "resume_task i ev s = Some t" by simp
  then show ?thesis
  proof (rule resume_taskE)
    fix oper p p' c'
    assume i: "i < length (sys_tasks s)" and p: "sys_tasks s ! i = (oper, p)"
      and po: "poll p ev (sys_core s) = Some (p', c')"
      and t: "t = \<lparr>sys_core = c', sys_tasks = (sys_tasks s)[i := (oper, p')],
              sys_log = sys_log s @ map (Pair i) (written_by p ev)\<rparr>"
    from fr i p have np: "\<not> data_io p" by (auto simp: frozen_def no_writer_def)
    with poll_data_io [OF po] fr have "\<not> data_io p'" by (auto simp: frozen_def)
    with fr i have "no_writer t" unfolding t by (intro no_writer_update) (auto simp: frozen_def)
    with fr poll_flags_le [OF po] not_data_io_silent [OF np] t show ?thesis
      by (auto simp: frozen_def flags_le_def)
  qed
next
  case (DropTask i)
  assume st: "sys_step s a = Some t" and fr: "frozen s"
  from st DropTask have "drop_task i s = Some t" by simp
  then show ?thesis
  proof (rule drop_taskE)
    fix oper p p' c'
    assume i: "i < length (sys_tasks s)" and d: "drop_future p (sys_core s) = (p', c')"
      and t: "t = s\<lparr>sys_core := c', sys_tasks := (sys_tasks s)[i := (oper, p')]\<rparr>"
    from drop_gates [OF d] have "\<not> data_io p'" and "core_state c' = core_state (sys_core s)"
      using data_io_holds by blast+
    with fr i t show ?thesis by (auto simp: frozen_def no_writer_def nth_list_update)
  qed
qed (auto simp: frozen_def no_writer_def core_pause_def core_resume_def cs_pause_def cs_resume_def)

lemma frozen_run: "sys_run s as = Some t \<Longrightarrow> frozen s \<Longrightarrow> frozen t \<and> sys_log t = sys_log s"
  by (induction s as rule: sys_run.induct) (auto split: option.splits dest: frozen_step)

text \<open>The gate is taken before the flag is set, so nobody is still writing when it is.\<close>

definition fin_inv :: "sys \<Rightarrow> bool" where
  "fin_inv s \<longleftrightarrow>
     (c_write_shutdown (core_state (sys_core s)) \<and> \<not> c_closed (core_state (sys_core s)) \<longrightarrow> no_writer s)"

lemma no_writer_unlocked:
  "core_inv s \<Longrightarrow> \<not> core_write_gate (sys_core s) \<Longrightarrow> no_writer s"
  by (auto simp: core_inv_def gate_inv_def no_writer_def dest: data_io_holds)

lemma fin_inv_resume:
  assumes inv: "fin_inv s" and core: "core_inv s"
    and i: "i < length (sys_tasks s)" and p: "sys_tasks s ! i = (oper, p)"
    and po: "poll p ev (sys_core s) = Some (p', c')"
  shows "fin_inv \<lparr>sys_core = c', sys_tasks = (sys_tasks s)[i := (oper, p')], sys_log = l\<rparr>"
proof -
  have "no_writer \<lparr>sys_core = c', sys_tasks = (sys_tasks s)[i := (oper, p')], sys_log = l\<rparr>"
    if shut: "c_write_shutdown (core_state c')" and live: "\<not> c_closed (core_state c')"
  proof -
    from live poll_flags_le [OF po] have live': "\<not> c_closed (core_state (sys_core s))"
      by (auto simp: flags_le_def)
    have nw: "no_writer s"
    proof (cases "c_write_shutdown (core_state (sys_core s))")
      case True
      with inv live' show ?thesis by (simp add: fin_inv_def)
    next
      case False
      with poll_shuts_write [OF po _ shut live] core show ?thesis by (auto intro: no_writer_unlocked)
    qed
    have "\<not> data_io p'"
    proof
      assume d: "data_io p'"
      with poll_data_io_keeps [OF po] shut have "c_write_shutdown (core_state (sys_core s))" by simp
      with poll_data_io [OF po d] nw i p show False by (auto simp: no_writer_def)
    qed
    with nw i show ?thesis by (rule no_writer_update)
  qed
  then show ?thesis by (simp add: fin_inv_def)
qed

lemma fin_inv_step:
  assumes "sys_step s a = Some t" and inv: "fin_inv s" and core: "core_inv s"
  shows "fin_inv t"
proof (cases a)
  case (Spawn oper)
  obtain p c where sp: "start oper (sys_core s) = (p, c)" by (cases "start oper (sys_core s)")
  with assms(1) Spawn have t: "t = s\<lparr>sys_core := c, sys_tasks := sys_tasks s @ [(oper, p)]\<rparr>" by simp
  with inv start_not_data_io [OF sp] start_flags_le [OF sp] start_shuts_write [OF sp] show ?thesis
    by (auto simp: fin_inv_def no_writer_def flags_le_def nth_append less_Suc_eq)
next
  case (Resume i ev)
  with assms(1) have "resume_task i ev s = Some t" by simp
  then show ?thesis by (rule resume_taskE) (simp add: fin_inv_resume inv core)
next
  case (DropTask i)
  with assms(1) have "drop_task i s = Some t" by simp
  then show ?thesis
    by (rule drop_taskE)
      (use inv in \<open>auto simp: fin_inv_def no_writer_def nth_list_update dest!: drop_gates dest: data_io_holds\<close>)
qed (use assms in \<open>auto simp: fin_inv_def no_writer_def core_pause_def core_resume_def cs_pause_def cs_resume_def split: if_splits\<close>)

lemma reachable_fin_inv: "reachable s \<Longrightarrow> fin_inv s"
proof (induction rule: reachable.induct)
  case initial
  then show ?case by (simp add: fin_inv_def no_writer_def sys_init_def)
next
  case step
  then show ?case by (blast intro: fin_inv_step reachable_core_inv)
qed

lemma shutdown_frozen:
  "reachable s \<Longrightarrow> c_write_shutdown (core_state (sys_core s)) \<Longrightarrow> \<not> c_closed (core_state (sys_core s))
    \<Longrightarrow> frozen s"
  using reachable_fin_inv by (auto simp: fin_inv_def frozen_def)

section \<open>Every flag is final\<close>

lemma step_flags_le: "sys_step s a = Some t \<Longrightarrow> flags_le (sys_core s) (sys_core t)"
proof (cases a)
  case (Spawn oper)
  assume "sys_step s a = Some t"
  with Spawn show ?thesis
    by (cases "start oper (sys_core s)") (auto dest: start_flags_le)
next
  case (Resume i ev)
  assume "sys_step s a = Some t"
  with Resume have "resume_task i ev s = Some t" by simp
  then show ?thesis by (rule resume_taskE) (simp add: poll_flags_le)
next
  case (DropTask i)
  assume "sys_step s a = Some t"
  with DropTask have "drop_task i s = Some t" by simp
  then show ?thesis by (rule drop_taskE) (auto dest: drop_flags_le)
qed auto

lemma run_flags_le: "sys_run s as = Some t \<Longrightarrow> flags_le (sys_core s) (sys_core t)"
proof (induction s as rule: sys_run.induct)
  case 1
  then show ?case by simp
next
  case (2 s a as)
  then show ?case by (auto split: option.splits intro: flags_le_trans dest: step_flags_le)
qed

section \<open>Closing lets everything finish\<close>

text \<open>Operations that a close interrupts, and how many resumptions a task still needs after one.\<close>

fun interruptible :: "pc \<Rightarrow> bool" where
  "interruptible (Finished r) = False"
| "interruptible Dropped = False"
| "interruptible ShutdownGate = False"
| "interruptible (ShutdownIo h) = False"
| "interruptible (CloseGate h) = False"
| "interruptible (CloseIo h) = False"
| "interruptible _ = True"

fun weight :: "pc \<Rightarrow> nat" where
  "weight (Finished r) = 0"
| "weight Dropped = 0"
| "weight ShutdownGate = 2"
| "weight (CloseGate h) = 2"
| "weight _ = 1"

fun holds_stream :: "pc \<Rightarrow> bool" where
  "holds_stream (ReceiveIo buffer h) = True"
| "holds_stream (WriteIo data h) = True"
| "holds_stream (SendIo data written h) = True"
| "holds_stream (TimedIo data written h) = True"
| "holds_stream (FlushIo h) = True"
| "holds_stream (ShutdownIo h) = True"
| "holds_stream (CloseGate h) = True"
| "holds_stream (CloseIo h) = True"
| "holds_stream _ = False"

text \<open>The OS stream is open as long as the slot or some operation has an \<open>Arc\<close> of it.\<close>

definition stream_live :: "sys \<Rightarrow> bool" where
  "stream_live s \<longleftrightarrow> core_stream (sys_core s) \<noteq> None
     \<or> (\<exists>i < length (sys_tasks s). holds_stream (task_pc s i))"

definition all_done :: "sys \<Rightarrow> bool" where
  "all_done s \<longleftrightarrow> (\<forall>i < length (sys_tasks s). is_done (task_pc s i))"

lemma interrupt_poll:
  "interruptible p \<Longrightarrow> core_close_token c \<Longrightarrow> \<exists>e c'. poll p CloseFired c = Some (Finished (Inl e), c')"
  by (cases p) (auto simp: poll_defs)

lemma is_done_weight: "is_done p \<longleftrightarrow> weight p = 0"
  by (cases p) auto

lemma done_no_stream: "is_done p \<Longrightarrow> \<not> holds_stream p"
  by (cases p) auto

lemma closed_gate_poll:
  "p = ShutdownGate \<or> p = CloseGate h \<Longrightarrow> \<not> core_write_gate c \<Longrightarrow> c_closed (core_state c)
    \<Longrightarrow> \<exists>p' c'. poll p GateAcquired c = Some (p', c') \<and> weight p' < weight p"
  by (auto simp: poll_defs)

lemma shutdown_io_poll:
  "p = ShutdownIo h \<or> p = CloseIo h
    \<Longrightarrow> \<exists>r c'. poll p (ShutdownDone (Inr ())) c = Some (Finished r, c')"
  by (auto simp: poll_defs)

definition total_weight :: "sys \<Rightarrow> nat" where
  "total_weight s = sum_list (map (\<lambda>x. weight (snd x)) (sys_tasks s))"

lemma sum_list_update_less:
  fixes f :: "'a \<Rightarrow> nat"
  assumes "i < length xs" and "f y < f (xs ! i)"
  shows "sum_list (map f (xs[i := y])) < sum_list (map f xs)"
  using assms
proof (induction xs arbitrary: i)
  case Nil
  then show ?case by simp
next
  case (Cons x xs)
  then show ?case by (cases i) auto
qed

text \<open>Resumptions that need nothing from the peer: the cancelled token, the gate, the OS shutdown.\<close>

definition drains :: "action \<Rightarrow> bool" where
  "drains a \<longleftrightarrow> (\<exists>i ev. a = Resume i ev \<and> ev \<in> {CloseFired, GateAcquired, ShutdownDone (Inr ())})"

lemma resume_decreases:
  assumes i: "i < length (sys_tasks s)" and po: "poll (task_pc s i) ev (sys_core s) = Some (p', c')"
    and less: "weight p' < weight (task_pc s i)"
  shows "\<exists>t. sys_step s (Resume i ev) = Some t \<and> total_weight t < total_weight s
    \<and> length (sys_tasks t) = length (sys_tasks s)"
proof -
  obtain oper where "sys_tasks s ! i = (oper, task_pc s i)" by (metis surjective_pairing task_pc_def)
  with assms show ?thesis
    using sum_list_update_less [of i "sys_tasks s" "\<lambda>x. weight (snd x)" "(oper, p')"]
    by (simp add: resume_task_def total_weight_def)
qed

lemma drain_step:
  assumes core: "core_inv s" and closed: "c_closed (core_state (sys_core s))" and busy: "\<not> all_done s"
  shows "\<exists>a t. drains a \<and> sys_step s a = Some t \<and> total_weight t < total_weight s
    \<and> length (sys_tasks t) = length (sys_tasks s)"
proof -
  from core closed have token: "core_close_token (sys_core s)" by (simp add: core_inv_def core_wf_def)
  have event: "\<exists>i ev p' c'. ev \<in> {CloseFired, GateAcquired, ShutdownDone (Inr ())} \<and> i < length (sys_tasks s)
      \<and> poll (task_pc s i) ev (sys_core s) = Some (p', c') \<and> weight p' < weight (task_pc s i)"
  proof (cases "\<exists>i < length (sys_tasks s). interruptible (task_pc s i)
      \<or> (\<exists>h. task_pc s i = ShutdownIo h \<or> task_pc s i = CloseIo h)")
    case True
    then obtain i where i: "i < length (sys_tasks s)"
      and "interruptible (task_pc s i) \<or> (\<exists>h. task_pc s i = ShutdownIo h \<or> task_pc s i = CloseIo h)"
      by blast
    then consider "interruptible (task_pc s i)"
      | h where "task_pc s i = ShutdownIo h \<or> task_pc s i = CloseIo h" by blast
    then show ?thesis
    proof cases
      case 1
      then have "0 < weight (task_pc s i)" by (cases "task_pc s i") auto
      with interrupt_poll [OF 1 token] i show ?thesis by fastforce
    next
      case 2
      then have "0 < weight (task_pc s i)" by auto
      with shutdown_io_poll [OF 2, of "sys_core s"] i show ?thesis by fastforce
    qed
  next
    case False
    have gates: "is_done (task_pc s i) \<or> task_pc s i = ShutdownGate \<or> (\<exists>h. task_pc s i = CloseGate h)"
      if "i < length (sys_tasks s)" for i
      using False that by (cases "task_pc s i") auto
    have "\<not> holds_write (task_pc s i)" if "i < length (sys_tasks s)" for i
      using gates [OF that] by (cases "task_pc s i") auto
    then have free: "\<not> core_write_gate (sys_core s)"
      using core by (auto simp: core_inv_def gate_inv_def task_pc_def)
    from busy obtain i where i: "i < length (sys_tasks s)" and "\<not> is_done (task_pc s i)"
      by (auto simp: all_done_def)
    with gates [OF i] obtain h where h: "task_pc s i = ShutdownGate \<or> task_pc s i = CloseGate h" by blast
    from closed_gate_poll [OF h free closed] i show ?thesis by blast
  qed
  then obtain i ev p' c' where ev: "ev \<in> {CloseFired, GateAcquired, ShutdownDone (Inr ())}"
    and i: "i < length (sys_tasks s)" and po: "poll (task_pc s i) ev (sys_core s) = Some (p', c')"
    and less: "weight p' < weight (task_pc s i)" by blast
  from resume_decreases [OF i po less] ev show ?thesis unfolding drains_def by blast
qed

lemma close_drains_run:
  assumes "core_inv s" and "c_closed (core_state (sys_core s))"
  shows "\<exists>as t. sys_run s as = Some t \<and> (\<forall>a \<in> set as. drains a) \<and> all_done t \<and> core_inv t
    \<and> c_closed (core_state (sys_core t)) \<and> length (sys_tasks t) = length (sys_tasks s)"
  using assms
proof (induction "total_weight s" arbitrary: s rule: less_induct)
  case less
  show ?case
  proof (cases "all_done s")
    case True
    with less.prems show ?thesis by (intro exI [of _ "[]"] exI [of _ s]) simp
  next
    case False
    with drain_step less.prems obtain a u where a: "drains a" "sys_step s a = Some u"
      and u: "total_weight u < total_weight s" "length (sys_tasks u) = length (sys_tasks s)"
      by blast
    from step_flags_le [OF a(2)] less.prems have "c_closed (core_state (sys_core u))"
      by (simp add: flags_le_def)
    with less.hyps [OF u(1)] core_inv_step [OF a(2) less.prems(1)] obtain as t
      where "sys_run u as = Some t" "\<forall>a \<in> set as. drains a" "all_done t" "core_inv t"
        "c_closed (core_state (sys_core t))" "length (sys_tasks t) = length (sys_tasks u)"
      by blast
    with a u show ?thesis by (intro exI [of _ "a # as"] exI [of _ t]) simp
  qed
qed

lemma done_released:
  "core_inv t \<Longrightarrow> c_closed (core_state (sys_core t)) \<Longrightarrow> all_done t \<Longrightarrow> \<not> stream_live t"
  using done_no_stream by (auto simp: stream_live_def all_done_def core_inv_def core_wf_def)

section \<open>Failures are terminal\<close>

text \<open>Answers of the OS stream, or of the deadline, after which progress is unknown.\<close>

definition write_refused :: "event \<Rightarrow> bool" where
  "write_refused ev \<longleftrightarrow> (case ev of WriteDone (Inl e) \<Rightarrow> True | WriteDone (Inr n) \<Rightarrow> n = 0 | _ \<Rightarrow> False)"

fun io_failure :: "pc \<Rightarrow> event \<Rightarrow> bool" where
  "io_failure (ReceiveIo buffer h) ev \<longleftrightarrow> (case ev of ReadDone (Inl e) \<Rightarrow> True | _ \<Rightarrow> False)"
| "io_failure (WriteIo data h) ev \<longleftrightarrow> write_refused ev"
| "io_failure (SendIo data written h) ev \<longleftrightarrow> write_refused ev"
| "io_failure (TimedIo data written h) ev \<longleftrightarrow> write_refused ev \<or> ev = DeadlineElapsed"
| "io_failure (FlushIo h) ev \<longleftrightarrow> (case ev of FlushDone (Inl e) \<Rightarrow> True | _ \<Rightarrow> False)"
| "io_failure (ShutdownIo h) ev \<longleftrightarrow> (case ev of ShutdownDone (Inl e) \<Rightarrow> True | _ \<Rightarrow> False)"
| "io_failure _ ev \<longleftrightarrow> False"

lemma io_failure_closes:
  "poll p ev c = Some (p', c') \<Longrightarrow> io_failure p ev
    \<Longrightarrow> c_closed (core_state c') \<and> (\<exists>e. p' = Finished (Inl e)) \<and> \<not> holds_write p'"
  by (cases p) (auto simp: poll_defs write_refused_def Let_def split: poll_splits)

end
