(* ===== verification/Hello_Codec.thy ===== *)
theory Hello_Codec
  imports Results
begin

text \<open>
  The byte layouts of the secure handshake in \<open>crates/taunicorn/src/security.rs\<close>: the hello frames
  with their encoders and decoders, the messages that are signed, the transcript, the associated data
  and nonces of the encrypted messages, and the split of the derived key material. A \<open>[u8; N]\<close>
  is a byte list of length \<open>N\<close>; the length is stated where it matters (\<open>client_hello_wf\<close>). The
  codec contract (both round trips) is a locale, interpreted on the two hello frames.
\<close>

section \<open>Protocol constants\<close>

definition ascii :: "string \<Rightarrow> bytes" where
  "ascii s = map of_char s"

definition AEAD_KEY_SIZE :: usize where "AEAD_KEY_SIZE = 32"
definition AEAD_NONCE_SIZE :: usize where "AEAD_NONCE_SIZE = 12"
definition AEAD_TAG_SIZE :: usize where "AEAD_TAG_SIZE = 16"
definition ED25519_PUBLIC_KEY_SIZE :: usize where "ED25519_PUBLIC_KEY_SIZE = 32"
definition ED25519_SIGNATURE_SIZE :: usize where "ED25519_SIGNATURE_SIZE = 64"
definition X25519_PUBLIC_KEY_SIZE :: usize where "X25519_PUBLIC_KEY_SIZE = 32"
definition HANDSHAKE_NONCE_SIZE :: usize where "HANDSHAKE_NONCE_SIZE = 32"
definition TRANSCRIPT_HASH_SIZE :: usize where "TRANSCRIPT_HASH_SIZE = 32"
definition MESSAGE_TYPE_SIZE :: usize where "MESSAGE_TYPE_SIZE = 1"
definition VERSION_SIZE :: usize where "VERSION_SIZE = 1"
definition SEQUENCE_SIZE :: usize where "SEQUENCE_SIZE = 8"

definition ENCRYPTED_FRAME_HEADER_SIZE :: usize where
  "ENCRYPTED_FRAME_HEADER_SIZE = VERSION_SIZE + SEQUENCE_SIZE"

definition MIN_ENCRYPTED_FRAME_SIZE :: usize where
  "MIN_ENCRYPTED_FRAME_SIZE = ENCRYPTED_FRAME_HEADER_SIZE + AEAD_TAG_SIZE"

definition NONCE_PREFIX_SIZE :: usize where
  "NONCE_PREFIX_SIZE = AEAD_NONCE_SIZE - SEQUENCE_SIZE"

definition HELLO_HEADER_SIZE :: usize where
  "HELLO_HEADER_SIZE = MESSAGE_TYPE_SIZE + VERSION_SIZE"

definition HELLO_SIZE :: usize where
  "HELLO_SIZE = HELLO_HEADER_SIZE + ED25519_PUBLIC_KEY_SIZE + X25519_PUBLIC_KEY_SIZE
     + HANDSHAKE_NONCE_SIZE + ED25519_SIGNATURE_SIZE"

definition HKDF_OUTPUT_SIZE :: usize where
  "HKDF_OUTPUT_SIZE = AEAD_KEY_SIZE * 2 + NONCE_PREFIX_SIZE * 2"

definition MAGIC :: bytes where "MAGIC = ascii ''TNE2''"
definition VERSION :: byte where "VERSION = 2"
definition CLIENT_HELLO :: byte where "CLIENT_HELLO = 1"
definition SERVER_HELLO :: byte where "SERVER_HELLO = 2"
definition DIRECTION_CLIENT_TO_SERVER :: byte where "DIRECTION_CLIENT_TO_SERVER = 1"
definition DIRECTION_SERVER_TO_CLIENT :: byte where "DIRECTION_SERVER_TO_CLIENT = 2"

definition CLIENT_FINISHED :: bytes where
  "CLIENT_FINISHED = ascii ''taunicorn-e2ee-v2/client-finished''"

definition SERVER_FINISHED :: bytes where
  "SERVER_FINISHED = ascii ''taunicorn-e2ee-v2/server-finished''"

lemmas size_defs =
  AEAD_KEY_SIZE_def AEAD_NONCE_SIZE_def AEAD_TAG_SIZE_def ED25519_PUBLIC_KEY_SIZE_def
  ED25519_SIGNATURE_SIZE_def X25519_PUBLIC_KEY_SIZE_def HANDSHAKE_NONCE_SIZE_def
  TRANSCRIPT_HASH_SIZE_def MESSAGE_TYPE_SIZE_def VERSION_SIZE_def SEQUENCE_SIZE_def
  ENCRYPTED_FRAME_HEADER_SIZE_def MIN_ENCRYPTED_FRAME_SIZE_def NONCE_PREFIX_SIZE_def
  HELLO_HEADER_SIZE_def HELLO_SIZE_def HKDF_OUTPUT_SIZE_def

section \<open>Fixed-size fields\<close>

definition err_offset :: anyhow where "err_offset = Message ''protocol offset overflow''"

definition err_boundary :: anyhow where
  "err_boundary = Message ''protocol field exceeds frame boundary''"

definition err_field :: anyhow where
  "err_field = Message ''invalid fixed-size protocol field''"

text \<open>The field of \<open>n\<close> bytes at \<open>offset\<close>, and the offset behind it.\<close>

definition take_array :: "usize \<Rightarrow> bytes \<Rightarrow> usize \<Rightarrow> anyhow + bytes \<times> usize" where
  "take_array n data offset =
     (case usize_checked_add offset n of
        None \<Rightarrow> Inl err_offset
      | Some fin \<Rightarrow>
          if offset \<le> fin \<and> fin \<le> length data
          then (let value = take (fin - offset) (drop offset data) in
                if length value = n then Inr (value, fin) else Inl err_field)
          else Inl err_boundary)"

lemma take_array_Inr [simp]:
  "offset + n \<le> length data \<Longrightarrow> offset + n < usize_limit
    \<Longrightarrow> take_array n data offset = Inr (take n (drop offset data), offset + n)"
  by (simp add: take_array_def usize_checked_add_def)

lemma take_array_Inl:
  "length data < offset + n \<Longrightarrow> \<exists>e. take_array n data offset = Inl e"
  by (auto simp: take_array_def usize_checked_add_def)

section \<open>The hello frames\<close>

record client_hello =
  ch_ephemeral_public_key :: bytes
  ch_identity_public_key :: bytes
  ch_nonce :: bytes
  ch_signature :: bytes

record server_hello =
  sh_ephemeral_public_key :: bytes
  sh_identity_public_key :: bytes
  sh_nonce :: bytes
  sh_signature :: bytes

definition err_client_size :: "usize \<Rightarrow> anyhow" where
  "err_client_size n =
     Message (''invalid client hello size: expected '' @ decimal HELLO_SIZE @ '', received '' @ decimal n)"

definition err_client_type :: anyhow where
  "err_client_type = Message ''invalid client hello type''"

definition err_client_version :: "byte \<Rightarrow> anyhow" where
  "err_client_version v =
     Message (''invalid client hello version: expected '' @ decimal (unat VERSION)
       @ '', received '' @ decimal (unat v))"

definition decode_client_hello :: "bytes \<Rightarrow> anyhow + client_hello" where
  "decode_client_hello data =
     (if length data \<noteq> HELLO_SIZE then Inl (err_client_size (length data))
      else if data ! 0 \<noteq> CLIENT_HELLO then Inl err_client_type
      else if data ! 1 \<noteq> VERSION then Inl (err_client_version (data ! 1))
      else
        try_result (take_array ED25519_PUBLIC_KEY_SIZE data HELLO_HEADER_SIZE) (\<lambda>(identity, offset).
        try_result (take_array X25519_PUBLIC_KEY_SIZE data offset) (\<lambda>(ephemeral, offset).
        try_result (take_array HANDSHAKE_NONCE_SIZE data offset) (\<lambda>(nonce, offset).
        try_result (take_array ED25519_SIGNATURE_SIZE data offset) (\<lambda>(signature, offset).
        Inr \<lparr>ch_ephemeral_public_key = ephemeral, ch_identity_public_key = identity,
              ch_nonce = nonce, ch_signature = signature\<rparr>)))))"

definition encode_client_hello :: "client_hello \<Rightarrow> bytes" where
  "encode_client_hello hello =
     [CLIENT_HELLO] @ [VERSION] @ ch_identity_public_key hello @ ch_ephemeral_public_key hello
     @ ch_nonce hello @ ch_signature hello"

definition err_server_size :: "usize \<Rightarrow> anyhow" where
  "err_server_size n =
     Message (''invalid server hello size: expected '' @ decimal HELLO_SIZE @ '', received '' @ decimal n)"

definition err_server_type :: anyhow where
  "err_server_type = Message ''invalid server hello type''"

definition err_server_version :: "byte \<Rightarrow> anyhow" where
  "err_server_version v =
     Message (''invalid server hello version: expected '' @ decimal (unat VERSION)
       @ '', received '' @ decimal (unat v))"

definition decode_server_hello :: "bytes \<Rightarrow> anyhow + server_hello" where
  "decode_server_hello data =
     (if length data \<noteq> HELLO_SIZE then Inl (err_server_size (length data))
      else if data ! 0 \<noteq> SERVER_HELLO then Inl err_server_type
      else if data ! 1 \<noteq> VERSION then Inl (err_server_version (data ! 1))
      else
        try_result (take_array ED25519_PUBLIC_KEY_SIZE data HELLO_HEADER_SIZE) (\<lambda>(identity, offset).
        try_result (take_array X25519_PUBLIC_KEY_SIZE data offset) (\<lambda>(ephemeral, offset).
        try_result (take_array HANDSHAKE_NONCE_SIZE data offset) (\<lambda>(nonce, offset).
        try_result (take_array ED25519_SIGNATURE_SIZE data offset) (\<lambda>(signature, offset).
        Inr \<lparr>sh_ephemeral_public_key = ephemeral, sh_identity_public_key = identity,
              sh_nonce = nonce, sh_signature = signature\<rparr>)))))"

definition encode_server_hello :: "server_hello \<Rightarrow> bytes" where
  "encode_server_hello hello =
     [SERVER_HELLO] @ [VERSION] @ sh_identity_public_key hello @ sh_ephemeral_public_key hello
     @ sh_nonce hello @ sh_signature hello"

definition client_hello_wf :: "client_hello \<Rightarrow> bool" where
  "client_hello_wf h \<longleftrightarrow>
     length (ch_identity_public_key h) = ED25519_PUBLIC_KEY_SIZE
     \<and> length (ch_ephemeral_public_key h) = X25519_PUBLIC_KEY_SIZE
     \<and> length (ch_nonce h) = HANDSHAKE_NONCE_SIZE \<and> length (ch_signature h) = ED25519_SIGNATURE_SIZE"

definition server_hello_wf :: "server_hello \<Rightarrow> bool" where
  "server_hello_wf h \<longleftrightarrow>
     length (sh_identity_public_key h) = ED25519_PUBLIC_KEY_SIZE
     \<and> length (sh_ephemeral_public_key h) = X25519_PUBLIC_KEY_SIZE
     \<and> length (sh_nonce h) = HANDSHAKE_NONCE_SIZE \<and> length (sh_signature h) = ED25519_SIGNATURE_SIZE"

text \<open>A complete decoding is the split of the frame into its four fields.\<close>

lemma hello_fields:
  assumes "length data = HELLO_SIZE"
  shows "try_result (take_array ED25519_PUBLIC_KEY_SIZE data HELLO_HEADER_SIZE) (\<lambda>(identity, offset).
        try_result (take_array X25519_PUBLIC_KEY_SIZE data offset) (\<lambda>(ephemeral, offset).
        try_result (take_array HANDSHAKE_NONCE_SIZE data offset) (\<lambda>(nonce, offset).
        try_result (take_array ED25519_SIGNATURE_SIZE data offset) (\<lambda>(signature, offset).
        f identity ephemeral nonce signature))))
    = f (take 32 (drop 2 data)) (take 32 (drop 34 data)) (take 32 (drop 66 data)) (take 64 (drop 98 data))"
  using assms by (simp add: size_defs usize_limit_def flip: numeral_2_eq_2)

lemma decode_client_hello_eq:
  "decode_client_hello data =
     (if length data \<noteq> HELLO_SIZE then Inl (err_client_size (length data))
      else if data ! 0 \<noteq> CLIENT_HELLO then Inl err_client_type
      else if data ! 1 \<noteq> VERSION then Inl (err_client_version (data ! 1))
      else Inr \<lparr>ch_ephemeral_public_key = take 32 (drop 34 data), ch_identity_public_key = take 32 (drop 2 data),
        ch_nonce = take 32 (drop 66 data), ch_signature = take 64 (drop 98 data)\<rparr>)"
  by (cases "length data = HELLO_SIZE") (simp_all add: decode_client_hello_def hello_fields)

lemma decode_server_hello_eq:
  "decode_server_hello data =
     (if length data \<noteq> HELLO_SIZE then Inl (err_server_size (length data))
      else if data ! 0 \<noteq> SERVER_HELLO then Inl err_server_type
      else if data ! 1 \<noteq> VERSION then Inl (err_server_version (data ! 1))
      else Inr \<lparr>sh_ephemeral_public_key = take 32 (drop 34 data), sh_identity_public_key = take 32 (drop 2 data),
        sh_nonce = take 32 (drop 66 data), sh_signature = take 64 (drop 98 data)\<rparr>)"
  by (cases "length data = HELLO_SIZE") (simp_all add: decode_server_hello_def hello_fields)

lemma hello_split:
  assumes "length data = HELLO_SIZE"
  shows "data = [data ! 0] @ [data ! 1] @ take 32 (drop 2 data) @ take 32 (drop 34 data)
    @ take 32 (drop 66 data) @ take 64 (drop 98 data)"
proof -
  from assms obtain a b r where data: "data = a # b # r" and r: "length r = 160"
    by (auto simp: size_defs numeral_eq_Suc length_Suc_conv)
  have "r = take 32 r @ drop 32 r" "drop 32 r = take 32 (drop 32 r) @ drop 64 r"
    "drop 64 r = take 32 (drop 64 r) @ drop 96 r" "drop 96 r = take 64 (drop 96 r)"
    using r append_take_drop_id [of 32 "drop 32 r"] append_take_drop_id [of 32 "drop 64 r"] by simp_all
  then have "r = take 32 r @ take 32 (drop 32 r) @ take 32 (drop 64 r) @ take 64 (drop 96 r)"
    by metis
  then show ?thesis by (simp add: data drop_Cons')
qed

locale codec =
  fixes encode :: "'h \<Rightarrow> bytes"
    and decode :: "bytes \<Rightarrow> anyhow + 'h"
    and wf :: "'h \<Rightarrow> bool"
  assumes decode_encode: "wf h \<Longrightarrow> decode (encode h) = Inr h"
    and encode_decode: "decode bs = Inr h \<Longrightarrow> wf h \<and> encode h = bs"
begin

lemma encode_inj: "wf h \<Longrightarrow> wf h' \<Longrightarrow> encode h = encode h' \<Longrightarrow> h = h'"
  using decode_encode by (metis sum.inject(2))

lemma decode_inj: "decode bs = Inr h \<Longrightarrow> decode bs' = Inr h \<Longrightarrow> bs = bs'"
  using encode_decode by metis

lemma decode_iff: "decode bs = Inr h \<longleftrightarrow> wf h \<and> bs = encode h"
  using decode_encode encode_decode by metis

end

interpretation client_codec: codec encode_client_hello decode_client_hello client_hello_wf
proof unfold_locales
  fix h assume "client_hello_wf h"
  then show "decode_client_hello (encode_client_hello h) = Inr h"
    by (simp add: decode_client_hello_eq encode_client_hello_def client_hello_wf_def size_defs drop_Cons')
next
  fix bs h assume d: "decode_client_hello bs = Inr h"
  then have len: "length bs = HELLO_SIZE" and ty: "bs ! 0 = CLIENT_HELLO" "bs ! 1 = VERSION"
    by (auto simp: decode_client_hello_eq split: if_splits)
  with d have "h = \<lparr>ch_ephemeral_public_key = take 32 (drop 34 bs), ch_identity_public_key = take 32 (drop 2 bs),
      ch_nonce = take 32 (drop 66 bs), ch_signature = take 64 (drop 98 bs)\<rparr>"
    by (simp add: decode_client_hello_eq)
  with hello_split [OF len] len ty show "client_hello_wf h \<and> encode_client_hello h = bs"
    by (simp add: client_hello_wf_def encode_client_hello_def size_defs)
qed

interpretation server_codec: codec encode_server_hello decode_server_hello server_hello_wf
proof unfold_locales
  fix h assume "server_hello_wf h"
  then show "decode_server_hello (encode_server_hello h) = Inr h"
    by (simp add: decode_server_hello_eq encode_server_hello_def server_hello_wf_def size_defs drop_Cons')
next
  fix bs h assume d: "decode_server_hello bs = Inr h"
  then have len: "length bs = HELLO_SIZE" and ty: "bs ! 0 = SERVER_HELLO" "bs ! 1 = VERSION"
    by (auto simp: decode_server_hello_eq split: if_splits)
  with d have "h = \<lparr>sh_ephemeral_public_key = take 32 (drop 34 bs), sh_identity_public_key = take 32 (drop 2 bs),
      sh_nonce = take 32 (drop 66 bs), sh_signature = take 64 (drop 98 bs)\<rparr>"
    by (simp add: decode_server_hello_eq)
  with hello_split [OF len] len ty show "server_hello_wf h \<and> encode_server_hello h = bs"
    by (simp add: server_hello_wf_def encode_server_hello_def size_defs)
qed

section \<open>Signed messages and the transcript\<close>

definition client_signature_message :: "bytes \<Rightarrow> bytes \<Rightarrow> bytes \<Rightarrow> bytes \<Rightarrow> bytes" where
  "client_signature_message client_ephemeral client_identity client_nonce server_identity =
     MAGIC @ ascii ''/client-auth/'' @ [VERSION] @ client_identity @ server_identity @ client_ephemeral
     @ client_nonce"

definition server_signature_message ::
  "bytes \<Rightarrow> bytes \<Rightarrow> bytes \<Rightarrow> bytes \<Rightarrow> bytes \<Rightarrow> bytes \<Rightarrow> bytes" where
  "server_signature_message client_ephemeral client_identity client_nonce
       server_ephemeral server_identity server_nonce =
     MAGIC @ ascii ''/server-auth/'' @ [VERSION] @ client_identity @ server_identity @ client_ephemeral
     @ server_ephemeral @ client_nonce @ server_nonce"

text \<open>What \<open>handshake_transcript_hash\<close> feeds to the hash.\<close>

definition handshake_transcript ::
  "bytes \<Rightarrow> bytes \<Rightarrow> bytes \<Rightarrow> bytes \<Rightarrow> bytes \<Rightarrow> bytes \<Rightarrow> bytes" where
  "handshake_transcript client_ephemeral client_identity client_nonce
       server_ephemeral server_identity server_nonce =
     MAGIC @ ascii ''/transcript/'' @ [VERSION] @ client_identity @ server_identity @ client_ephemeral
     @ server_ephemeral @ client_nonce @ server_nonce"

definition handshake_transcript_hash ::
  "(bytes \<Rightarrow> bytes) \<Rightarrow> bytes \<Rightarrow> bytes \<Rightarrow> bytes \<Rightarrow> bytes \<Rightarrow> bytes \<Rightarrow> bytes \<Rightarrow> bytes" where
  "handshake_transcript_hash sha256 client_ephemeral client_identity client_nonce
       server_ephemeral server_identity server_nonce =
     sha256 (handshake_transcript client_ephemeral client_identity client_nonce
       server_ephemeral server_identity server_nonce)"

text \<open>The fixed-size fields of the handshake, client side and server side.\<close>

definition client_fields_wf :: "bytes \<Rightarrow> bytes \<Rightarrow> bytes \<Rightarrow> bool" where
  "client_fields_wf ephemeral identity nonce \<longleftrightarrow>
     length ephemeral = X25519_PUBLIC_KEY_SIZE \<and> length identity = ED25519_PUBLIC_KEY_SIZE
     \<and> length nonce = HANDSHAKE_NONCE_SIZE"

lemma client_message_inj:
  assumes "client_fields_wf e i n" "client_fields_wf e' i' n'" "length s = length s'"
    and "client_signature_message e i n s = client_signature_message e' i' n' s'"
  shows "e = e' \<and> i = i' \<and> n = n' \<and> s = s'"
  using assms by (simp add: client_signature_message_def client_fields_wf_def)

lemma server_message_inj:
  assumes "client_fields_wf e i n" "client_fields_wf e' i' n'" "client_fields_wf f j m" "client_fields_wf f' j' m'"
    and "server_signature_message e i n f j m = server_signature_message e' i' n' f' j' m'"
  shows "e = e' \<and> i = i' \<and> n = n' \<and> f = f' \<and> j = j' \<and> m = m'"
  using assms by (simp add: server_signature_message_def client_fields_wf_def)

lemma transcript_inj:
  assumes "client_fields_wf e i n" "client_fields_wf e' i' n'" "client_fields_wf f j m" "client_fields_wf f' j' m'"
    and "handshake_transcript e i n f j m = handshake_transcript e' i' n' f' j' m'"
  shows "e = e' \<and> i = i' \<and> n = n' \<and> f = f' \<and> j = j' \<and> m = m'"
  using assms by (simp add: handshake_transcript_def client_fields_wf_def)

lemma signature_domains:
  "client_signature_message e i n s \<noteq> server_signature_message e' i' n' f' j' m'"
  "client_signature_message e i n s \<noteq> handshake_transcript e' i' n' f' j' m'"
  "server_signature_message e i n f j m \<noteq> handshake_transcript e' i' n' f' j' m'"
  by (simp_all add: client_signature_message_def server_signature_message_def handshake_transcript_def
      MAGIC_def ascii_def)

section \<open>Associated data, nonces and key material\<close>

definition make_aad :: "byte \<Rightarrow> bytes \<Rightarrow> bytes \<Rightarrow> bytes" where
  "make_aad direction sequence_bytes transcript_hash =
     MAGIC @ [VERSION] @ [direction] @ sequence_bytes @ transcript_hash"

text \<open>Two \<open>copy_from_slice\<close> into a zeroed array; the array types make both copies exact.\<close>

definition make_nonce :: "bytes \<Rightarrow> bytes \<Rightarrow> bytes" where
  "make_nonce nonce_prefix sequence_bytes =
     (let nonce = replicate AEAD_NONCE_SIZE 0;
          nonce = nonce_prefix @ drop NONCE_PREFIX_SIZE nonce;
          nonce = take NONCE_PREFIX_SIZE nonce @ sequence_bytes in
      nonce)"

lemma make_nonce_eq:
  "length p = NONCE_PREFIX_SIZE \<Longrightarrow> make_nonce p s = p @ s"
  by (simp add: make_nonce_def Let_def)

lemma make_nonce_inj:
  "length p = NONCE_PREFIX_SIZE \<Longrightarrow> make_nonce p s = make_nonce p s' \<Longrightarrow> s = s'"
  by (simp add: make_nonce_eq)

lemma make_aad_inj:
  "length s = length s' \<Longrightarrow> make_aad d s h = make_aad d' s' h' \<Longrightarrow> d = d' \<and> s = s' \<and> h = h'"
  by (simp add: make_aad_def)

record key_material =
  client_to_server_key :: bytes
  client_to_server_nonce_prefix :: bytes
  server_to_client_key :: bytes
  server_to_client_nonce_prefix :: bytes

definition err_hkdf :: anyhow where "err_hkdf = Message ''HKDF expansion failed''"

definition session_keys_info :: bytes where
  "session_keys_info = ascii ''taunicorn-e2ee-v2/session-keys''"

text \<open>\<open>hkdf salt secret info n\<close> is HKDF-SHA256: extract with the salt, expand to \<open>n\<close> bytes.\<close>

definition derive_key_material ::
  "(bytes \<Rightarrow> bytes \<Rightarrow> bytes \<Rightarrow> usize \<Rightarrow> bytes option) \<Rightarrow> bytes \<Rightarrow> bytes \<Rightarrow> anyhow + key_material" where
  "derive_key_material hkdf shared_secret transcript_hash =
     (case hkdf transcript_hash shared_secret session_keys_info HKDF_OUTPUT_SIZE of
        None \<Rightarrow> Inl err_hkdf
      | Some output \<Rightarrow>
          try_result (take_array AEAD_KEY_SIZE output 0) (\<lambda>(c2s_key, offset).
          try_result (take_array AEAD_KEY_SIZE output offset) (\<lambda>(s2c_key, offset).
          try_result (take_array NONCE_PREFIX_SIZE output offset) (\<lambda>(c2s_prefix, offset).
          try_result (take_array NONCE_PREFIX_SIZE output offset) (\<lambda>(s2c_prefix, offset).
          Inr \<lparr>client_to_server_key = c2s_key, client_to_server_nonce_prefix = c2s_prefix,
                server_to_client_key = s2c_key, server_to_client_nonce_prefix = s2c_prefix\<rparr>)))))"

lemma derive_key_material_eq:
  assumes "hkdf hash secret session_keys_info HKDF_OUTPUT_SIZE = Some output"
    and "length output = HKDF_OUTPUT_SIZE"
  shows "derive_key_material hkdf secret hash =
    Inr \<lparr>client_to_server_key = take 32 output, client_to_server_nonce_prefix = take 4 (drop 64 output),
      server_to_client_key = take 32 (drop 32 output), server_to_client_nonce_prefix = take 4 (drop 68 output)\<rparr>"
  using assms by (simp add: derive_key_material_def size_defs usize_limit_def)

text \<open>The derived values are exactly the output, cut without overlap or gap.\<close>

definition key_material_wf :: "key_material \<Rightarrow> bool" where
  "key_material_wf k \<longleftrightarrow>
     length (client_to_server_key k) = AEAD_KEY_SIZE \<and> length (server_to_client_key k) = AEAD_KEY_SIZE
     \<and> length (client_to_server_nonce_prefix k) = NONCE_PREFIX_SIZE
     \<and> length (server_to_client_nonce_prefix k) = NONCE_PREFIX_SIZE"

lemma derive_key_material_Inr:
  assumes "derive_key_material hkdf secret hash = Inr k"
    and "\<And>out. hkdf hash secret session_keys_info HKDF_OUTPUT_SIZE = Some out \<Longrightarrow> length out = HKDF_OUTPUT_SIZE"
  shows "key_material_wf k \<and> hkdf hash secret session_keys_info HKDF_OUTPUT_SIZE
     = Some (client_to_server_key k @ server_to_client_key k @ client_to_server_nonce_prefix k
         @ server_to_client_nonce_prefix k)"
proof -
  from assms(1) obtain out where out: "hkdf hash secret session_keys_info HKDF_OUTPUT_SIZE = Some out"
    by (auto simp: derive_key_material_def split: option.splits)
  from assms(2) [OF out] have len: "length out = 72" by (simp add: size_defs)
  have "out = take 32 out @ drop 32 out" "drop 32 out = take 32 (drop 32 out) @ drop 64 out"
    "drop 64 out = take 4 (drop 64 out) @ take 4 (drop 68 out)"
    using len append_take_drop_id [of 32 "drop 32 out"] append_take_drop_id [of 4 "drop 64 out"] by simp_all
  then have "out = take 32 out @ take 32 (drop 32 out) @ take 4 (drop 64 out) @ take 4 (drop 68 out)" by metis
  with derive_key_material_eq [where hkdf = hkdf, OF out assms(2) [OF out]] assms(1) out len show ?thesis
    by (auto simp: key_material_wf_def size_defs)
qed

end
