(* ===== verification/Crypto.thy ===== *)
theory Crypto
  imports Hello_Codec
begin

text \<open>
  The cryptographic libraries that \<open>crates/taunicorn/src/security.rs\<close> calls (\<open>ed25519-dalek\<close>,
  \<open>x25519-dalek\<close>, \<open>sha2\<close>, \<open>hkdf\<close>, \<open>chacha20poly1305\<close>) are not part of the sources: they are one
  record of functions, an argument of every definition that uses them. What the code relies on is the
  predicate \<open>crypto_ok\<close>, the documented behaviour of those functions (sizes, signatures verify,
  both sides compute the same Diffie-Hellman secret, decryption inverts encryption and accepts
  nothing else). It says nothing about secrecy. \<open>toy\<close> is a concrete record that satisfies it.
\<close>

record crypto =
  identity_public :: "bytes \<Rightarrow> bytes"
  identity_sign :: "bytes \<Rightarrow> bytes \<Rightarrow> bytes"
  verifying_key_from_bytes :: "bytes \<Rightarrow> string + bytes"
  signature_from_slice :: "bytes \<Rightarrow> bytes option"
  verify :: "bytes \<Rightarrow> bytes \<Rightarrow> bytes \<Rightarrow> bool"
  ephemeral_public :: "bytes \<Rightarrow> bytes"
  diffie_hellman :: "bytes \<Rightarrow> bytes \<Rightarrow> bytes"
  was_contributory :: "bytes \<Rightarrow> bool"
  sha256 :: "bytes \<Rightarrow> bytes"
  hkdf_sha256 :: "bytes \<Rightarrow> bytes \<Rightarrow> bytes \<Rightarrow> usize \<Rightarrow> bytes option"
  cipher_key_ok :: "bytes \<Rightarrow> bool"
  aead_encrypt :: "bytes \<Rightarrow> bytes \<Rightarrow> bytes \<Rightarrow> bytes \<Rightarrow> bytes option"
  aead_decrypt :: "bytes \<Rightarrow> bytes \<Rightarrow> bytes \<Rightarrow> bytes \<Rightarrow> bytes option"

text \<open>The AEAD alone: what the message layer relies on.\<close>

definition aead_ok :: "crypto \<Rightarrow> bool" where
  "aead_ok cr \<longleftrightarrow>
     (\<forall>k n a p c. aead_encrypt cr k n a p = Some c
        \<longrightarrow> aead_decrypt cr k n a c = Some p \<and> length c = length p + AEAD_TAG_SIZE)
     \<and> (\<forall>k n a p c. aead_decrypt cr k n a c = Some p \<longrightarrow> aead_encrypt cr k n a p = Some c)"

lemma aead_encrypts:
  "aead_ok cr \<Longrightarrow> aead_encrypt cr k n a p = Some c
    \<Longrightarrow> aead_decrypt cr k n a c = Some p \<and> length c = length p + 16"
  unfolding aead_ok_def AEAD_TAG_SIZE_def by blast

lemma aead_decrypts:
  "aead_ok cr \<Longrightarrow> aead_decrypt cr k n a c = Some p \<Longrightarrow> aead_encrypt cr k n a p = Some c"
  unfolding aead_ok_def by blast

text \<open>\<open>encrypt\<close> fails only for messages far above the frame limit.\<close>

definition aead_total :: "crypto \<Rightarrow> bool" where
  "aead_total cr \<longleftrightarrow>
     (\<forall>k n a p. length k = AEAD_KEY_SIZE \<longrightarrow> length n = AEAD_NONCE_SIZE \<longrightarrow> length p \<le> 2 ^ 32
        \<longrightarrow> (\<exists>c. aead_encrypt cr k n a p = Some c))"

definition sizes_ok :: "crypto \<Rightarrow> bool" where
  "sizes_ok cr \<longleftrightarrow>
     (\<forall>k. length (identity_public cr k) = ED25519_PUBLIC_KEY_SIZE)
     \<and> (\<forall>k m. length (identity_sign cr k m) = ED25519_SIGNATURE_SIZE)
     \<and> (\<forall>k. length (ephemeral_public cr k) = X25519_PUBLIC_KEY_SIZE)
     \<and> (\<forall>m. length (sha256 cr m) = TRANSCRIPT_HASH_SIZE)
     \<and> (\<forall>s x i n out. hkdf_sha256 cr s x i n = Some out \<longrightarrow> length out = n)"

definition handshake_ok :: "crypto \<Rightarrow> bool" where
  "handshake_ok cr \<longleftrightarrow>
     (\<forall>k m. \<exists>vk sig. verifying_key_from_bytes cr (identity_public cr k) = Inr vk
        \<and> signature_from_slice cr (identity_sign cr k m) = Some sig \<and> verify cr vk m sig)
     \<and> (\<forall>a b. diffie_hellman cr a (ephemeral_public cr b) = diffie_hellman cr b (ephemeral_public cr a))
     \<and> (\<forall>s x i. \<exists>out. hkdf_sha256 cr s x i HKDF_OUTPUT_SIZE = Some out)
     \<and> (\<forall>k. length k = AEAD_KEY_SIZE \<longrightarrow> cipher_key_ok cr k)"

definition crypto_ok :: "crypto \<Rightarrow> bool" where
  "crypto_ok cr \<longleftrightarrow> aead_ok cr \<and> aead_total cr \<and> sizes_ok cr \<and> handshake_ok cr"

section \<open>A concrete instance\<close>

definition pad :: "nat \<Rightarrow> bytes \<Rightarrow> bytes" where
  "pad n bs = take n (bs @ replicate n 0)"

lemma length_pad [simp]: "length (pad n bs) = n"
  by (simp add: pad_def)

definition toy_tag :: "bytes \<Rightarrow> bytes \<Rightarrow> bytes \<Rightarrow> bytes \<Rightarrow> bytes" where
  "toy_tag k n a p = pad AEAD_TAG_SIZE (drop 4 n @ [sum_list k, sum_list a, sum_list p])"

definition toy :: crypto where
  "toy = \<lparr>identity_public = pad 32, identity_sign = (\<lambda>k m. pad 32 k @ pad 32 (rev m)),
     verifying_key_from_bytes = (\<lambda>pk. if length pk = 32 then Inr pk else Inl ''length''),
     signature_from_slice = (\<lambda>s. if length s = 64 then Some s else None),
     verify = (\<lambda>vk m s. s = vk @ pad 32 (rev m)),
     ephemeral_public = pad 32, diffie_hellman = (\<lambda>a b. map2 (+) (pad 32 a) (pad 32 b)),
     was_contributory = (\<lambda>s. s \<noteq> replicate 32 0),
     sha256 = pad 32, hkdf_sha256 = (\<lambda>s x i n. Some (pad n (x @ map ((+) 1) x @ x))),
     cipher_key_ok = (\<lambda>k. length k = 32),
     aead_encrypt = (\<lambda>k n a p. Some (p @ toy_tag k n a p)),
     aead_decrypt = (\<lambda>k n a c. if 16 \<le> length c
        \<and> drop (length c - 16) c = toy_tag k n a (take (length c - 16) c)
       then Some (take (length c - 16) c) else None)\<rparr>"

lemma length_toy_tag [simp]: "length (toy_tag k n a p) = 16"
  by (simp add: toy_tag_def AEAD_TAG_SIZE_def)

lemma toy_aead: "aead_ok toy" "aead_total toy"
proof -
  have "take (length c - 16) c @ toy_tag k n a (take (length c - 16) c) = c"
    if "drop (length c - 16) c = toy_tag k n a (take (length c - 16) c)" for k n a c
    using append_take_drop_id [of "length c - 16" c] that by simp
  then show "aead_ok toy" by (simp add: aead_ok_def toy_def AEAD_TAG_SIZE_def)
  show "aead_total toy" by (simp add: aead_total_def toy_def)
qed

lemma pad_pad [simp]: "pad n (pad n bs) = pad n bs"
  by (simp add: pad_def)

lemma map2_add_commute: "map2 (+) xs ys = map2 (+) ys (xs :: bytes)"
  by (induction xs ys rule: list_induct2') (simp_all add: add.commute)

lemma toy_crypto_ok: "crypto_ok toy"
proof -
  have "sizes_ok toy" by (simp add: sizes_ok_def toy_def size_defs)
  moreover have "handshake_ok toy"
    by (auto simp: handshake_ok_def toy_def size_defs map2_add_commute)
  ultimately show ?thesis using toy_aead by (simp add: crypto_ok_def)
qed

end
