(* ===== verification/Streams.thy ===== *)
theory Streams
  imports Conn_Ops
begin

text \<open>
  The interface between the transport and the layers on top of it: an ordered byte stream that is
  read in chunks of any size and written completely or not at all acknowledged. \<open>incoming\<close> is what
  the peer has sent and nobody has read yet, \<open>sent\<close> what the stream has accepted; the laws say that
  both are used in order and that neither direction disturbs the other. The live variants add that
  a call returns when the stream still has progress to make (\<open>fuel\<close> counts it).
  \<open>Framing\<close> is the client; \<open>Conn_Seq\<close> interprets the locales on the connection.
\<close>

locale byte_reader =
  fixes recv :: "bytes \<Rightarrow> (receive_result \<times> bytes, 'w) async"
    and incoming :: "'w \<Rightarrow> bytes"
    and sent :: "'w \<Rightarrow> bytes"
    and inv :: "'w \<Rightarrow> bool"
  assumes recv_data:
    "inv w \<Longrightarrow> buffer \<noteq> [] \<Longrightarrow> recv buffer w = (Ret (Data n, buffer'), w') \<Longrightarrow>
       0 < n \<and> n \<le> length buffer \<and> n \<le> length (incoming w)
       \<and> buffer' = take n (incoming w) @ drop n buffer
       \<and> incoming w' = drop n (incoming w) \<and> sent w' = sent w \<and> inv w'"
    and recv_eof:
    "inv w \<Longrightarrow> buffer \<noteq> [] \<Longrightarrow> recv buffer w = (Ret (EndOfStream, buffer'), w') \<Longrightarrow> incoming w = []"
    and recv_sent: "recv buffer w = (r, w') \<Longrightarrow> sent w' = sent w"

locale byte_writer =
  fixes send :: "bytes \<Rightarrow> (unit, 'w) async"
    and incoming :: "'w \<Rightarrow> bytes"
    and sent :: "'w \<Rightarrow> bytes"
    and inv :: "'w \<Rightarrow> bool"
  assumes send_all:
    "inv w \<Longrightarrow> send data w = (Ret u, w') \<Longrightarrow>
       sent w' = sent w @ data \<and> incoming w' = incoming w \<and> inv w'"
    and send_prefix: "send data w = (r, w') \<Longrightarrow> \<exists>k. sent w' = sent w @ take k data"

locale live_reader = byte_reader +
  fixes live :: "'a \<Rightarrow> bool"
    and fuel :: "'a \<Rightarrow> nat"
  assumes live_inv: "live w \<Longrightarrow> inv w"
    and recv_live:
    "live w \<Longrightarrow> buffer \<noteq> [] \<Longrightarrow> incoming w \<noteq> [] \<Longrightarrow> 0 < fuel w \<Longrightarrow>
       \<exists>n buffer' w'. recv buffer w = (Ret (Data n, buffer'), w') \<and> live w' \<and> fuel w \<le> fuel w' + n"

locale live_writer = byte_writer +
  fixes live :: "'a \<Rightarrow> bool"
    and fuel :: "'a \<Rightarrow> nat"
  assumes live_writer_inv: "live w \<Longrightarrow> inv w"
    and send_live:
    "live w \<Longrightarrow> length data \<le> fuel w \<Longrightarrow>
       \<exists>w'. send data w = (Ret (), w') \<and> live w' \<and> fuel w \<le> fuel w' + length data"

text \<open>Both directions of one connection.\<close>

locale byte_stream = byte_reader recv incoming sent inv + byte_writer send incoming sent inv
  for recv :: "bytes \<Rightarrow> (receive_result \<times> bytes, 'w) async"
    and send :: "bytes \<Rightarrow> (unit, 'w) async"
    and incoming :: "'w \<Rightarrow> bytes"
    and sent :: "'w \<Rightarrow> bytes"
    and inv :: "'w \<Rightarrow> bool"

locale live_stream = live_reader recv incoming sent inv live fuel + live_writer send incoming sent inv live fuel
  for recv :: "bytes \<Rightarrow> (receive_result \<times> bytes, 'w) async"
    and send :: "bytes \<Rightarrow> (unit, 'w) async"
    and incoming :: "'w \<Rightarrow> bytes"
    and sent :: "'w \<Rightarrow> bytes"
    and inv :: "'w \<Rightarrow> bool"
    and live :: "'w \<Rightarrow> bool"
    and fuel :: "'w \<Rightarrow> nat"

sublocale live_stream \<subseteq> byte_stream recv send incoming sent inv
  by unfold_locales

end
