(* ===== verification/Framing.thy ===== *)
theory Framing
  imports Streams
begin

text \<open>
  The framing helpers of \<open>crates/taunicorn/src/security.rs\<close>: \<open>read_exact\<close>, \<open>read_frame\<close> and
  \<open>write_frame\<close>, over whatever receive and send the connection provides. Their correctness is
  proved once, in the stream locales: a frame that was written is read back exactly, however
  the stream cuts it into chunks.
\<close>

definition FRAME_LENGTH_SIZE :: nat where "FRAME_LENGTH_SIZE = 4"

definition MAX_FRAME_SIZE :: nat where "MAX_FRAME_SIZE = 64 * 1024 * 1024"

definition err_zero_read :: anyhow where
  "err_zero_read = Message ''zero-length transport read while awaiting frame data''"

definition err_offset_overflow :: anyhow where
  "err_offset_overflow = Message ''transport receive offset overflow''"

definition err_frame_eof :: anyhow where
  "err_frame_eof = Message ''connection closed while reading a frame''"

definition err_frame_header :: anyhow where
  "err_frame_header = Message ''invalid frame-length header''"

definition err_frame_empty :: anyhow where
  "err_frame_empty = Message ''zero-length frame is invalid''"

definition err_frame_large :: "usize \<Rightarrow> anyhow" where
  "err_frame_large sz =
     Message (''frame exceeds maximum size: '' @ decimal sz @ '' > '' @ decimal MAX_FRAME_SIZE)"

definition err_frame_u32 :: anyhow where
  "err_frame_u32 = Message ''frame length does not fit into u32''"

text \<open>The loop of \<open>read_exact\<close>: every round moves the offset, so it ends.\<close>

function read_exact_loop ::
  "(bytes \<Rightarrow> (receive_result \<times> bytes, 'w) async) \<Rightarrow> usize \<Rightarrow> usize \<Rightarrow> bytes \<Rightarrow> (bytes, 'w) async"
where
  "read_exact_loop recv sz offset result w =
     (if offset < sz then
        (case recv (drop offset result) w of
           (Ret (Data n, buffer), w') \<Rightarrow>
             if n = 0 then (Fail err_zero_read, w')
             else (case usize_checked_add offset n of
                     None \<Rightarrow> (Fail err_offset_overflow, w')
                   | Some offset' \<Rightarrow>
                       read_exact_loop recv sz offset' (take offset result @ buffer) w')
         | (Ret (EndOfStream, buffer), w') \<Rightarrow> (Fail err_frame_eof, w')
         | (Fail e, w') \<Rightarrow> (Fail e, w')
         | (Pending, w') \<Rightarrow> (Pending, w'))
      else (Ret result, w))"
  by pat_completeness auto
termination
  by (relation "measure (\<lambda>(recv, sz, offset, result, w). sz - offset)") auto

declare read_exact_loop.simps [simp del]

lemma read_exact_loop_done: "sz \<le> offset \<Longrightarrow> read_exact_loop recv sz offset result w = (Ret result, w)"
  by (simp add: read_exact_loop.simps [of recv sz offset])

definition read_exact ::
  "(bytes \<Rightarrow> (receive_result \<times> bytes, 'w) async) \<Rightarrow> usize \<Rightarrow> (bytes, 'w) async" where
  "read_exact recv sz = read_exact_loop recv sz 0 (replicate sz 0)"

definition read_frame :: "(bytes \<Rightarrow> (receive_result \<times> bytes, 'w) async) \<Rightarrow> (bytes, 'w) async" where
  "read_frame recv =
     and_then (read_exact recv FRAME_LENGTH_SIZE) (\<lambda>header.
       if length header \<noteq> FRAME_LENGTH_SIZE then async_fail err_frame_header
       else
         (let sz = be_value header in
          if sz = 0 then async_fail err_frame_empty
          else if sz > MAX_FRAME_SIZE then async_fail (err_frame_large sz)
          else read_exact recv sz))"

definition write_frame :: "(bytes \<Rightarrow> (unit, 'w) async) \<Rightarrow> bytes \<Rightarrow> (unit, 'w) async" where
  "write_frame send payload =
     (if payload = [] then async_fail err_frame_empty
      else if length payload > MAX_FRAME_SIZE then async_fail (err_frame_large (length payload))
      else if length payload \<ge> 2 ^ 32 then async_fail err_frame_u32
      else send (be_bytes FRAME_LENGTH_SIZE (length payload) @ payload))"

section \<open>Frames as byte strings\<close>

definition frame_ok :: "bytes \<Rightarrow> bool" where
  "frame_ok payload \<longleftrightarrow> payload \<noteq> [] \<and> length payload \<le> MAX_FRAME_SIZE"

definition frame_bytes :: "bytes \<Rightarrow> bytes" where
  "frame_bytes payload = be_bytes FRAME_LENGTH_SIZE (length payload) @ payload"

text \<open>The abstract reader of one frame: the payload and what follows it.\<close>

definition parse_frame :: "bytes \<Rightarrow> (bytes \<times> bytes) option" where
  "parse_frame bs =
     (if length bs < FRAME_LENGTH_SIZE then None
      else
        (let sz = be_value (take FRAME_LENGTH_SIZE bs); rest = drop FRAME_LENGTH_SIZE bs in
         if sz = 0 \<or> sz > MAX_FRAME_SIZE \<or> length rest < sz then None
         else Some (take sz rest, drop sz rest)))"

lemma length_frame_bytes [simp, wire_simps]: "length (frame_bytes p) = FRAME_LENGTH_SIZE + length p"
  by (simp add: frame_bytes_def)

lemma frame_ok_size: "frame_ok p \<Longrightarrow> be_value (be_bytes FRAME_LENGTH_SIZE (length p)) = length p"
  by (simp add: frame_ok_def be_value_bytes FRAME_LENGTH_SIZE_def MAX_FRAME_SIZE_def)

lemma parse_frame_bytes: "frame_ok p \<Longrightarrow> parse_frame (frame_bytes p @ rest) = Some (p, rest)"
  using frame_ok_size [of p]
  by (auto simp: parse_frame_def frame_bytes_def frame_ok_def)

lemma parse_frame_Some:
  assumes "parse_frame bs = Some (p, rest)"
  shows "frame_ok p \<and> bs = frame_bytes p @ rest"
proof -
  let ?n = FRAME_LENGTH_SIZE
  from assms have len: "?n \<le> length bs" and sz: "be_value (take ?n bs) \<noteq> 0"
      "be_value (take ?n bs) \<le> MAX_FRAME_SIZE" "be_value (take ?n bs) \<le> length (drop ?n bs)"
    and p: "p = take (be_value (take ?n bs)) (drop ?n bs)"
    and rest: "rest = drop (be_value (take ?n bs)) (drop ?n bs)"
    by (auto simp: parse_frame_def Let_def split: if_splits)
  from p sz have lp: "length p = be_value (take ?n bs)" by simp
  with len have "be_bytes ?n (length p) = take ?n bs"
    using be_bytes_value [of "take ?n bs"] by simp
  moreover have "bs = take ?n bs @ p @ rest"
    using p rest by (metis append_take_drop_id)
  ultimately show ?thesis
    using lp sz by (auto simp: frame_ok_def frame_bytes_def)
qed

lemma write_frame_ok: "frame_ok p \<Longrightarrow> write_frame send p w = send (frame_bytes p) w"
  by (simp add: write_frame_def frame_ok_def frame_bytes_def MAX_FRAME_SIZE_def)

lemma write_frame_not_ok:
  "\<not> frame_ok p \<Longrightarrow> \<exists>e. write_frame send p w = (Fail e, w)"
  by (auto simp: write_frame_def frame_ok_def)

section \<open>Reading from any byte stream\<close>

context byte_reader
begin

lemma read_exact_loop_sound:
  assumes "inv w" and "length result = sz" and "offset \<le> sz"
    and "read_exact_loop recv sz offset result w = (Ret bs, w')"
  shows "sz - offset \<le> length (incoming w)
    \<and> bs = take offset result @ take (sz - offset) (incoming w)
    \<and> incoming w' = drop (sz - offset) (incoming w) \<and> sent w' = sent w \<and> inv w'"
  using assms
proof (induction "sz - offset" arbitrary: offset result w rule: less_induct)
  case less
  show ?case
  proof (cases "offset < sz")
    case False
    with less.prems show ?thesis by (simp add: read_exact_loop_done)
  next
    case True
    with less.prems(2) have ne: "drop offset result \<noteq> []" by auto
    from less.prems(4) True obtain n buffer v where
      r: "recv (drop offset result) w = (Ret (Data n, buffer), v)"
      and next_round: "read_exact_loop recv sz (offset + n) (take offset result @ buffer) v = (Ret bs, w')"
      by (subst (asm) read_exact_loop.simps)
        (auto split: prod.splits outcome.splits receive_result.splits if_splits option.splits)
    from recv_data [OF less.prems(1) ne r] less.prems(2)
    have n: "0 < n" "n \<le> sz - offset" "n \<le> length (incoming w)"
      and buffer: "buffer = take n (incoming w) @ drop n (drop offset result)"
      and v: "incoming v = drop n (incoming w)" "sent v = sent w" "inv v"
      by auto
    have len: "length (take offset result @ buffer) = sz"
      using n buffer less.prems(2) True by simp
    have "sz - (offset + n) < sz - offset" using n True by simp
    from less.hyps [OF this v(3) len _ next_round] n True
    have "sz - (offset + n) \<le> length (incoming v)"
      and bs: "bs = take (offset + n) (take offset result @ buffer) @ take (sz - (offset + n)) (incoming v)"
      and "incoming w' = drop (sz - (offset + n)) (incoming v)" "sent w' = sent v" "inv w'"
      by auto
    moreover have "take (offset + n) (take offset result @ buffer) = take offset result @ take n (incoming w)"
      using n buffer less.prems(2) True by simp
    moreover have "take n (incoming w) @ take (sz - (offset + n)) (incoming v) = take (sz - offset) (incoming w)"
      using n v True by (simp add: take_add [symmetric])
    ultimately show ?thesis
      using n v True by (auto simp: add.commute)
  qed
qed

lemma read_exact_sound:
  assumes "inv w" and "read_exact recv sz w = (Ret bs, w')"
  shows "sz \<le> length (incoming w) \<and> bs = take sz (incoming w)
    \<and> incoming w' = drop sz (incoming w) \<and> sent w' = sent w \<and> inv w'"
  using read_exact_loop_sound [OF assms(1), of "replicate sz 0" sz 0] assms(2)
  by (simp add: read_exact_def)

text \<open>Whatever \<open>read_frame\<close> returns is the frame the incoming bytes start with.\<close>

lemma read_frame_sound:
  assumes "inv w" and "read_frame recv w = (Ret p, w')"
  shows "frame_ok p \<and> incoming w = frame_bytes p @ incoming w' \<and> sent w' = sent w \<and> inv w'"
proof -
  from assms(2) obtain h v where h: "read_exact recv FRAME_LENGTH_SIZE w = (Ret h, v)"
    and p: "be_value h \<noteq> 0" "be_value h \<le> MAX_FRAME_SIZE" "read_exact recv (be_value h) v = (Ret p, w')"
    unfolding read_frame_def by (elim and_then_RetE) (auto simp: Let_def split: if_splits)
  from read_exact_sound [OF assms(1) h] read_exact_sound [OF _ p(3)]
  have "parse_frame (incoming w) = Some (p, incoming w')" and rest: "sent w' = sent w" "inv w'"
    using p(1,2) by (auto simp: parse_frame_def Let_def)
  with parse_frame_Some show ?thesis by blast
qed

end

context live_reader
begin

lemma read_exact_loop_live:
  assumes "live w" and "length result = sz" and "offset \<le> sz"
    and "sz - offset \<le> length (incoming w)" and "sz - offset \<le> fuel w" and "sz < usize_limit"
  shows "\<exists>bs w'. read_exact_loop recv sz offset result w = (Ret bs, w') \<and> live w'
    \<and> fuel w \<le> fuel w' + (sz - offset)"
  using assms
proof (induction "sz - offset" arbitrary: offset result w rule: less_induct)
  case less
  show ?case
  proof (cases "offset < sz")
    case False
    with less.prems show ?thesis by (simp add: read_exact_loop_done)
  next
    case True
    with less.prems have ne: "drop offset result \<noteq> []" and "incoming w \<noteq> []" and "0 < fuel w" by auto
    with recv_live less.prems(1) obtain n buffer v where
      r: "recv (drop offset result) w = (Ret (Data n, buffer), v)" and v: "live v" "fuel w \<le> fuel v + n"
      by blast
    from recv_data [OF live_inv [OF less.prems(1)] ne r] less.prems(2)
    have n: "0 < n" "n \<le> sz - offset" "n \<le> length (incoming w)"
      and buffer: "buffer = take n (incoming w) @ drop n (drop offset result)"
      and inc: "incoming v = drop n (incoming w)"
      by auto
    have eq: "read_exact_loop recv sz offset result w
        = read_exact_loop recv sz (offset + n) (take offset result @ buffer) v"
    proof -
      have "offset + n < usize_limit" using n(2) True less.prems(6) by simp
      with True r n show ?thesis by (subst read_exact_loop.simps) (simp add: usize_checked_add_def)
    qed
    have len: "length (take offset result @ buffer) = sz"
      using n buffer less.prems(2) True by simp
    have "sz - (offset + n) < sz - offset" using n True by simp
    moreover have "offset + n \<le> sz" using n True by simp
    moreover have "sz - (offset + n) \<le> length (incoming v)" using inc n less.prems(4) by simp
    moreover have "sz - (offset + n) \<le> fuel v" using v(2) less.prems(5) by simp
    ultimately obtain bs w' where
      "read_exact_loop recv sz (offset + n) (take offset result @ buffer) v = (Ret bs, w')"
      and "live w'" "fuel v \<le> fuel w' + (sz - (offset + n))"
      using less.hyps [OF _ v(1) len _ _ _ less.prems(6)] by blast
    with eq v n True show ?thesis by auto
  qed
qed

lemma read_exact_live:
  assumes "live w" and "sz \<le> length (incoming w)" and "sz \<le> fuel w" and "sz < usize_limit"
  shows "\<exists>w'. read_exact recv sz w = (Ret (take sz (incoming w)), w') \<and> live w'
    \<and> incoming w' = drop sz (incoming w) \<and> fuel w \<le> fuel w' + sz"
proof -
  from read_exact_loop_live [OF assms(1), of "replicate sz 0" sz 0] assms
  obtain bs w' where r: "read_exact recv sz w = (Ret bs, w')" and "live w'" "fuel w \<le> fuel w' + sz"
    by (auto simp: read_exact_def)
  with read_exact_sound [OF live_inv [OF assms(1)] r] show ?thesis by auto
qed

text \<open>A complete frame is read exactly, however it is cut into chunks.\<close>

lemma read_frame_live:
  assumes live: "live w" and inc: "incoming w = frame_bytes p @ rest" and ok: "frame_ok p"
    and fuel: "length (frame_bytes p) \<le> fuel w"
  shows "\<exists>w'. read_frame recv w = (Ret p, w') \<and> live w' \<and> incoming w' = rest
    \<and> sent w' = sent w \<and> fuel w \<le> fuel w' + length (frame_bytes p)"
proof -
  have small: "FRAME_LENGTH_SIZE < usize_limit" "length p < usize_limit"
    using ok by (auto simp: FRAME_LENGTH_SIZE_def usize_limit_def frame_ok_def MAX_FRAME_SIZE_def)
  from read_exact_live [OF live, of FRAME_LENGTH_SIZE] small fuel inc obtain v where
    h: "read_exact recv FRAME_LENGTH_SIZE w = (Ret (be_bytes FRAME_LENGTH_SIZE (length p)), v)"
    and v: "live v" "incoming v = p @ rest" "fuel w \<le> fuel v + FRAME_LENGTH_SIZE"
    by (auto simp: frame_bytes_def)
  from read_exact_live [OF v(1), of "length p"] small v fuel obtain w' where
    b: "read_exact recv (length p) v = (Ret p, w')"
    and w': "live w'" "incoming w' = rest" "fuel v \<le> fuel w' + length p"
    by auto
  have "read_frame recv w = (Ret p, w')"
    unfolding read_frame_def using h b ok frame_ok_size [OF ok]
    by (simp add: and_then_def frame_ok_def Let_def)
  moreover have "sent w' = sent w"
    using read_frame_sound [OF live_inv [OF live] calculation] by simp
  ultimately show ?thesis using w' v by auto
qed

end

section \<open>Writing to any byte stream\<close>

context byte_writer
begin

lemma write_frame_sound:
  assumes "inv w" and "write_frame send p w = (Ret u, w')"
  shows "frame_ok p \<and> sent w' = sent w @ frame_bytes p \<and> incoming w' = incoming w \<and> inv w'"
proof -
  from assms(2) have ok: "frame_ok p"
    using write_frame_not_ok [of p send w] by (cases "frame_ok p") auto
  with assms(2) have "send (frame_bytes p) w = (Ret u, w')" by (simp add: write_frame_ok)
  from send_all [OF assms(1) this] ok show ?thesis by simp
qed

text \<open>Even a failing write only ever puts a prefix of the one frame on the wire.\<close>

lemma write_frame_prefix:
  "write_frame send p w = (r, w') \<Longrightarrow> \<exists>k. sent w' = sent w @ take k (frame_bytes p)"
  by (cases "frame_ok p")
    (use write_frame_not_ok [of p send w] in \<open>auto simp: write_frame_ok intro: send_prefix exI [of _ 0]\<close>)

end

context live_writer
begin

lemma write_frame_live:
  assumes "live w" and "frame_ok p" and "length (frame_bytes p) \<le> fuel w"
  shows "\<exists>w'. write_frame send p w = (Ret (), w') \<and> live w' \<and> sent w' = sent w @ frame_bytes p
    \<and> incoming w' = incoming w \<and> fuel w \<le> fuel w' + length (frame_bytes p)"
proof -
  from send_live [OF assms(1,3)] obtain w' where
    s: "send (frame_bytes p) w = (Ret (), w')" "live w'" "fuel w \<le> fuel w' + length (frame_bytes p)"
    by blast
  with send_all [OF live_writer_inv [OF assms(1)] s(1)] assms(2) show ?thesis by (simp add: write_frame_ok)
qed

end

end
