(* ===== verification/Secure_Channel.thy ===== *)
theory Secure_Channel
  imports Crypto Framing
begin

text \<open>
  The encrypted message layer of \<open>SecureConnection\<close>: the state of one direction, sealing and opening
  one message, and \<open>send\<close> and \<open>receive\<close> over the frames of the connection. A session and
  the connection it owns are one state; both mutexes are held for a whole call, so calls in one
  direction are one after another. A call that does not return (a dropped future) is \<open>Pending\<close> and
  keeps the direction state it started with.
\<close>

record direction_state =
  ds_cipher :: bytes
  ds_direction :: byte
  ds_nonce_prefix :: bytes
  ds_sequence :: u64

record session =
  receive_state :: direction_state
  send_state :: direction_state
  transcript_hash :: bytes

definition err_send_exhausted :: anyhow where
  "err_send_exhausted = Message ''secure session send sequence exhausted''"

definition err_receive_exhausted :: anyhow where
  "err_receive_exhausted = Message ''secure session receive sequence exhausted''"

definition err_encrypt :: anyhow where "err_encrypt = Message ''message encryption failed''"

definition err_decrypt :: anyhow where "err_decrypt = Message ''message authentication failed''"

definition err_short :: "usize \<Rightarrow> anyhow" where
  "err_short n =
     Message (''encrypted frame is too short: expected at least '' @ decimal MIN_ENCRYPTED_FRAME_SIZE
       @ '', received '' @ decimal n)"

definition err_version :: "byte \<Rightarrow> anyhow" where
  "err_version v =
     Message (''unsupported secure protocol version: expected '' @ decimal (unat VERSION)
       @ '', received '' @ decimal (unat v))"

definition err_sequence :: "u64 \<Rightarrow> u64 \<Rightarrow> anyhow" where
  "err_sequence expected received =
     Message (''invalid message sequence: expected '' @ decimal (unat expected)
       @ '', received '' @ decimal (unat received))"

definition seq_bytes :: "u64 \<Rightarrow> bytes" where
  "seq_bytes s = be_bytes SEQUENCE_SIZE (unat s)"

definition seq_value :: "bytes \<Rightarrow> u64" where
  "seq_value bs = of_nat (be_value bs)"

text \<open>\<open>send\<close> up to the frame it writes, with the sequence number to store afterwards.\<close>

definition seal :: "crypto \<Rightarrow> bytes \<Rightarrow> direction_state \<Rightarrow> bytes \<Rightarrow> anyhow + bytes \<times> u64" where
  "seal cr hash st plaintext =
     (let sequence = ds_sequence st in
      case u64_checked_add sequence 1 of
        None \<Rightarrow> Inl err_send_exhausted
      | Some next_sequence \<Rightarrow>
          (let sequence_bytes = seq_bytes sequence;
               nonce = make_nonce (ds_nonce_prefix st) sequence_bytes;
               aad = make_aad (ds_direction st) sequence_bytes hash in
           case aead_encrypt cr (ds_cipher st) nonce aad plaintext of
             None \<Rightarrow> Inl err_encrypt
           | Some ciphertext \<Rightarrow> Inr ([VERSION] @ sequence_bytes @ ciphertext, next_sequence)))"

text \<open>\<open>receive\<close> on the frame it has read: the plaintext and the next sequence number.\<close>

definition unseal :: "crypto \<Rightarrow> bytes \<Rightarrow> direction_state \<Rightarrow> bytes \<Rightarrow> anyhow + bytes \<times> u64" where
  "unseal cr hash st frame =
     (if length frame < MIN_ENCRYPTED_FRAME_SIZE then Inl (err_short (length frame))
      else if frame ! 0 \<noteq> VERSION then Inl (err_version (frame ! 0))
      else
        (let sequence_bytes = take SEQUENCE_SIZE (drop VERSION_SIZE frame);
             received_sequence = seq_value sequence_bytes in
         if received_sequence \<noteq> ds_sequence st
         then Inl (err_sequence (ds_sequence st) received_sequence)
         else
           (let nonce = make_nonce (ds_nonce_prefix st) sequence_bytes;
                aad = make_aad (ds_direction st) sequence_bytes hash in
            case aead_decrypt cr (ds_cipher st) nonce aad (drop ENCRYPTED_FRAME_HEADER_SIZE frame) of
              None \<Rightarrow> Inl err_decrypt
            | Some plaintext \<Rightarrow>
                (case u64_checked_add (ds_sequence st) 1 of
                   None \<Rightarrow> Inl err_receive_exhausted
                 | Some next_sequence \<Rightarrow> Inr (plaintext, next_sequence)))))"

definition set_send_sequence :: "u64 \<Rightarrow> session \<Rightarrow> session" where
  "set_send_sequence n ss = ss\<lparr>send_state := (send_state ss)\<lparr>ds_sequence := n\<rparr>\<rparr>"

definition set_receive_sequence :: "u64 \<Rightarrow> session \<Rightarrow> session" where
  "set_receive_sequence n ss = ss\<lparr>receive_state := (receive_state ss)\<lparr>ds_sequence := n\<rparr>\<rparr>"

definition secure_send :: "crypto \<Rightarrow> (bytes \<Rightarrow> (unit, 'w) async) \<Rightarrow> bytes \<Rightarrow> (unit, session \<times> 'w) async" where
  "secure_send cr send plaintext = (\<lambda>(ss, w).
     case seal cr (transcript_hash ss) (send_state ss) plaintext of
       Inl e \<Rightarrow> (Fail e, (ss, w))
     | Inr (frame, next_sequence) \<Rightarrow>
         (case write_frame send frame w of
            (Ret _, w') \<Rightarrow> (Ret (), (set_send_sequence next_sequence ss, w'))
          | (Fail e, w') \<Rightarrow> (Fail e, (ss, w'))
          | (Pending, w') \<Rightarrow> (Pending, (ss, w'))))"

definition secure_receive ::
  "crypto \<Rightarrow> (bytes \<Rightarrow> (receive_result \<times> bytes, 'w) async) \<Rightarrow> (bytes, session \<times> 'w) async" where
  "secure_receive cr recv = (\<lambda>(ss, w).
     case read_frame recv w of
       (Ret frame, w') \<Rightarrow>
         (case unseal cr (transcript_hash ss) (receive_state ss) frame of
            Inl e \<Rightarrow> (Fail e, (ss, w'))
          | Inr (plaintext, next_sequence) \<Rightarrow>
              (Ret plaintext, (set_receive_sequence next_sequence ss, w')))
     | (Fail e, w') \<Rightarrow> (Fail e, (ss, w'))
     | (Pending, w') \<Rightarrow> (Pending, (ss, w')))"

text \<open>
  MessagePack and the close are wrappers: \<open>rmp_serde\<close> is the argument (its error converts to an
  opaque one), and closing a session closes the connection it owns.
\<close>

definition secure_send_msgpack ::
  "crypto \<Rightarrow> (bytes \<Rightarrow> (unit, 'w) async) \<Rightarrow> ('v \<Rightarrow> string + bytes) \<Rightarrow> 'v \<Rightarrow> (unit, session \<times> 'w) async" where
  "secure_send_msgpack cr send to_vec_named v =
     and_then (check (case to_vec_named v of Inl e \<Rightarrow> Inl (OtherError e) | Inr p \<Rightarrow> Inr p))
       (secure_send cr send)"

definition secure_receive_msgpack ::
  "crypto \<Rightarrow> (bytes \<Rightarrow> (receive_result \<times> bytes, 'w) async) \<Rightarrow> (bytes \<Rightarrow> string + 'v)
    \<Rightarrow> ('v, session \<times> 'w) async" where
  "secure_receive_msgpack cr recv from_slice =
     and_then (secure_receive cr recv) (\<lambda>plaintext.
     check (case from_slice plaintext of Inl e \<Rightarrow> Inl (OtherError e) | Inr v \<Rightarrow> Inr v))"

definition secure_close :: "(unit, 'w) async \<Rightarrow> (unit, session \<times> 'w) async" where
  "secure_close close = (\<lambda>(ss, w). case close w of (r, w') \<Rightarrow> (r, (ss, w')))"

section \<open>Sealing and opening\<close>

lemma length_seq_bytes [simp, wire_simps]: "length (seq_bytes s) = 8"
  by (simp add: seq_bytes_def SEQUENCE_SIZE_def)

lemma seq_value_bytes [simp]: "seq_value (seq_bytes s) = s"
  using unat_u64_less [of s]
  by (simp add: seq_value_def seq_bytes_def SEQUENCE_SIZE_def be_value_bytes)

lemma seq_bytes_inj: "seq_bytes s = seq_bytes t \<Longrightarrow> s = t"
  by (metis seq_value_bytes)

lemma be_value_less: "be_value bs < 256 ^ length bs"
  using be_value_bytes [of "length bs" "be_value bs"] by (metis be_bytes_value mod_less_divisor zero_less_numeral zero_less_power)

lemma seq_bytes_value: "length bs = 8 \<Longrightarrow> seq_bytes (seq_value bs) = bs"
  using be_value_less [of bs] be_bytes_value [of bs]
  by (simp add: seq_bytes_def seq_value_def SEQUENCE_SIZE_def unat_of_nat)

definition message_nonce :: "direction_state \<Rightarrow> bytes" where
  "message_nonce st = make_nonce (ds_nonce_prefix st) (seq_bytes (ds_sequence st))"

definition message_aad :: "bytes \<Rightarrow> direction_state \<Rightarrow> bytes" where
  "message_aad hash st = make_aad (ds_direction st) (seq_bytes (ds_sequence st)) hash"

lemma seal_Inr_iff:
  "seal cr hash st p = Inr (frame, n) \<longleftrightarrow>
     ds_sequence st \<noteq> - 1 \<and> n = ds_sequence st + 1
     \<and> (\<exists>c. aead_encrypt cr (ds_cipher st) (message_nonce st) (message_aad hash st) p = Some c
            \<and> frame = VERSION # seq_bytes (ds_sequence st) @ c)"
  by (auto simp: seal_def u64_succ_eq Let_def message_nonce_def message_aad_def split: option.splits)

lemma unseal_Inr_iff:
  "unseal cr hash st frame = Inr (p, n) \<longleftrightarrow>
     ds_sequence st \<noteq> - 1 \<and> n = ds_sequence st + 1
     \<and> (\<exists>c. AEAD_TAG_SIZE \<le> length c \<and> frame = VERSION # seq_bytes (ds_sequence st) @ c
            \<and> aead_decrypt cr (ds_cipher st) (message_nonce st) (message_aad hash st) c = Some p)"
  (is "?l \<longleftrightarrow> ?r")
proof
  assume ?l
  then have len: "25 \<le> length frame" and v: "frame ! 0 = VERSION"
    and s: "seq_value (take 8 (drop 1 frame)) = ds_sequence st"
    and n: "ds_sequence st \<noteq> - 1" "n = ds_sequence st + 1"
    and d: "aead_decrypt cr (ds_cipher st) (make_nonce (ds_nonce_prefix st) (take 8 (drop 1 frame)))
        (make_aad (ds_direction st) (take 8 (drop 1 frame)) hash) (drop 9 frame) = Some p"
    by (auto simp: unseal_def u64_succ_eq Let_def size_defs split: option.splits if_splits)
  from s len have sb: "take 8 (drop 1 frame) = seq_bytes (ds_sequence st)"
    using seq_bytes_value [of "take 8 (drop 1 frame)"] by simp
  have "frame = frame ! 0 # take 8 (drop 1 frame) @ drop 9 frame"
    using len append_take_drop_id [of 8 "drop 1 frame"] by (cases frame) auto
  with v sb have f: "frame = VERSION # seq_bytes (ds_sequence st) @ drop 9 frame" by simp
  have "AEAD_TAG_SIZE \<le> length (drop 9 frame)" using len by (simp add: AEAD_TAG_SIZE_def)
  with f d n sb show ?r unfolding message_nonce_def message_aad_def by metis
next
  assume ?r
  then show ?l
    by (auto simp: unseal_def u64_succ_eq Let_def size_defs message_nonce_def message_aad_def)
qed

lemma seal_unseal:
  "aead_ok cr \<Longrightarrow> seal cr hash st p = Inr (frame, n) \<longleftrightarrow> unseal cr hash st frame = Inr (p, n)"
  unfolding seal_Inr_iff unseal_Inr_iff AEAD_TAG_SIZE_def
  using aead_encrypts aead_decrypts by (metis le_add2)

lemma seal_frame_size:
  "aead_ok cr \<Longrightarrow> seal cr hash st p = Inr (frame, n) \<Longrightarrow> length frame = length p + 25"
  by (auto simp: seal_Inr_iff dest: aead_encrypts)

text \<open>A frame of any other sequence number is rejected before it is decrypted.\<close>

lemma unseal_other_sequence:
  assumes "aead_ok cr" and "seal cr hash st p = Inr (frame, n)" and "ds_sequence st' \<noteq> ds_sequence st"
  shows "unseal cr' hash' st' frame = Inl (err_sequence (ds_sequence st') (ds_sequence st))"
proof -
  from assms(2) obtain c where f: "frame = VERSION # seq_bytes (ds_sequence st) @ c"
    by (auto simp: seal_Inr_iff)
  with seal_frame_size [OF assms(1,2)] assms(3) show ?thesis by (simp add: unseal_def size_defs)
qed

end
