(* ===== verification/Conn_Seq.thy ===== *)
theory Conn_Seq
  imports Conn_Tasks Framing
begin

text \<open>
  One task using a connection on its own, as the secure layer does: the operation runs from its
  start to its return, answering every await from a schedule of what the OS stream does. The
  schedule decides how the stream cuts the bytes into chunks and when it fails; a schedule that runs
  out, or that asks for what cannot happen (a read when nothing arrived and the peer has not closed),
  leaves the call \<open>Pending\<close>. The world also holds the bytes that will arrive from the peer
  and the bytes the stream has accepted, both in order.
\<close>

datatype os_event = OsProgress nat | OsEof | OsZero | OsError string | OsDeadline | OsDone

record net =
  net_core :: core
  net_in :: bytes
  net_sched :: "os_event list"
  net_out :: bytes

text \<open>
  The answer to one await. \<open>OsProgress k\<close> moves at most \<open>k + 1\<close> bytes, but never more than the
  buffer, the data or the arrived bytes allow.
\<close>

definition os_read :: "os_event \<Rightarrow> bytes \<Rightarrow> nat \<Rightarrow> (event \<times> bytes) option" where
  "os_read e arrived room =
     (case e of
        OsProgress k \<Rightarrow>
          if arrived = [] then None
          else (let n = min (Suc k) (min room (length arrived)) in
                Some (ReadDone (Inr (take n arrived)), drop n arrived))
      | OsEof \<Rightarrow> if arrived = [] then Some (ReadDone (Inr []), []) else None
      | OsError t \<Rightarrow> Some (ReadDone (Inl t), arrived)
      | _ \<Rightarrow> None)"

definition os_write :: "os_event \<Rightarrow> nat \<Rightarrow> event option" where
  "os_write e left =
     (case e of
        OsProgress k \<Rightarrow> Some (WriteDone (Inr (min (Suc k) left)))
      | OsZero \<Rightarrow> Some (WriteDone (Inr 0))
      | OsError t \<Rightarrow> Some (WriteDone (Inl t))
      | OsDeadline \<Rightarrow> Some DeadlineElapsed
      | _ \<Rightarrow> None)"

fun os_answer :: "pc \<Rightarrow> os_event \<Rightarrow> bytes \<Rightarrow> (event \<times> bytes) option" where
  "os_answer (ReceiveIo buffer h) e arrived = os_read e arrived (length buffer)"
| "os_answer (WriteIo data h) e arrived =
     map_option (\<lambda>ev. (ev, arrived)) (os_write e (length data))"
| "os_answer (SendIo data written h) e arrived =
     map_option (\<lambda>ev. (ev, arrived)) (os_write e (length (drop written data)))"
| "os_answer (TimedIo data written h) e arrived =
     map_option (\<lambda>ev. (ev, arrived)) (os_write e (length (drop written data)))"
| "os_answer (FlushIo h) e arrived =
     (case e of OsDone \<Rightarrow> Some (FlushDone (Inr ()), arrived)
      | OsError t \<Rightarrow> Some (FlushDone (Inl t), arrived) | _ \<Rightarrow> None)"
| "os_answer (ShutdownIo h) e arrived =
     (case e of OsDone \<Rightarrow> Some (ShutdownDone (Inr ()), arrived)
      | OsError t \<Rightarrow> Some (ShutdownDone (Inl t), arrived) | _ \<Rightarrow> None)"
| "os_answer (CloseIo h) e arrived =
     (case e of OsDone \<Rightarrow> Some (ShutdownDone (Inr ()), arrived)
      | OsError t \<Rightarrow> Some (ShutdownDone (Inl t), arrived) | _ \<Rightarrow> None)"
| "os_answer _ e arrived = None"

fun waits_gate :: "pc \<Rightarrow> bool" where
  "waits_gate (ReceiveGate buffer) = True"
| "waits_gate (WriteGate data) = True"
| "waits_gate (SendGate data) = True"
| "waits_gate (TimedGate data) = True"
| "waits_gate FlushGate = True"
| "waits_gate ShutdownGate = True"
| "waits_gate (CloseGate h) = True"
| "waits_gate _ = False"

definition reply_outcome :: "anyhow + reply \<Rightarrow> reply outcome" where
  "reply_outcome r = (case r of Inl e \<Rightarrow> Fail e | Inr v \<Rightarrow> Ret v)"

fun drive :: "os_event list \<Rightarrow> pc \<Rightarrow> core \<Rightarrow> bytes \<Rightarrow> bytes \<Rightarrow> reply outcome \<times> net" where
  "drive [] p c arrived out =
     (case p of
        Finished r \<Rightarrow> (reply_outcome r, \<lparr>net_core = c, net_in = arrived, net_sched = [], net_out = out\<rparr>)
      | _ \<Rightarrow> (Pending, \<lparr>net_core = c, net_in = arrived, net_sched = [], net_out = out\<rparr>))"
| "drive (e # es) p c arrived out =
     (case p of
        Finished r \<Rightarrow>
          (reply_outcome r, \<lparr>net_core = c, net_in = arrived, net_sched = e # es, net_out = out\<rparr>)
      | _ \<Rightarrow>
          (case os_answer p e arrived of
             None \<Rightarrow>
               (Pending, \<lparr>net_core = c, net_in = arrived, net_sched = e # es, net_out = out\<rparr>)
           | Some (ev, arrived') \<Rightarrow>
               (case poll p ev c of
                  None \<Rightarrow>
                    (Pending, \<lparr>net_core = c, net_in = arrived, net_sched = e # es, net_out = out\<rparr>)
                | Some (p', c') \<Rightarrow> drive es p' c' arrived' (out @ written_by p ev))))"

definition run_op :: "operation \<Rightarrow> net \<Rightarrow> reply outcome \<times> net" where
  "run_op oper w =
     (let (p, c) = start oper (net_core w) in
      (case (if waits_gate p then poll p GateAcquired c else Some (p, c)) of
         None \<Rightarrow> (Pending, w\<lparr>net_core := c\<rparr>)
       | Some (p', c') \<Rightarrow> drive (net_sched w) p' c' (net_in w) (net_out w)))"

text \<open>\<open>Connection::receive\<close>, with the buffer it fills, and \<open>Connection::send\<close>.\<close>

definition conn_receive :: "bytes \<Rightarrow> (receive_result \<times> bytes, net) async" where
  "conn_receive buffer w =
     (case run_op (Receive buffer) w of
        (Ret (VReceive r buffer'), w') \<Rightarrow> (Ret (r, buffer'), w')
      | (Fail e, w') \<Rightarrow> (Fail e, w')
      | (_, w') \<Rightarrow> (Pending, w'))"

definition conn_send :: "bytes \<Rightarrow> (unit, net) async" where
  "conn_send data w =
     (case run_op (Send data) w of
        (Ret _, w') \<Rightarrow> (Ret (), w')
      | (Fail e, w') \<Rightarrow> (Fail e, w')
      | (Pending, w') \<Rightarrow> (Pending, w'))"

definition conn_close :: "(unit, net) async" where
  "conn_close w =
     (case run_op Close w of
        (Ret _, w') \<Rightarrow> (Ret (), w')
      | (Fail e, w') \<Rightarrow> (Fail e, w')
      | (Pending, w') \<Rightarrow> (Pending, w'))"

section \<open>The calls in closed form\<close>

lemma drive_Finished [simp]:
  "drive sched (Finished r) c arrived out =
     (reply_outcome r, \<lparr>net_core = c, net_in = arrived, net_sched = sched, net_out = out\<rparr>)"
  by (cases sched) simp_all

lemma reply_outcome_simps [simp]:
  "reply_outcome (Inl e) = Fail e" "reply_outcome (Inr v) = Ret v"
  by (simp_all add: reply_outcome_def)

lemma net_eta: "\<lparr>net_core = net_core w, net_in = net_in w, net_sched = net_sched w, net_out = net_out w\<rparr> = w"
  by simp

text \<open>The state a receive is in once it holds the gate and the stream.\<close>

definition receive_answer :: "bytes \<Rightarrow> raw_stream \<Rightarrow> (receive_result \<times> bytes, net) async" where
  "receive_answer buffer h w =
     (case drive (net_sched w) (ReceiveIo buffer h) (lock_read (net_core w)) (net_in w) (net_out w) of
        (Ret (VReceive r buffer'), w') \<Rightarrow> (Ret (r, buffer'), w')
      | (Fail e, w') \<Rightarrow> (Fail e, w')
      | (_, w') \<Rightarrow> (Pending, w'))"

lemma conn_receive_eq:
  "conn_receive buffer w =
     (if buffer = [] then (Ret (Data 0, buffer), w)
      else if c_peer_sent_eof (core_state (net_core w)) then (Ret (EndOfStream, buffer), w)
      else (case ensure_read_available (net_core w) of
              Inl e \<Rightarrow> (Fail e, w)
            | Inr _ \<Rightarrow>
                if core_read_gate (net_core w) then (Pending, w)
                else (case core_get_stream (net_core w) of
                        Inl e \<Rightarrow> (Fail e, w)
                      | Inr h \<Rightarrow> receive_answer buffer h w)))"
  by (simp add: conn_receive_def run_op_def receive_start_def receive_gate_def receive_locked_def
      receive_answer_def net_eta split: sum.split)

definition net_inv :: "net \<Rightarrow> bool" where
  "net_inv w \<longleftrightarrow> core_wf (net_core w) \<and> \<not> core_read_gate (net_core w) \<and> \<not> core_write_gate (net_core w)
     \<and> (c_peer_sent_eof (core_state (net_core w)) \<longrightarrow> net_in w = [])"

fun is_progress :: "os_event \<Rightarrow> bool" where
  "is_progress (OsProgress k) = True"
| "is_progress _ = False"

text \<open>An open, resumed connection whose stream only ever makes progress.\<close>

definition net_live :: "net \<Rightarrow> bool" where
  "net_live w \<longleftrightarrow> net_inv w \<and> list_all is_progress (net_sched w)
     \<and> \<not> c_closed (core_state (net_core w)) \<and> \<not> c_paused (core_state (net_core w))
     \<and> \<not> c_read_shutdown (core_state (net_core w)) \<and> \<not> c_write_shutdown (core_state (net_core w))
     \<and> \<not> c_peer_sent_eof (core_state (net_core w))"

definition net_fuel :: "net \<Rightarrow> nat" where
  "net_fuel w = length (net_sched w)"

lemma lock_unlock [simp]:
  "\<not> core_read_gate c \<Longrightarrow> unlock_read (lock_read c) = c"
  "\<not> core_write_gate c \<Longrightarrow> unlock_write (lock_write c) = c"
  by (simp_all add: unlock_read_def lock_read_def unlock_write_def lock_write_def)

lemma receive_answer_progress:
  assumes "net_sched w = OsProgress k # es" and "net_in w \<noteq> []" and "buffer \<noteq> []"
    and "\<not> core_read_gate (net_core w)"
  defines "n \<equiv> min (Suc k) (min (length buffer) (length (net_in w)))"
  shows "receive_answer buffer h w =
    (Ret (Data n, take n (net_in w) @ drop n buffer), w\<lparr>net_in := drop n (net_in w), net_sched := es\<rparr>)"
proof -
  have "take n (net_in w) \<noteq> []" and len: "length (take n (net_in w)) = n"
    using assms(2,3) by (auto simp: n_def)
  then show ?thesis
    using assms(1,2,4)
    by (simp add: receive_answer_def os_read_def Let_def n_def [symmetric] receive_io_def
        receive_done_def) (simp add: n_def)
qed

lemma receive_answer_other:
  assumes "receive_answer buffer h w = (Ret (r, buffer'), w')"
    and "\<And>k es. net_sched w = OsProgress k # es \<Longrightarrow> net_in w = []"
  shows "r = EndOfStream \<and> buffer' = buffer \<and> net_in w = []
    \<and> (\<exists>es. w' = w\<lparr>net_core := unlock_read (core_set_eof (lock_read (net_core w))), net_sched := es\<rparr>)"
proof (cases "net_sched w")
  case Nil
  with assms(1) show ?thesis by (simp add: receive_answer_def)
next
  case (Cons e es)
  then show ?thesis
  proof (cases e)
    case OsEof
    with assms(1) Cons show ?thesis
      by (simp add: receive_answer_def os_read_def receive_io_def receive_done_def split: if_splits)
        (metis net.surjective net.update_convs old.unit.exhaust)
  qed (use assms Cons in \<open>auto simp: receive_answer_def os_read_def receive_io_def receive_done_def\<close>)
qed

lemma receive_answer_sent: "net_out (snd (receive_answer buffer h w)) = net_out w"
proof (cases "net_sched w")
  case (Cons e es)
  then show ?thesis
    by (cases e) (auto simp: receive_answer_def os_read_def receive_io_def receive_done_def Let_def
        split: if_splits)
qed (simp add: receive_answer_def)

lemma receive_answer_cases:
  assumes "receive_answer buffer h w = (Ret (r, buffer'), w')" and "buffer \<noteq> []"
    and "\<not> core_read_gate (net_core w)"
  obtains (data) n es where "r = Data n" "0 < n" "n \<le> length buffer" "n \<le> length (net_in w)"
      "buffer' = take n (net_in w) @ drop n buffer" "w' = w\<lparr>net_in := drop n (net_in w), net_sched := es\<rparr>"
    | (eof) es where "r = EndOfStream" "buffer' = buffer" "net_in w = []"
      "w' = w\<lparr>net_core := unlock_read (core_set_eof (lock_read (net_core w))), net_sched := es\<rparr>"
proof (cases "\<exists>k es. net_sched w = OsProgress k # es \<and> net_in w \<noteq> []")
  case True
  then obtain k es where s: "net_sched w = OsProgress k # es" and i: "net_in w \<noteq> []" by blast
  from data receive_answer_progress [OF s i assms(2,3)] assms(1,2) i show ?thesis by auto
next
  case False
  with receive_answer_other [OF assms(1)] eof show ?thesis by blast
qed

section \<open>The connection as a byte stream\<close>

lemma net_inv_read: "net_inv w \<Longrightarrow> net_inv (w\<lparr>net_in := drop n (net_in w), net_sched := es\<rparr>)"
  by (auto simp: net_inv_def)

lemma unlock_lock_eof_wf:
  "core_wf c \<Longrightarrow> core_wf (unlock_read (core_set_eof (lock_read c)))"
  using core_wf_set_eof [of c] by (auto simp: unlock_read_def lock_read_def core_set_eof_def core_wf_def)

lemma net_inv_eof:
  "net_inv w \<Longrightarrow> net_in w = [] \<Longrightarrow>
     net_inv (w\<lparr>net_core := unlock_read (core_set_eof (lock_read (net_core w))), net_sched := es\<rparr>)"
  using unlock_lock_eof_wf [of "net_core w"]
  by (auto simp: net_inv_def unlock_read_def lock_read_def core_set_eof_def)

lemma conn_receive_Ret:
  assumes "conn_receive buffer w = (Ret (r, buffer'), w')" and "net_inv w" and "buffer \<noteq> []"
  shows "(\<exists>h. receive_answer buffer h w = (Ret (r, buffer'), w')) \<and> \<not> core_read_gate (net_core w)
    \<or> r = EndOfStream \<and> buffer' = buffer \<and> w' = w \<and> net_in w = []"
proof (cases "c_peer_sent_eof (core_state (net_core w))")
  case True
  with assms show ?thesis by (simp add: conn_receive_eq net_inv_def)
next
  case False
  with assms(1,3) show ?thesis
    by (simp add: conn_receive_eq split: if_splits sum.splits) blast
qed

lemma conn_receive_data:
  assumes "net_inv w" and "buffer \<noteq> []" and "conn_receive buffer w = (Ret (Data n, buffer'), w')"
  shows "0 < n \<and> n \<le> length buffer \<and> n \<le> length (net_in w)
    \<and> buffer' = take n (net_in w) @ drop n buffer
    \<and> net_in w' = drop n (net_in w) \<and> net_out w' = net_out w \<and> net_inv w'"
proof -
  from conn_receive_Ret [OF assms(3,1,2)] obtain h where
    "receive_answer buffer h w = (Ret (Data n, buffer'), w')" "\<not> core_read_gate (net_core w)"
    by blast
  from this(1) assms(2) this(2) show ?thesis
    using net_inv_read [OF assms(1)] by (cases rule: receive_answer_cases) auto
qed

lemma conn_receive_eof:
  assumes "net_inv w" and "buffer \<noteq> []" and "conn_receive buffer w = (Ret (EndOfStream, buffer'), w')"
  shows "net_in w = [] \<and> buffer' = buffer \<and> net_in w' = [] \<and> net_inv w'"
  using conn_receive_Ret [OF assms(3,1,2)]
proof (elim disjE conjE exE)
  fix h assume "receive_answer buffer h w = (Ret (EndOfStream, buffer'), w')" "\<not> core_read_gate (net_core w)"
  from this(1) assms(2) this(2) show ?thesis
    using net_inv_eof [OF assms(1)] by (cases rule: receive_answer_cases) auto
qed (use assms(1) in simp_all)

lemma conn_receive_sent: "conn_receive buffer w = (r, w') \<Longrightarrow> net_out w' = net_out w"
  using receive_answer_sent [of buffer _ w]
  by (auto simp: conn_receive_eq split: if_splits sum.splits) (metis snd_conv)

lemma conn_receive_live:
  assumes "net_live w" and "buffer \<noteq> []" and "net_in w \<noteq> []" and "0 < net_fuel w"
  shows "\<exists>n buffer' w'. conn_receive buffer w = (Ret (Data n, buffer'), w') \<and> net_live w'
    \<and> net_fuel w \<le> net_fuel w' + n"
proof -
  from assms(1,4) obtain k es where s: "net_sched w = OsProgress k # es" and es: "list_all is_progress es"
    by (cases "net_sched w"; cases "hd (net_sched w)") (auto simp: net_live_def net_fuel_def)
  from assms(1) obtain h where "core_get_stream (net_core w) = Inr h"
    using core_get_stream_wf [of "net_core w"] by (auto simp: net_live_def net_inv_def)
  moreover have "ensure_read_available (net_core w) = Inr ()"
    using assms(1) by (simp add: ensure_read_Inr_iff net_live_def)
  moreover have gate: "\<not> core_read_gate (net_core w)" "\<not> c_peer_sent_eof (core_state (net_core w))"
    using assms(1) by (simp_all add: net_live_def net_inv_def)
  ultimately have eq: "conn_receive buffer w = receive_answer buffer h w"
    using assms(2) by (simp add: conn_receive_eq)
  let ?n = "min (Suc k) (min (length buffer) (length (net_in w)))"
  let ?w = "w\<lparr>net_in := drop ?n (net_in w), net_sched := es\<rparr>"
  have "net_live ?w" using assms(1) es net_inv_read [of w] by (simp add: net_live_def)
  moreover have "net_fuel w \<le> net_fuel ?w + ?n"
    using s assms(2,3) by (cases buffer; cases "net_in w") (simp_all add: net_fuel_def)
  ultimately show ?thesis
    unfolding eq receive_answer_progress [OF s assms(3,2) gate(1)] by blast
qed

text \<open>One round of the loop of \<open>send\<close>, and what the whole loop puts on the wire.\<close>

lemma drive_send_progress:
  assumes "written < length data"
  obtains n where "0 < n" "n \<le> length data - written"
    "drive (OsProgress k # es) (SendIo data written h) c arrived out =
       (if written + n < length data
        then drive es (SendIo data (written + n) h) c arrived (out @ take n (drop written data))
        else (Ret VUnit, \<lparr>net_core = unlock_write c, net_in = arrived, net_sched = es,
                net_out = out @ drop written data\<rparr>))"
proof -
  define n where "n = min (Suc k) (length data - written)"
  have "0 < n" "n \<le> length data - written" using assms by (auto simp: n_def)
  with that [of n] show ?thesis
    by (simp add: os_write_def send_io_def send_done_def send_loop_def n_def [symmetric])
qed

lemma take_drop_chunk: "take n (drop k xs) @ take m (drop (k + n) xs) = take (n + m) (drop k xs)"
  by (metis add.commute drop_drop take_add)

lemma drop_chunk: "take n (drop k xs) @ drop (k + n) xs = drop k xs"
  by (metis add.commute append_take_drop_id drop_drop)

lemma send_loop_prefix:
  assumes "drive sched (SendIo data written h) c arrived out = (r, w')" and "written < length data"
  shows "\<exists>k. net_out w' = out @ take k (drop written data)"
  using assms
proof (induction sched arbitrary: written out)
  case Nil
  then show ?case by (auto intro: exI [of _ 0])
next
  case (Cons e es)
  show ?case
  proof (cases e)
    case (OsProgress k)
    from drive_send_progress [OF Cons.prems(2)] obtain n where n: "0 < n" "n \<le> length data - written"
      and step: "drive (OsProgress k # es) (SendIo data written h) c arrived out =
       (if written + n < length data
        then drive es (SendIo data (written + n) h) c arrived (out @ take n (drop written data))
        else (Ret VUnit, \<lparr>net_core = unlock_write c, net_in = arrived, net_sched = es,
                net_out = out @ drop written data\<rparr>))"
      by blast
    show ?thesis
    proof (cases "written + n < length data")
      case True
      with step Cons.prems(1) OsProgress have "drive es (SendIo data (written + n) h) c arrived
          (out @ take n (drop written data)) = (r, w')"
        by (simp del: drive.simps)
      from Cons.IH [OF this True] show ?thesis by (metis append.assoc take_drop_chunk)
    next
      case False
      with step Cons.prems(1) OsProgress have "net_out w' = out @ drop written data"
        by (auto simp del: drive.simps)
      then show ?thesis by (metis take_all_iff order_refl)
    qed
  qed (use Cons.prems in \<open>auto simp: os_write_def send_io_def send_done_def intro: exI [of _ 0]\<close>)
qed

lemma send_loop_Ret:
  assumes "drive sched (SendIo data written h) c arrived out = (Ret v, w')" and "written < length data"
  shows "net_out w' = out @ drop written data \<and> net_in w' = arrived \<and> net_core w' = unlock_write c"
  using assms
proof (induction sched arbitrary: written out)
  case Nil
  then show ?case by simp
next
  case (Cons e es)
  show ?case
  proof (cases e)
    case (OsProgress k)
    from drive_send_progress [OF Cons.prems(2)] obtain n where n: "0 < n" "n \<le> length data - written"
      and step: "drive (OsProgress k # es) (SendIo data written h) c arrived out =
       (if written + n < length data
        then drive es (SendIo data (written + n) h) c arrived (out @ take n (drop written data))
        else (Ret VUnit, \<lparr>net_core = unlock_write c, net_in = arrived, net_sched = es,
                net_out = out @ drop written data\<rparr>))"
      by blast
    show ?thesis
    proof (cases "written + n < length data")
      case True
      with step Cons.prems(1) OsProgress have "drive es (SendIo data (written + n) h) c arrived
          (out @ take n (drop written data)) = (Ret v, w')"
        by (simp del: drive.simps)
      from Cons.IH [OF this True] show ?thesis by (simp add: drop_chunk)
    next
      case False
      with step Cons.prems(1) OsProgress show ?thesis by (auto simp del: drive.simps)
    qed
  qed (use Cons.prems in \<open>auto simp: os_write_def send_io_def send_done_def\<close>)
qed

lemma send_loop_live:
  assumes "list_all is_progress sched" and "length data - written \<le> length sched" and "written < length data"
  shows "\<exists>es. drive sched (SendIo data written h) c arrived out =
      (Ret VUnit, \<lparr>net_core = unlock_write c, net_in = arrived, net_sched = es,
         net_out = out @ drop written data\<rparr>)
    \<and> list_all is_progress es \<and> length sched \<le> length es + (length data - written)"
  using assms
proof (induction sched arbitrary: written out)
  case Nil
  then show ?case by simp
next
  case (Cons e es)
  from Cons.prems(1) obtain k where e: "e = OsProgress k" and es: "list_all is_progress es"
    by (cases e) auto
  from drive_send_progress [OF Cons.prems(3)] obtain n where n: "0 < n" "n \<le> length data - written"
    and step: "drive (OsProgress k # es) (SendIo data written h) c arrived out =
     (if written + n < length data
      then drive es (SendIo data (written + n) h) c arrived (out @ take n (drop written data))
      else (Ret VUnit, \<lparr>net_core = unlock_write c, net_in = arrived, net_sched = es,
              net_out = out @ drop written data\<rparr>))"
    by blast
  show ?case
  proof (cases "written + n < length data")
    case True
    have "length data - (written + n) \<le> length es" using Cons.prems(2) n by simp
    from Cons.IH [OF es this True, of "out @ take n (drop written data)"] obtain es' where
      "drive es (SendIo data (written + n) h) c arrived (out @ take n (drop written data)) =
        (Ret VUnit, \<lparr>net_core = unlock_write c, net_in = arrived, net_sched = es',
           net_out = out @ drop written data\<rparr>)"
      and "list_all is_progress es'" "length es \<le> length es' + (length data - (written + n))"
      by (auto simp: drop_chunk)
    with step e n True show ?thesis by (auto simp del: drive.simps)
  next
    case False
    with step e es n show ?thesis by (auto simp del: drive.simps)
  qed
qed

text \<open>\<open>Connection::send\<close> in closed form.\<close>

lemma conn_send_eq:
  "conn_send data w =
     (if data = [] then (Ret (), w)
      else (case ensure_write_available (net_core w) of
              Inl e \<Rightarrow> (Fail e, w)
            | Inr _ \<Rightarrow>
                if core_write_gate (net_core w) then (Pending, w)
                else (case core_get_stream (net_core w) of
                        Inl e \<Rightarrow> (Fail e, w)
                      | Inr h \<Rightarrow>
                          (case drive (net_sched w) (SendIo data 0 h) (lock_write (net_core w))
                             (net_in w) (net_out w) of
                             (Ret _, w') \<Rightarrow> (Ret (), w')
                           | (Fail e, w') \<Rightarrow> (Fail e, w')
                           | (Pending, w') \<Rightarrow> (Pending, w')))))"
  by (simp add: conn_send_def run_op_def send_start_def send_gate_def send_locked_def send_loop_def
      net_eta split: sum.split)

lemma conn_send_all:
  assumes "net_inv w" and "conn_send data w = (Ret u, w')"
  shows "net_out w' = net_out w @ data \<and> net_in w' = net_in w \<and> net_core w' = net_core w"
  using assms
  by (auto simp: conn_send_eq net_inv_def split: if_splits sum.splits prod.splits outcome.splits
      dest: send_loop_Ret)

lemma conn_send_prefix:
  assumes "conn_send data w = (r, w')"
  shows "\<exists>k. net_out w' = net_out w @ take k data"
proof (cases "net_out w' = net_out w")
  case True
  then show ?thesis by (auto intro: exI [of _ 0])
next
  case False
  with assms obtain h r0 where "data \<noteq> []"
    "drive (net_sched w) (SendIo data 0 h) (lock_write (net_core w)) (net_in w) (net_out w) = (r0, w')"
    by (auto simp: conn_send_eq split: if_splits sum.splits prod.splits outcome.splits)
  from send_loop_prefix [OF this(2)] this(1) show ?thesis by simp
qed

lemma conn_send_live:
  assumes "net_live w" and "length data \<le> net_fuel w"
  shows "\<exists>w'. conn_send data w = (Ret (), w') \<and> net_live w' \<and> net_fuel w \<le> net_fuel w' + length data"
proof (cases "data = []")
  case True
  with assms show ?thesis by (simp add: conn_send_eq)
next
  case False
  from assms(1) obtain h where h: "core_get_stream (net_core w) = Inr h"
    using core_get_stream_wf [of "net_core w"] by (auto simp: net_live_def net_inv_def)
  have gate: "\<not> core_write_gate (net_core w)" "ensure_write_available (net_core w) = Inr ()"
    using assms(1) by (simp_all add: net_live_def net_inv_def ensure_write_Inr_iff)
  have "list_all is_progress (net_sched w)" "length data - 0 \<le> length (net_sched w)"
    using assms by (simp_all add: net_live_def net_fuel_def)
  from send_loop_live [OF this, of h "lock_write (net_core w)" "net_in w" "net_out w"] False obtain es where
    d: "drive (net_sched w) (SendIo data 0 h) (lock_write (net_core w)) (net_in w) (net_out w) =
      (Ret VUnit, \<lparr>net_core = net_core w, net_in = net_in w, net_sched = es, net_out = net_out w @ data\<rparr>)"
    and es: "list_all is_progress es" "length (net_sched w) \<le> length es + length data"
    using gate by auto
  let ?w = "\<lparr>net_core = net_core w, net_in = net_in w, net_sched = es, net_out = net_out w @ data\<rparr>"
  have "conn_send data w = (Ret (), ?w)" using False gate h d by (simp add: conn_send_eq)
  moreover have "net_live ?w" using assms(1) es(1) by (simp add: net_live_def net_inv_def)
  moreover have "net_fuel w \<le> net_fuel ?w + length data" using es(2) by (simp add: net_fuel_def)
  ultimately show ?thesis by blast
qed

lemma net_live_inv: "net_live w \<Longrightarrow> net_inv w"
  by (simp add: net_live_def)

lemma conn_receive_eof_in:
  "net_inv w \<Longrightarrow> buffer \<noteq> [] \<Longrightarrow> conn_receive buffer w = (Ret (EndOfStream, buffer'), w') \<Longrightarrow> net_in w = []"
  using conn_receive_eof by blast

lemma conn_send_inv:
  "net_inv w \<Longrightarrow> conn_send data w = (Ret u, w') \<Longrightarrow>
     net_out w' = net_out w @ data \<and> net_in w' = net_in w \<and> net_inv w'"
  using conn_send_all [of w data u w'] by (simp add: net_inv_def)

interpretation conn_reader: live_reader conn_receive net_in net_out net_inv net_live net_fuel
  by unfold_locales
    (fact conn_receive_data conn_receive_eof_in conn_receive_sent net_live_inv conn_receive_live)+

interpretation conn_writer: live_writer conn_send net_in net_out net_inv net_live net_fuel
  by unfold_locales (fact conn_send_inv conn_send_prefix net_live_inv conn_send_live)+

interpretation conn_stream: live_stream conn_receive conn_send net_in net_out net_inv net_live net_fuel
  by unfold_locales

end
