(* ===== verification/Secure_Stream.thy ===== *)
theory Secure_Stream
  imports Secure_Channel Conn_Seq "HOL-Library.Sublist"
begin

text \<open>
  Sequences of messages over one direction of a session: what a sender puts on the wire, what a
  receiver accepts from any wire, and that the two agree. Proved in the stream locales; the
  properties instantiate them with the connection.
\<close>

definition at_sequence :: "direction_state \<Rightarrow> u64 \<Rightarrow> direction_state" where
  "at_sequence st n = st\<lparr>ds_sequence := n\<rparr>"

primrec seal_all :: "crypto \<Rightarrow> bytes \<Rightarrow> direction_state \<Rightarrow> bytes list \<Rightarrow> bytes list option" where
  "seal_all cr hash st [] = Some []"
| "seal_all cr hash st (p # ps) =
     (case seal cr hash st p of
        Inl e \<Rightarrow> None
      | Inr (frame, n) \<Rightarrow> map_option (\<lambda>frames. frame # frames) (seal_all cr hash (at_sequence st n) ps))"

primrec send_all :: "crypto \<Rightarrow> (bytes \<Rightarrow> (unit, 'w) async) \<Rightarrow> bytes list \<Rightarrow> (unit, session \<times> 'w) async" where
  "send_all cr send [] = async_return ()"
| "send_all cr send (p # ps) = and_then (secure_send cr send p) (\<lambda>_. send_all cr send ps)"

primrec receive_all ::
  "crypto \<Rightarrow> (bytes \<Rightarrow> (receive_result \<times> bytes, 'w) async) \<Rightarrow> nat \<Rightarrow> (bytes list, session \<times> 'w) async"
where
  "receive_all cr recv 0 = async_return []"
| "receive_all cr recv (Suc k) =
     and_then (secure_receive cr recv) (\<lambda>p. and_then (receive_all cr recv k) (\<lambda>ps. async_return (p # ps)))"

definition wire :: "bytes list \<Rightarrow> bytes" where
  "wire frames = concat (map frame_bytes frames)"

lemma wire_simps [simp]: "wire [] = []" "wire (f # fs) = frame_bytes f @ wire fs"
  by (simp_all add: wire_def)

text \<open>Messages that fit a frame, for a state with room for them.\<close>

definition message_ok :: "bytes \<Rightarrow> bool" where
  "message_ok p \<longleftrightarrow> length p + MIN_ENCRYPTED_FRAME_SIZE \<le> MAX_FRAME_SIZE"

definition direction_ok :: "direction_state \<Rightarrow> bool" where
  "direction_ok st \<longleftrightarrow> length (ds_cipher st) = AEAD_KEY_SIZE \<and> length (ds_nonce_prefix st) = NONCE_PREFIX_SIZE"

lemma at_sequence_simps [simp]:
  "ds_sequence (at_sequence st n) = n" "ds_cipher (at_sequence st n) = ds_cipher st"
  "ds_direction (at_sequence st n) = ds_direction st" "ds_nonce_prefix (at_sequence st n) = ds_nonce_prefix st"
  "at_sequence (at_sequence st n) m = at_sequence st m" "at_sequence st (ds_sequence st) = st"
  "direction_ok (at_sequence st n) = direction_ok st"
  by (simp_all add: at_sequence_def direction_ok_def)

lemma session_simps [simp]:
  "receive_state (set_send_sequence n ss) = receive_state ss"
  "send_state (set_send_sequence n ss) = at_sequence (send_state ss) n"
  "receive_state (set_receive_sequence n ss) = at_sequence (receive_state ss) n"
  "send_state (set_receive_sequence n ss) = send_state ss"
  "transcript_hash (set_send_sequence n ss) = transcript_hash ss"
  "transcript_hash (set_receive_sequence n ss) = transcript_hash ss"
  by (simp_all add: set_send_sequence_def set_receive_sequence_def at_sequence_def)

lemma seal_all_Cons_iff:
  "seal_all cr hash st (p # ps) = Some frames \<longleftrightarrow>
     (\<exists>f n fs. seal cr hash st p = Inr (f, n) \<and> seal_all cr hash (at_sequence st n) ps = Some fs
        \<and> frames = f # fs)"
  by (auto split: sum.splits prod.splits)

text \<open>Every message is sealed at its own sequence number, counting up from the first.\<close>

lemma seal_all_nth:
  assumes "seal_all cr hash st ps = Some frames"
  shows "length frames = length ps \<and> unat (ds_sequence st) + length ps < 2 ^ 64
    \<and> (\<forall>j < length ps. \<exists>n. seal cr hash (at_sequence st (ds_sequence st + of_nat j)) (ps ! j) = Inr (frames ! j, n))"
  using assms
proof (induction ps arbitrary: st frames)
  case Nil
  then show ?case using unat_u64_less [of "ds_sequence st"] by simp
next
  case (Cons p ps)
  from Cons.prems obtain f n fs where s: "seal cr hash st p = Inr (f, n)"
    and r: "seal_all cr hash (at_sequence st n) ps = Some fs" and frames: "frames = f # fs"
    unfolding seal_all_Cons_iff by blast
  from s have n: "ds_sequence st \<noteq> - 1" "n = ds_sequence st + 1" by (auto simp: seal_Inr_iff)
  then have "unat n = unat (ds_sequence st) + 1"
    using u64_succ_eq [of "ds_sequence st"] u64_checked_add_SomeD [of "ds_sequence st" 1 n] by simp
  moreover have "\<exists>m. seal cr hash (at_sequence st (ds_sequence st + of_nat j)) ((p # ps) ! j) = Inr (frames ! j, m)"
    if "j < length (p # ps)" for j
  proof (cases j)
    case 0
    with s frames show ?thesis by simp
  next
    case (Suc i)
    with that Cons.IH [OF r] n(2) frames show ?thesis by (simp add: add.assoc [symmetric])
  qed
  ultimately show ?case using Cons.IH [OF r] frames by auto
qed

lemma seal_all_total:
  assumes "aead_ok cr" and "aead_total cr" and "direction_ok st"
    and "unat (ds_sequence st) + length ps < 2 ^ 64" and "\<forall>p \<in> set ps. message_ok p"
  shows "\<exists>frames. seal_all cr hash st ps = Some frames \<and> (\<forall>f \<in> set frames. frame_ok f)"
  using assms(3-5)
proof (induction ps arbitrary: st)
  case Nil
  then show ?case by simp
next
  case (Cons p ps)
  have seq: "ds_sequence st \<noteq> - 1"
  proof
    assume "ds_sequence st = - 1"
    then have "unat (ds_sequence st) = 2 ^ 64 - 1" by (simp add: unsigned_minus_1_eq_mask mask_eq_exp_minus_1)
    with Cons.prems(2) show False by simp
  qed
  have "length (message_nonce st) = AEAD_NONCE_SIZE"
    using Cons.prems(1) by (simp add: message_nonce_def make_nonce_def direction_ok_def size_defs)
  moreover have "length p \<le> 2 ^ 32"
    using Cons.prems(3) by (simp add: message_ok_def MAX_FRAME_SIZE_def)
  ultimately obtain c where c: "aead_encrypt cr (ds_cipher st) (message_nonce st) (message_aad hash st) p = Some c"
    using assms(2) Cons.prems(1) unfolding aead_total_def direction_ok_def by blast
  define f where "f = VERSION # seq_bytes (ds_sequence st) @ c"
  have s: "seal cr hash st p = Inr (f, ds_sequence st + 1)"
    using seq c by (simp add: seal_Inr_iff f_def)
  have "frame_ok f"
    using seal_frame_size [OF assms(1) s] Cons.prems(3) by (auto simp: frame_ok_def message_ok_def size_defs)
  moreover have "unat (ds_sequence st + 1) = unat (ds_sequence st) + 1"
    using seq u64_succ_eq [of "ds_sequence st"] u64_checked_add_SomeD [of "ds_sequence st" 1] by simp
  ultimately show ?case
    using Cons.IH [of "at_sequence st (ds_sequence st + 1)"] Cons.prems s by fastforce
qed

section \<open>What a sender writes\<close>

context byte_writer
begin

lemma secure_send_sound:
  assumes "inv w" and "secure_send cr send p (ss, w) = (Ret u, (ss', w'))"
  shows "\<exists>f n. seal cr (transcript_hash ss) (send_state ss) p = Inr (f, n) \<and> frame_ok f
    \<and> ss' = set_send_sequence n ss \<and> sent w' = sent w @ frame_bytes f \<and> incoming w' = incoming w \<and> inv w'"
  using assms
  by (auto simp: secure_send_def split: sum.splits prod.splits outcome.splits dest!: write_frame_sound [OF assms(1)])

lemma secure_send_fails:
  assumes "secure_send cr send p (ss, w) = (r, (ss', w'))" and "\<forall>u. r \<noteq> Ret u"
  shows "ss' = ss
    \<and> (w' = w \<or> (\<exists>f n k. seal cr (transcript_hash ss) (send_state ss) p = Inr (f, n)
                  \<and> sent w' = sent w @ take k (frame_bytes f)))"
  using assms write_frame_prefix
  by (auto simp: secure_send_def split: sum.splits prod.splits outcome.splits)

lemma send_all_sound:
  assumes "inv w" and "send_all cr send ps (ss, w) = (Ret u, (ss', w'))"
  shows "\<exists>frames. seal_all cr (transcript_hash ss) (send_state ss) ps = Some frames
    \<and> sent w' = sent w @ wire frames \<and> incoming w' = incoming w \<and> inv w'"
  using assms
proof (induction ps arbitrary: ss w)
  case Nil
  then show ?case by simp
next
  case (Cons p ps)
  from Cons.prems(2) obtain v sv wv where s: "secure_send cr send p (ss, w) = (Ret v, (sv, wv))"
    and r: "send_all cr send ps (sv, wv) = (Ret u, (ss', w'))"
    by (auto elim: and_then_RetE)
  from secure_send_sound [OF Cons.prems(1) s] obtain f n where
    f: "seal cr (transcript_hash ss) (send_state ss) p = Inr (f, n)" "sv = set_send_sequence n ss"
    and wv: "sent wv = sent w @ frame_bytes f" "incoming wv = incoming w" "inv wv" by blast
  from Cons.IH [OF wv(3) r] f wv show ?case by (auto simp: seal_all_Cons_iff)
qed

end

context live_writer
begin

lemma secure_send_live:
  assumes "live w" and "seal cr (transcript_hash ss) (send_state ss) p = Inr (f, n)"
    and "frame_ok f" and "length (frame_bytes f) \<le> fuel w"
  shows "\<exists>w'. secure_send cr send p (ss, w) = (Ret (), (set_send_sequence n ss, w')) \<and> live w'
    \<and> sent w' = sent w @ frame_bytes f \<and> incoming w' = incoming w
    \<and> fuel w \<le> fuel w' + length (frame_bytes f)"
  using write_frame_live [OF assms(1,3,4)] assms(2) by (auto simp: secure_send_def)

lemma send_all_live:
  assumes "live w" and "seal_all cr (transcript_hash ss) (send_state ss) ps = Some frames"
    and "\<forall>f \<in> set frames. frame_ok f" and "length (wire frames) \<le> fuel w"
  shows "\<exists>ss' w'. send_all cr send ps (ss, w) = (Ret (), (ss', w')) \<and> sent w' = sent w @ wire frames \<and> live w'
    \<and> incoming w' = incoming w \<and> fuel w \<le> fuel w' + length (wire frames)"
  using assms
proof (induction ps arbitrary: ss w frames)
  case Nil
  then show ?case by simp
next
  case (Cons p ps)
  from Cons.prems(2) obtain f n fs where s: "seal cr (transcript_hash ss) (send_state ss) p = Inr (f, n)"
    and r: "seal_all cr (transcript_hash ss) (at_sequence (send_state ss) n) ps = Some fs"
    and frames: "frames = f # fs" unfolding seal_all_Cons_iff by blast
  have ok: "frame_ok f" "length (frame_bytes f) \<le> fuel w" using frames Cons.prems(3,4) by simp_all
  let ?ss = "set_send_sequence n ss"
  from secure_send_live [OF Cons.prems(1) s ok] obtain w1 where
    step: "secure_send cr send p (ss, w) = (Ret (), (?ss, w1))"
    and w1: "live w1" "sent w1 = sent w @ frame_bytes f" "fuel w \<le> fuel w1 + length (frame_bytes f)"
      "incoming w1 = incoming w" by blast
  have "length (wire fs) \<le> fuel w1" using w1(3) Cons.prems(4) frames by simp
  with Cons.IH [OF w1(1), of ?ss fs] r frames Cons.prems(3) obtain ss' w' where
    "send_all cr send ps (?ss, w1) = (Ret (), (ss', w'))" "sent w' = sent w1 @ wire fs" "live w'"
    "incoming w' = incoming w1" "fuel w1 \<le> fuel w' + length (wire fs)"
    by auto
  with step w1(2-4) frames show ?case by (simp add: and_then_def)
qed

end

section \<open>What a receiver accepts\<close>

context byte_reader
begin

lemma secure_receive_sound:
  assumes "inv w" and "secure_receive cr recv (ss, w) = (Ret p, (ss', w'))"
  shows "\<exists>f n. unseal cr (transcript_hash ss) (receive_state ss) f = Inr (p, n) \<and> frame_ok f
    \<and> ss' = set_receive_sequence n ss \<and> incoming w = frame_bytes f @ incoming w' \<and> sent w' = sent w \<and> inv w'"
  using assms
  by (auto simp: secure_receive_def split: sum.splits prod.splits outcome.splits dest!: read_frame_sound [OF assms(1)])

lemma receive_all_sound:
  assumes "aead_ok cr" and "inv w" and "receive_all cr recv k (ss, w) = (Ret ps, (ss', w'))"
  shows "\<exists>frames. seal_all cr (transcript_hash ss) (receive_state ss) ps = Some frames
    \<and> incoming w = wire frames @ incoming w' \<and> length ps = k"
  using assms(2,3)
proof (induction k arbitrary: ss w ps)
  case 0
  then show ?case by simp
next
  case (Suc k)
  from Suc.prems(2) obtain p qs sv wv where r: "secure_receive cr recv (ss, w) = (Ret p, (sv, wv))"
    and q: "receive_all cr recv k (sv, wv) = (Ret qs, (ss', w'))" and ps: "ps = p # qs"
    by (auto elim!: and_then_RetE)
  from secure_receive_sound [OF Suc.prems(1) r] obtain f n where
    f: "unseal cr (transcript_hash ss) (receive_state ss) f = Inr (p, n)" "sv = set_receive_sequence n ss"
    and wv: "incoming w = frame_bytes f @ incoming wv" "inv wv" by blast
  from seal_unseal [OF assms(1)] f(1) have "seal cr (transcript_hash ss) (receive_state ss) p = Inr (f, n)"
    by blast
  with Suc.IH [OF wv(2) q] f wv(1) ps show ?case unfolding seal_all_Cons_iff by fastforce
qed

end

context live_reader
begin

lemma secure_receive_live:
  assumes "live w" and "unseal cr (transcript_hash ss) (receive_state ss) f = Inr (p, n)"
    and "frame_ok f" and "length (frame_bytes f) \<le> fuel w" and "incoming w = frame_bytes f @ rest"
  shows "\<exists>w'. secure_receive cr recv (ss, w) = (Ret p, (set_receive_sequence n ss, w')) \<and> live w'
    \<and> incoming w' = rest \<and> sent w' = sent w \<and> fuel w \<le> fuel w' + length (frame_bytes f)"
  using read_frame_live [OF assms(1,5,3,4)] assms(2) by (auto simp: secure_receive_def)

lemma receive_all_live:
  assumes "aead_ok cr" and "live w" and "seal_all cr (transcript_hash ss) (receive_state ss) ps = Some frames"
    and "\<forall>f \<in> set frames. frame_ok f" and "length (wire frames) \<le> fuel w" and "incoming w = wire frames @ rest"
  shows "\<exists>ss' w'. receive_all cr recv (length ps) (ss, w) = (Ret ps, (ss', w')) \<and> incoming w' = rest \<and> live w'
    \<and> sent w' = sent w \<and> fuel w \<le> fuel w' + length (wire frames)"
  using assms(2-)
proof (induction ps arbitrary: ss w frames)
  case Nil
  then show ?case by simp
next
  case (Cons p ps)
  from Cons.prems(2) obtain f n fs where s: "seal cr (transcript_hash ss) (receive_state ss) p = Inr (f, n)"
    and r: "seal_all cr (transcript_hash ss) (at_sequence (receive_state ss) n) ps = Some fs"
    and frames: "frames = f # fs" unfolding seal_all_Cons_iff by blast
  have ok: "frame_ok f" "length (frame_bytes f) \<le> fuel w" "incoming w = frame_bytes f @ wire fs @ rest"
    using frames Cons.prems(3,4,5) by simp_all
  let ?ss = "set_receive_sequence n ss"
  from seal_unseal [OF assms(1)] s have u: "unseal cr (transcript_hash ss) (receive_state ss) f = Inr (p, n)"
    by blast
  from secure_receive_live [OF Cons.prems(1) u ok] obtain w1 where
    step: "secure_receive cr recv (ss, w) = (Ret p, (?ss, w1))"
    and w1: "live w1" "incoming w1 = wire fs @ rest" "fuel w \<le> fuel w1 + length (frame_bytes f)"
      "sent w1 = sent w" by blast
  have "length (wire fs) \<le> fuel w1" using w1(3) Cons.prems(4) frames by simp
  with Cons.IH [OF w1(1), of ?ss fs] r frames Cons.prems(3) w1(2) obtain ss' w' where
    "receive_all cr recv (length ps) (?ss, w1) = (Ret ps, (ss', w'))" "incoming w' = rest" "live w'"
    "sent w' = sent w1" "fuel w1 \<le> fuel w' + length (wire fs)"
    by auto
  with step w1(3,4) frames show ?case by (simp add: and_then_def)
qed

end

section \<open>Deliveries without forgery\<close>

text \<open>
  Nothing in the delivered bytes opens under the session except frames the peer sealed: the network
  may drop, repeat, reorder, cut and mix frames, but not make one up.
\<close>

definition unforged :: "crypto \<Rightarrow> bytes \<Rightarrow> direction_state \<Rightarrow> bytes list \<Rightarrow> bytes \<Rightarrow> bool" where
  "unforged cr hash st frames delivered \<longleftrightarrow>
     (\<forall>f i p n. sublist (frame_bytes f) delivered \<longrightarrow> unseal cr hash (at_sequence st i) f = Inr (p, n)
        \<longrightarrow> f \<in> set frames)"

lemma unforged_rest: "unforged cr hash st frames (a @ b) \<Longrightarrow> unforged cr hash st frames b"
  unfolding unforged_def by (meson sublist_append_leftI sublist_order.order.trans)

lemma sealed_at_own_sequence:
  assumes ok: "aead_ok cr" and all: "seal_all cr hash st ps = Some frames" and f: "f \<in> set frames"
    and open_k: "unseal cr hash (at_sequence st (ds_sequence st + of_nat k)) f = Inr (p, n)" and k: "k \<le> length ps"
  shows "k < length ps \<and> p = ps ! k \<and> f = frames ! k \<and> n = ds_sequence st + of_nat (Suc k)"
proof -
  from seal_all_nth [OF all] f obtain j m where j: "j < length ps" "f = frames ! j"
    and s: "seal cr hash (at_sequence st (ds_sequence st + of_nat j)) (ps ! j) = Inr (f, m)"
    by (metis in_set_conv_nth)
  have bound: "unat (ds_sequence st) + length ps < 2 ^ 64" using seal_all_nth [OF all] by blast
  have "ds_sequence st + of_nat j = ds_sequence st + (of_nat k :: u64)"
    using unseal_other_sequence [OF ok s, of "at_sequence st (ds_sequence st + of_nat k)" cr hash] open_k
    by fastforce
  then have "j = k"
    using j(1) k bound by (simp add: word_of_nat_eq_iff take_bit_nat_eq_self)
  with s open_k seal_unseal [OF ok] j show ?thesis
    by (auto simp: unseal_Inr_iff add.assoc [symmetric])
qed

context byte_reader
begin

lemma receive_all_unforged:
  assumes ok: "aead_ok cr" and all: "seal_all cr (transcript_hash ss) st ps = Some frames"
    and "inv w" and "unforged cr (transcript_hash ss) st frames (incoming w)"
    and "receive_state ss = at_sequence st (ds_sequence st + of_nat i)" and "i \<le> length ps"
    and "receive_all cr recv k (ss, w) = (Ret qs, (ss', w'))"
  shows "i + k \<le> length ps \<and> qs = take k (drop i ps)"
  using assms(2-)
proof (induction k arbitrary: ss w qs i)
  case 0
  then show ?case by simp
next
  case (Suc k)
  from Suc.prems(6) obtain p rs sv wv where r: "secure_receive cr recv (ss, w) = (Ret p, (sv, wv))"
    and q: "receive_all cr recv k (sv, wv) = (Ret rs, (ss', w'))" and qs: "qs = p # rs"
    by (auto elim!: and_then_RetE)
  from secure_receive_sound [OF Suc.prems(2) r] obtain f n where
    f: "unseal cr (transcript_hash ss) (receive_state ss) f = Inr (p, n)" "sv = set_receive_sequence n ss"
    and wv: "incoming w = frame_bytes f @ incoming wv" "inv wv" by blast
  have "f \<in> set frames"
    using Suc.prems(3,4) f(1) wv(1) unfolding unforged_def by (metis sublist_append_rightI)
  from sealed_at_own_sequence [OF ok Suc.prems(1) this _ Suc.prems(5)] f(1) Suc.prems(4)
  have i: "i < length ps" "p = ps ! i" and n: "n = ds_sequence st + of_nat (Suc i)" by auto
  have "Suc i + k \<le> length ps \<and> rs = take k (drop (Suc i) ps)"
  proof (rule Suc.IH [OF _ wv(2) _ _ _ q])
    show "seal_all cr (transcript_hash sv) st ps = Some frames" using Suc.prems(1) f(2) by simp
    show "unforged cr (transcript_hash sv) st frames (incoming wv)"
      using Suc.prems(3) wv(1) f(2) by (auto dest: unforged_rest)
    show "receive_state sv = at_sequence st (ds_sequence st + of_nat (Suc i))"
      using Suc.prems(4) f(2) n by simp
  qed (use i in simp)
  with i qs show ?case by (metis Cons_nth_drop_Suc add_Suc_shift take_Suc_Cons)
qed

end

end
