(* ===== verification/Handshake.thy ===== *)
theory Handshake
  imports Secure_Stream
begin

text \<open>
  The mutually authenticated handshake of \<open>SecureConnection::client\<close> and
  \<open>SecureConnection::server\<close>. What the operating system's random source gives (the ephemeral
  private key, the handshake nonce or an error) is an argument; the connection is the pair
  \<open>recv\<close> and \<open>send\<close>. Each side runs to the session it returns or to its first error.
\<close>

definition generate_identity_private_key :: "string + bytes \<Rightarrow> anyhow + bytes" where
  "generate_identity_private_key random =
     (case random of
        Inl e \<Rightarrow> Inl (Message (''failed to generate Ed25519 identity key: '' @ e))
      | Inr key \<Rightarrow> Inr key)"

definition identity_public_key :: "crypto \<Rightarrow> bytes \<Rightarrow> bytes" where
  "identity_public_key cr identity_private_key = identity_public cr identity_private_key"

definition random_handshake_nonce :: "string + bytes \<Rightarrow> anyhow + bytes" where
  "random_handshake_nonce random =
     (case random of
        Inl e \<Rightarrow> Inl (Message (''failed to obtain handshake randomness: '' @ e))
      | Inr nonce \<Rightarrow> Inr nonce)"

definition err_signature_encoding :: anyhow where
  "err_signature_encoding = Message ''invalid Ed25519 signature encoding''"

definition err_signature :: anyhow where
  "err_signature = Message ''peer identity signature verification failed''"

definition verify_signature :: "crypto \<Rightarrow> bytes \<Rightarrow> bytes \<Rightarrow> bytes \<Rightarrow> anyhow + unit" where
  "verify_signature cr identity_key message signature =
     (case verifying_key_from_bytes cr identity_key of
        Inl e \<Rightarrow> Inl (OtherError e)
      | Inr verifying_key \<Rightarrow>
          (case signature_from_slice cr signature of
             None \<Rightarrow> Inl err_signature_encoding
           | Some sig \<Rightarrow> if verify cr verifying_key message sig then Inr () else Inl err_signature))"

definition err_cipher :: anyhow where
  "err_cipher = Message ''invalid ChaCha20-Poly1305 key''"

definition create_cipher :: "crypto \<Rightarrow> bytes \<Rightarrow> anyhow + bytes" where
  "create_cipher cr key = (if cipher_key_ok cr key then Inr key else Inl err_cipher)"

definition require :: "bool \<Rightarrow> anyhow \<Rightarrow> (unit, 'w) async" where
  "require b e = (if b then async_return () else async_fail e)"

definition err_server_identity :: anyhow where
  "err_server_identity = Message ''server identity does not match the pinned public key''"

definition err_client_identity :: anyhow where
  "err_client_identity = Message ''client identity does not match the pinned public key''"

definition err_contributory :: anyhow where
  "err_contributory = Message ''invalid non-contributory X25519 shared secret''"

definition err_server_confirmation :: anyhow where
  "err_server_confirmation = Message ''invalid server key confirmation''"

definition err_client_confirmation :: anyhow where
  "err_client_confirmation = Message ''invalid client key confirmation''"

text \<open>The session of each side, from the derived keys and the transcript hash.\<close>

definition client_session :: "crypto \<Rightarrow> key_material \<Rightarrow> bytes \<Rightarrow> anyhow + session" where
  "client_session cr km hash =
     try_result (create_cipher cr (server_to_client_key km)) (\<lambda>receive_cipher.
     try_result (create_cipher cr (client_to_server_key km)) (\<lambda>send_cipher.
     Inr \<lparr>receive_state = \<lparr>ds_cipher = receive_cipher, ds_direction = DIRECTION_SERVER_TO_CLIENT,
            ds_nonce_prefix = server_to_client_nonce_prefix km, ds_sequence = 0\<rparr>,
          send_state = \<lparr>ds_cipher = send_cipher, ds_direction = DIRECTION_CLIENT_TO_SERVER,
            ds_nonce_prefix = client_to_server_nonce_prefix km, ds_sequence = 0\<rparr>,
          transcript_hash = hash\<rparr>))"

definition server_session :: "crypto \<Rightarrow> key_material \<Rightarrow> bytes \<Rightarrow> anyhow + session" where
  "server_session cr km hash =
     try_result (create_cipher cr (client_to_server_key km)) (\<lambda>receive_cipher.
     try_result (create_cipher cr (server_to_client_key km)) (\<lambda>send_cipher.
     Inr \<lparr>receive_state = \<lparr>ds_cipher = receive_cipher, ds_direction = DIRECTION_CLIENT_TO_SERVER,
            ds_nonce_prefix = client_to_server_nonce_prefix km, ds_sequence = 0\<rparr>,
          send_state = \<lparr>ds_cipher = send_cipher, ds_direction = DIRECTION_SERVER_TO_CLIENT,
            ds_nonce_prefix = server_to_client_nonce_prefix km, ds_sequence = 0\<rparr>,
          transcript_hash = hash\<rparr>))"

text \<open>The calls a side makes on the session it has just built; it returns that session.\<close>

definition with_session :: "session \<Rightarrow> (unit, session \<times> 'w) async \<Rightarrow> (session, 'w) async" where
  "with_session ss m w =
     (case m (ss, w) of
        (Ret _, (ss', w')) \<Rightarrow> (Ret ss', w')
      | (Fail e, (ss', w')) \<Rightarrow> (Fail e, w')
      | (Pending, (ss', w')) \<Rightarrow> (Pending, w'))"

definition hello_of_client :: "crypto \<Rightarrow> bytes \<Rightarrow> bytes \<Rightarrow> bytes \<Rightarrow> bytes \<Rightarrow> client_hello" where
  "hello_of_client cr identity_private ephemeral_private client_nonce server_identity =
     (let client_identity = identity_public cr identity_private;
          client_ephemeral = ephemeral_public cr ephemeral_private;
          signature_message =
            client_signature_message client_ephemeral client_identity client_nonce server_identity in
      \<lparr>ch_ephemeral_public_key = client_ephemeral, ch_identity_public_key = client_identity,
       ch_nonce = client_nonce, ch_signature = identity_sign cr identity_private signature_message\<rparr>)"

text \<open>What the client makes of the server's hello: checks, then the session keys.\<close>

definition client_accept ::
  "crypto \<Rightarrow> bytes \<Rightarrow> bytes \<Rightarrow> bytes \<Rightarrow> bytes \<Rightarrow> server_hello \<Rightarrow> anyhow + session" where
  "client_accept cr client_identity ephemeral_private client_nonce pinned hello =
     (let client_ephemeral = ephemeral_public cr ephemeral_private in
      if sh_identity_public_key hello \<noteq> pinned then Inl err_server_identity
      else
        try_result (verify_signature cr (sh_identity_public_key hello)
          (server_signature_message client_ephemeral client_identity client_nonce
             (sh_ephemeral_public_key hello) (sh_identity_public_key hello) (sh_nonce hello))
          (sh_signature hello)) (\<lambda>_.
        let shared_secret = diffie_hellman cr ephemeral_private (sh_ephemeral_public_key hello) in
        if \<not> was_contributory cr shared_secret then Inl err_contributory
        else
          (let hash = handshake_transcript_hash (sha256 cr) client_ephemeral client_identity client_nonce
                 (sh_ephemeral_public_key hello) (sh_identity_public_key hello) (sh_nonce hello) in
           try_result (derive_key_material (hkdf_sha256 cr) shared_secret hash) (\<lambda>km.
           client_session cr km hash))))"

definition client_finish ::
  "crypto \<Rightarrow> (bytes \<Rightarrow> (receive_result \<times> bytes, 'w) async) \<Rightarrow> (bytes \<Rightarrow> (unit, 'w) async)
    \<Rightarrow> (unit, session \<times> 'w) async" where
  "client_finish cr recv send =
     and_then (secure_receive cr recv) (\<lambda>server_finished.
     and_then (require (server_finished = SERVER_FINISHED) err_server_confirmation) (\<lambda>_.
     secure_send cr send CLIENT_FINISHED))"

definition client ::
  "crypto \<Rightarrow> (bytes \<Rightarrow> (receive_result \<times> bytes, 'w) async) \<Rightarrow> (bytes \<Rightarrow> (unit, 'w) async)
    \<Rightarrow> bytes \<Rightarrow> string + bytes \<Rightarrow> bytes \<Rightarrow> bytes \<Rightarrow> (session, 'w) async" where
  "client cr recv send ephemeral_private random identity_private pinned =
     and_then (check (random_handshake_nonce random)) (\<lambda>client_nonce.
     let client_hello = hello_of_client cr identity_private ephemeral_private client_nonce pinned in
     and_then (write_frame send (encode_client_hello client_hello)) (\<lambda>_.
     and_then (read_frame recv) (\<lambda>frame.
     and_then (check (decode_server_hello frame)) (\<lambda>server_hello.
     and_then (check (client_accept cr (identity_public cr identity_private) ephemeral_private
                        client_nonce pinned server_hello)) (\<lambda>ss.
     with_session ss (client_finish cr recv send))))))"

definition server_check :: "crypto \<Rightarrow> bytes \<Rightarrow> bytes \<Rightarrow> client_hello \<Rightarrow> anyhow + unit" where
  "server_check cr server_identity pinned hello =
     (if ch_identity_public_key hello \<noteq> pinned then Inl err_client_identity
      else verify_signature cr (ch_identity_public_key hello)
             (client_signature_message (ch_ephemeral_public_key hello) (ch_identity_public_key hello)
                (ch_nonce hello) server_identity)
             (ch_signature hello))"

definition hello_of_server :: "crypto \<Rightarrow> bytes \<Rightarrow> bytes \<Rightarrow> bytes \<Rightarrow> client_hello \<Rightarrow> server_hello" where
  "hello_of_server cr identity_private ephemeral_private server_nonce hello =
     (let server_identity = identity_public cr identity_private;
          server_ephemeral = ephemeral_public cr ephemeral_private;
          signature_message =
            server_signature_message (ch_ephemeral_public_key hello) (ch_identity_public_key hello)
              (ch_nonce hello) server_ephemeral server_identity server_nonce in
      \<lparr>sh_ephemeral_public_key = server_ephemeral, sh_identity_public_key = server_identity,
       sh_nonce = server_nonce, sh_signature = identity_sign cr identity_private signature_message\<rparr>)"

definition server_accept ::
  "crypto \<Rightarrow> bytes \<Rightarrow> bytes \<Rightarrow> bytes \<Rightarrow> client_hello \<Rightarrow> anyhow + session" where
  "server_accept cr server_identity ephemeral_private server_nonce hello =
     (let server_ephemeral = ephemeral_public cr ephemeral_private;
          shared_secret = diffie_hellman cr ephemeral_private (ch_ephemeral_public_key hello) in
      if \<not> was_contributory cr shared_secret then Inl err_contributory
      else
        (let hash = handshake_transcript_hash (sha256 cr) (ch_ephemeral_public_key hello)
               (ch_identity_public_key hello) (ch_nonce hello) server_ephemeral server_identity server_nonce in
         try_result (derive_key_material (hkdf_sha256 cr) shared_secret hash) (\<lambda>km.
         server_session cr km hash)))"

definition server_finish ::
  "crypto \<Rightarrow> (bytes \<Rightarrow> (receive_result \<times> bytes, 'w) async) \<Rightarrow> (bytes \<Rightarrow> (unit, 'w) async)
    \<Rightarrow> (unit, session \<times> 'w) async" where
  "server_finish cr recv send =
     and_then (secure_send cr send SERVER_FINISHED) (\<lambda>_.
     and_then (secure_receive cr recv) (\<lambda>client_finished.
     require (client_finished = CLIENT_FINISHED) err_client_confirmation))"

definition server ::
  "crypto \<Rightarrow> (bytes \<Rightarrow> (receive_result \<times> bytes, 'w) async) \<Rightarrow> (bytes \<Rightarrow> (unit, 'w) async)
    \<Rightarrow> bytes \<Rightarrow> string + bytes \<Rightarrow> bytes \<Rightarrow> bytes \<Rightarrow> (session, 'w) async" where
  "server cr recv send ephemeral_private random pinned identity_private =
     and_then (read_frame recv) (\<lambda>frame.
     and_then (check (decode_client_hello frame)) (\<lambda>client_hello.
     and_then (check (server_check cr (identity_public cr identity_private) pinned client_hello)) (\<lambda>_.
     and_then (check (random_handshake_nonce random)) (\<lambda>server_nonce.
     let server_hello = hello_of_server cr identity_private ephemeral_private server_nonce client_hello in
     and_then (write_frame send (encode_server_hello server_hello)) (\<lambda>_.
     and_then (check (server_accept cr (identity_public cr identity_private) ephemeral_private
                        server_nonce client_hello)) (\<lambda>ss.
     with_session ss (server_finish cr recv send)))))))"

section \<open>What a returned session rests on\<close>

lemma verify_signature_Inr:
  "verify_signature cr pk m s = Inr u \<longleftrightarrow>
     (\<exists>vk sig. verifying_key_from_bytes cr pk = Inr vk \<and> signature_from_slice cr s = Some sig \<and> verify cr vk m sig)"
  by (auto simp: verify_signature_def split: sum.splits option.splits if_splits)

lemma client_session_Inr:
  "client_session cr km hash = Inr ss \<Longrightarrow> ss =
     \<lparr>receive_state = \<lparr>ds_cipher = server_to_client_key km, ds_direction = DIRECTION_SERVER_TO_CLIENT,
        ds_nonce_prefix = server_to_client_nonce_prefix km, ds_sequence = 0\<rparr>,
      send_state = \<lparr>ds_cipher = client_to_server_key km, ds_direction = DIRECTION_CLIENT_TO_SERVER,
        ds_nonce_prefix = client_to_server_nonce_prefix km, ds_sequence = 0\<rparr>, transcript_hash = hash\<rparr>"
  by (auto simp: client_session_def create_cipher_def split: if_splits)

lemma server_session_Inr:
  "server_session cr km hash = Inr ss \<Longrightarrow> ss =
     \<lparr>receive_state = \<lparr>ds_cipher = client_to_server_key km, ds_direction = DIRECTION_CLIENT_TO_SERVER,
        ds_nonce_prefix = client_to_server_nonce_prefix km, ds_sequence = 0\<rparr>,
      send_state = \<lparr>ds_cipher = server_to_client_key km, ds_direction = DIRECTION_SERVER_TO_CLIENT,
        ds_nonce_prefix = server_to_client_nonce_prefix km, ds_sequence = 0\<rparr>, transcript_hash = hash\<rparr>"
  by (auto simp: server_session_def create_cipher_def split: if_splits)

lemma client_accept_Inr:
  assumes "client_accept cr ci ec nc pinned hello = Inr ss"
  defines "tr \<equiv> handshake_transcript_hash (sha256 cr) (ephemeral_public cr ec) ci nc
    (sh_ephemeral_public_key hello) pinned (sh_nonce hello)"
  shows "sh_identity_public_key hello = pinned
    \<and> verify_signature cr pinned (server_signature_message (ephemeral_public cr ec) ci nc
         (sh_ephemeral_public_key hello) pinned (sh_nonce hello)) (sh_signature hello) = Inr ()
    \<and> was_contributory cr (diffie_hellman cr ec (sh_ephemeral_public_key hello))
    \<and> (\<exists>km. derive_key_material (hkdf_sha256 cr) (diffie_hellman cr ec (sh_ephemeral_public_key hello)) tr = Inr km
         \<and> client_session cr km tr = Inr ss)"
  using assms(1) by (auto simp: client_accept_def Let_def try_result_Inr_iff tr_def split: if_splits)

lemma server_accept_Inr:
  assumes "server_accept cr si es ns hello = Inr ss"
  defines "tr \<equiv> handshake_transcript_hash (sha256 cr) (ch_ephemeral_public_key hello)
    (ch_identity_public_key hello) (ch_nonce hello) (ephemeral_public cr es) si ns"
  shows "was_contributory cr (diffie_hellman cr es (ch_ephemeral_public_key hello))
    \<and> (\<exists>km. derive_key_material (hkdf_sha256 cr) (diffie_hellman cr es (ch_ephemeral_public_key hello)) tr = Inr km
         \<and> server_session cr km tr = Inr ss)"
  using assms(1) by (auto simp: server_accept_def Let_def try_result_Inr_iff tr_def split: if_splits)

lemma with_session_RetE:
  assumes "with_session ss m w = (Ret ss', w')"
  obtains u where "m (ss, w) = (Ret u, (ss', w'))"
  using assms by (auto simp: with_session_def split: prod.splits outcome.splits)

lemma require_Ret [simp]: "require b e w = (Ret u, w') \<longleftrightarrow> b \<and> w' = w"
  by (auto simp: require_def)

lemma random_nonce_Inr [simp]: "random_handshake_nonce r = Inr n \<longleftrightarrow> r = Inr n"
  by (auto simp: random_handshake_nonce_def split: sum.splits)

lemma secure_send_RetD:
  "secure_send cr send p (ss, w) = (Ret u, (ss', w')) \<Longrightarrow>
     \<exists>f n. seal cr (transcript_hash ss) (send_state ss) p = Inr (f, n) \<and> ss' = set_send_sequence n ss"
  by (auto simp: secure_send_def split: sum.splits prod.splits outcome.splits)

lemma secure_receive_RetD:
  "secure_receive cr recv (ss, w) = (Ret p, (ss', w')) \<Longrightarrow>
     \<exists>f n. unseal cr (transcript_hash ss) (receive_state ss) f = Inr (p, n) \<and> ss' = set_receive_sequence n ss"
  by (auto simp: secure_receive_def split: sum.splits prod.splits outcome.splits)

text \<open>A client that returns accepted one server hello, opened the server's confirmation and sent its own.\<close>

lemma client_RetE:
  assumes "client cr recv send ec random ic pinned w = (Ret ss, w')"
  obtains nc hello ss0 f n g m where "random = Inr nc" "server_hello_wf hello"
    "client_accept cr (identity_public cr ic) ec nc pinned hello = Inr ss0"
    "unseal cr (transcript_hash ss0) (receive_state ss0) f = Inr (SERVER_FINISHED, n)"
    "seal cr (transcript_hash ss0) (send_state ss0) CLIENT_FINISHED = Inr (g, m)"
    "ss = set_send_sequence m (set_receive_sequence n ss0)"
proof -
  from assms obtain nc frame hello ss0 w1 where nc: "random = Inr nc"
    and d: "decode_server_hello frame = Inr hello"
    and acc: "client_accept cr (identity_public cr ic) ec nc pinned hello = Inr ss0"
    and fin: "with_session ss0 (client_finish cr recv send) w1 = (Ret ss, w')"
    unfolding client_def Let_def by (elim and_then_RetE) auto
  from fin obtain u where "client_finish cr recv send (ss0, w1) = (Ret u, (ss, w'))"
    by (rule with_session_RetE)
  then obtain s2 w2 where r: "secure_receive cr recv (ss0, w1) = (Ret SERVER_FINISHED, (s2, w2))"
    and s: "secure_send cr send CLIENT_FINISHED (s2, w2) = (Ret u, (ss, w'))"
    unfolding client_finish_def by (elim and_then_RetE) auto
  from secure_receive_RetD [OF r] obtain f n where
    f: "unseal cr (transcript_hash ss0) (receive_state ss0) f = Inr (SERVER_FINISHED, n)"
    and s2: "s2 = set_receive_sequence n ss0" by blast
  from secure_send_RetD [OF s] s2 obtain g m where
    g: "seal cr (transcript_hash ss0) (send_state ss0) CLIENT_FINISHED = Inr (g, m)"
      "ss = set_send_sequence m s2" by auto
  from d have "server_hello_wf hello" by (simp add: server_codec.decode_iff)
  with that nc acc f g s2 show ?thesis by blast
qed

lemma server_RetE:
  assumes "server cr recv send es random pinned ips w = (Ret ss, w')"
  obtains ns hello ss0 f n g m where "random = Inr ns" "client_hello_wf hello"
    "server_check cr (identity_public cr ips) pinned hello = Inr ()"
    "server_accept cr (identity_public cr ips) es ns hello = Inr ss0"
    "seal cr (transcript_hash ss0) (send_state ss0) SERVER_FINISHED = Inr (g, m)"
    "unseal cr (transcript_hash ss0) (receive_state ss0) f = Inr (CLIENT_FINISHED, n)"
    "ss = set_receive_sequence n (set_send_sequence m ss0)"
proof -
  from assms obtain ns frame hello ss0 w1 where ns: "random = Inr ns"
    and d: "decode_client_hello frame = Inr hello"
    and chk: "server_check cr (identity_public cr ips) pinned hello = Inr ()"
    and acc: "server_accept cr (identity_public cr ips) es ns hello = Inr ss0"
    and fin: "with_session ss0 (server_finish cr recv send) w1 = (Ret ss, w')"
    unfolding server_def Let_def by (elim and_then_RetE) auto
  from fin obtain u where "server_finish cr recv send (ss0, w1) = (Ret u, (ss, w'))"
    by (rule with_session_RetE)
  then obtain v s2 w2 where s: "secure_send cr send SERVER_FINISHED (ss0, w1) = (Ret v, (s2, w2))"
    and r: "secure_receive cr recv (s2, w2) = (Ret CLIENT_FINISHED, (ss, w'))"
    unfolding server_finish_def by (elim and_then_RetE) auto
  from secure_send_RetD [OF s] obtain g m where
    g: "seal cr (transcript_hash ss0) (send_state ss0) SERVER_FINISHED = Inr (g, m)"
      "s2 = set_send_sequence m ss0" by blast
  from secure_receive_RetD [OF r] g(2) obtain f n where
    f: "unseal cr (transcript_hash ss0) (receive_state ss0) f = Inr (CLIENT_FINISHED, n)"
      "ss = set_receive_sequence n s2" by auto
  from d have "client_hello_wf hello" by (simp add: client_codec.decode_iff)
  with that ns chk acc f g show ?thesis by blast
qed

section \<open>Runs that complete\<close>

lemma hello_frame:
  "client_hello_wf h \<Longrightarrow> frame_ok (encode_client_hello h) \<and> length (encode_client_hello h) = 162"
  "server_hello_wf k \<Longrightarrow> frame_ok (encode_server_hello k) \<and> length (encode_server_hello k) = 162"
  by (auto simp: client_hello_wf_def server_hello_wf_def encode_client_hello_def encode_server_hello_def
      frame_ok_def MAX_FRAME_SIZE_def size_defs)

lemma finished_frame:
  assumes "aead_ok cr" and "seal cr hash st p = Inr (f, n)" and "p = SERVER_FINISHED \<or> p = CLIENT_FINISHED"
  shows "frame_ok f \<and> length f = 58"
proof -
  have "length p = 33" using assms(3) by (auto simp: SERVER_FINISHED_def CLIENT_FINISHED_def ascii_def)
  with seal_frame_size [OF assms(1,2)] show ?thesis by (auto simp: frame_ok_def MAX_FRAME_SIZE_def)
qed

context live_stream
begin

lemma client_run:
  assumes aead: "aead_ok cr" and hc: "client_hello_wf (hello_of_client cr ic ec nc pinned)"
    and hs: "server_hello_wf hs" and acc: "client_accept cr (identity_public cr ic) ec nc pinned hs = Inr ss"
    and f: "unseal cr (transcript_hash ss) (receive_state ss) f = Inr (SERVER_FINISHED, n)"
    and g: "seal cr (transcript_hash ss) (send_state ss) CLIENT_FINISHED = Inr (g, m)"
    and live: "live w" and inc: "incoming w = frame_bytes (encode_server_hello hs) @ frame_bytes f @ rest"
    and fuel: "512 \<le> fuel w"
  shows "\<exists>w'. client cr recv send ec (Inr nc) ic pinned w
      = (Ret (set_send_sequence m (set_receive_sequence n ss)), w') \<and> incoming w' = rest
    \<and> sent w' = sent w @ frame_bytes (encode_client_hello (hello_of_client cr ic ec nc pinned)) @ frame_bytes g
    \<and> live w' \<and> fuel w \<le> fuel w' + 456"
proof -
  let ?hc = "hello_of_client cr ic ec nc pinned"
  have sf: "seal cr (transcript_hash ss) (receive_state ss) SERVER_FINISHED = Inr (f, n)"
    using seal_unseal [OF aead] f by blast
  note lens = hello_frame(1) [OF hc] hello_frame(2) [OF hs] finished_frame [OF aead sf] finished_frame [OF aead g]
  from write_frame_live [OF live, of "encode_client_hello ?hc"] lens fuel obtain w1 where
    w1: "write_frame send (encode_client_hello ?hc) w = (Ret (), w1)" "live w1"
      "sent w1 = sent w @ frame_bytes (encode_client_hello ?hc)" "incoming w1 = incoming w" "fuel w \<le> fuel w1 + 166"
    by (auto simp: FRAME_LENGTH_SIZE_def)
  from read_frame_live [OF w1(2), of "encode_server_hello hs" "frame_bytes f @ rest"] lens w1 inc fuel obtain w2 where
    w2: "read_frame recv w1 = (Ret (encode_server_hello hs), w2)" "live w2" "incoming w2 = frame_bytes f @ rest"
      "sent w2 = sent w1" "fuel w1 \<le> fuel w2 + 166"
    by (auto simp: FRAME_LENGTH_SIZE_def)
  from secure_receive_live [OF w2(2) f _ _ w2(3)] lens w1(5) w2(5) fuel obtain w3 where
    w3: "secure_receive cr recv (ss, w2) = (Ret SERVER_FINISHED, (set_receive_sequence n ss, w3))" "live w3"
      "incoming w3 = rest" "sent w3 = sent w2" "fuel w2 \<le> fuel w3 + 62"
    by (auto simp: FRAME_LENGTH_SIZE_def)
  let ?s3 = "set_receive_sequence n ss"
  from secure_send_live [OF w3(2), of cr ?s3 CLIENT_FINISHED g m] g lens w1(5) w2(5) w3(5) fuel obtain w4 where
    w4: "secure_send cr send CLIENT_FINISHED (?s3, w3) = (Ret (), (set_send_sequence m ?s3, w4))"
      "sent w4 = sent w3 @ frame_bytes g" "incoming w4 = incoming w3" "live w4" "fuel w3 \<le> fuel w4 + 62"
    by (auto simp: FRAME_LENGTH_SIZE_def)
  have "client_finish cr recv send (ss, w2) = (Ret (), (set_send_sequence m ?s3, w4))"
    using w3(1) w4(1) by (simp add: client_finish_def and_then_def require_def)
  with w1(1) w2(1) acc have "client cr recv send ec (Inr nc) ic pinned w = (Ret (set_send_sequence m ?s3), w4)"
    using server_codec.decode_encode [OF hs]
    by (simp add: client_def and_then_def random_handshake_nonce_def with_session_def)
  with w1 w2 w3 w4 show ?thesis by auto
qed

lemma server_run:
  assumes aead: "aead_ok cr" and hc: "client_hello_wf hc"
    and hs: "server_hello_wf (hello_of_server cr ips es ns hc)"
    and chk: "server_check cr (identity_public cr ips) pinned hc = Inr ()"
    and acc: "server_accept cr (identity_public cr ips) es ns hc = Inr ss"
    and g: "seal cr (transcript_hash ss) (send_state ss) SERVER_FINISHED = Inr (g, m)"
    and f: "unseal cr (transcript_hash ss) (receive_state ss) f = Inr (CLIENT_FINISHED, n)"
    and live: "live w" and inc: "incoming w = frame_bytes (encode_client_hello hc) @ frame_bytes f @ rest"
    and fuel: "512 \<le> fuel w"
  shows "\<exists>w'. server cr recv send es (Inr ns) pinned ips w
      = (Ret (set_receive_sequence n (set_send_sequence m ss)), w') \<and> incoming w' = rest
    \<and> sent w' = sent w @ frame_bytes (encode_server_hello (hello_of_server cr ips es ns hc)) @ frame_bytes g
    \<and> live w' \<and> fuel w \<le> fuel w' + 456"
proof -
  let ?hs = "hello_of_server cr ips es ns hc"
  have cf: "seal cr (transcript_hash ss) (receive_state ss) CLIENT_FINISHED = Inr (f, n)"
    using seal_unseal [OF aead] f by blast
  note lens = hello_frame(1) [OF hc] hello_frame(2) [OF hs] finished_frame [OF aead cf] finished_frame [OF aead g]
  from read_frame_live [OF live inc] lens fuel obtain w1 where
    w1: "read_frame recv w = (Ret (encode_client_hello hc), w1)" "live w1" "incoming w1 = frame_bytes f @ rest"
      "sent w1 = sent w" "fuel w \<le> fuel w1 + 166"
    by (auto simp: FRAME_LENGTH_SIZE_def)
  from write_frame_live [OF w1(2), of "encode_server_hello ?hs"] lens w1(5) fuel obtain w2 where
    w2: "write_frame send (encode_server_hello ?hs) w1 = (Ret (), w2)" "live w2"
      "sent w2 = sent w1 @ frame_bytes (encode_server_hello ?hs)" "incoming w2 = incoming w1" "fuel w1 \<le> fuel w2 + 166"
    by (auto simp: FRAME_LENGTH_SIZE_def)
  from secure_send_live [OF w2(2) g] lens w1(5) w2(5) fuel obtain w3 where
    w3: "secure_send cr send SERVER_FINISHED (ss, w2) = (Ret (), (set_send_sequence m ss, w3))" "live w3"
      "sent w3 = sent w2 @ frame_bytes g" "incoming w3 = incoming w2" "fuel w2 \<le> fuel w3 + 62"
    by (auto simp: FRAME_LENGTH_SIZE_def)
  let ?s3 = "set_send_sequence m ss"
  from secure_receive_live [OF w3(2), of cr ?s3 f CLIENT_FINISHED n rest] f lens w1(3,5) w2(4,5) w3(4,5) fuel obtain w4 where
    w4: "secure_receive cr recv (?s3, w3) = (Ret CLIENT_FINISHED, (set_receive_sequence n ?s3, w4))"
      "incoming w4 = rest" "sent w4 = sent w3" "live w4" "fuel w3 \<le> fuel w4 + 62"
    by (auto simp: FRAME_LENGTH_SIZE_def)
  have "server_finish cr recv send (ss, w2) = (Ret (), (set_receive_sequence n ?s3, w4))"
    using w3(1) w4(1) by (simp add: server_finish_def and_then_def require_def)
  with w1(1) w2(1) acc chk have "server cr recv send es (Inr ns) pinned ips w = (Ret (set_receive_sequence n ?s3), w4)"
    using client_codec.decode_encode [OF hc]
    by (simp add: server_def and_then_def random_handshake_nonce_def with_session_def)
  with w1 w2 w3 w4 show ?thesis by auto
qed

end

section \<open>Two honest sides\<close>

lemma honest_hellos_wf:
  assumes "sizes_ok cr" and "length nc = HANDSHAKE_NONCE_SIZE" and "length ns = HANDSHAKE_NONCE_SIZE"
  shows "client_hello_wf (hello_of_client cr ic ec nc pinned) \<and> server_hello_wf (hello_of_server cr ips es ns hc)"
  using assms
  by (simp add: sizes_ok_def client_hello_wf_def server_hello_wf_def hello_of_client_def hello_of_server_def Let_def)

text \<open>Both sides accept the other's hello and build mirrored sessions.\<close>

lemma honest_accept:
  fixes ic nc ips :: bytes
  assumes ok: "crypto_ok cr" and con: "was_contributory cr (diffie_hellman cr ec (ephemeral_public cr es))"
  defines "hc \<equiv> hello_of_client cr ic ec nc (identity_public cr ips)"
  shows "\<exists>cs ss. server_check cr (identity_public cr ips) (identity_public cr ic) hc = Inr ()
    \<and> client_accept cr (identity_public cr ic) ec nc (identity_public cr ips) (hello_of_server cr ips es ns hc) = Inr cs
    \<and> server_accept cr (identity_public cr ips) es ns hc = Inr ss
    \<and> send_state cs = receive_state ss \<and> receive_state cs = send_state ss \<and> transcript_hash cs = transcript_hash ss
    \<and> ds_sequence (send_state cs) = 0 \<and> ds_sequence (send_state ss) = 0
    \<and> direction_ok (send_state cs) \<and> direction_ok (send_state ss)"
proof -
  have sizes: "sizes_ok cr" and hs: "handshake_ok cr" using ok by (auto simp: crypto_ok_def)
  have sig: "verify_signature cr (identity_public cr k) m (identity_sign cr k m) = Inr ()" for k m
  proof -
    from hs obtain vk sig where "verifying_key_from_bytes cr (identity_public cr k) = Inr vk"
      "signature_from_slice cr (identity_sign cr k m) = Some sig" "verify cr vk m sig"
      unfolding handshake_ok_def by blast
    then show ?thesis by (simp add: verify_signature_def)
  qed
  have dh: "diffie_hellman cr es (ephemeral_public cr ec) = diffie_hellman cr ec (ephemeral_public cr es)"
    using hs by (simp add: handshake_ok_def)
  define secret where "secret = diffie_hellman cr ec (ephemeral_public cr es)"
  define tr where "tr = handshake_transcript_hash (sha256 cr) (ephemeral_public cr ec) (identity_public cr ic) nc
    (ephemeral_public cr es) (identity_public cr ips) ns"
  from hs obtain out where out: "hkdf_sha256 cr tr secret session_keys_info HKDF_OUTPUT_SIZE = Some out"
    unfolding handshake_ok_def by blast
  moreover from out sizes have "length out = HKDF_OUTPUT_SIZE" unfolding sizes_ok_def by blast
  ultimately obtain km where km: "derive_key_material (hkdf_sha256 cr) secret tr = Inr km"
    using derive_key_material_eq by blast
  from derive_key_material_Inr [OF km] sizes have wf: "key_material_wf km" unfolding sizes_ok_def by blast
  with hs have cipher: "create_cipher cr (client_to_server_key km) = Inr (client_to_server_key km)"
    "create_cipher cr (server_to_client_key km) = Inr (server_to_client_key km)"
    by (simp_all add: create_cipher_def handshake_ok_def key_material_wf_def)
  show ?thesis
    using con km cipher wf
    by (simp add: hc_def hello_of_client_def hello_of_server_def server_check_def client_accept_def
        server_accept_def Let_def sig dh secret_def [symmetric] tr_def [symmetric] client_session_def
        server_session_def direction_ok_def key_material_wf_def)
qed

end
