(* ===== verification/Transport_Props.thy ===== *)
theory Transport_Props
  imports Conn_Liveness Conn_Seq
begin

text \<open>
  The properties of the connection itself: what any number of tasks sharing one connection can
  and cannot do to the outgoing bytes, to each other and to the OS stream, and what the framing
  layer gets from a connection used by one task.
\<close>

lemma contribution_prefix: "contribution_ok oper p out \<Longrightarrow> \<exists>k. out = take k (data_of oper)"
proof (cases p)
  case (Finished r)
  assume ok: "contribution_ok oper p out"
  then show ?thesis
  proof (cases r)
    case (Inr v)
    with Finished ok show ?thesis by (cases oper) (auto intro: exI [of _ "length out"])
  qed (use Finished in auto)
qed (auto intro: exI [of _ 0])

lemma reachable_contribution:
  "reachable s \<Longrightarrow> i < length (sys_tasks s)
    \<Longrightarrow> contribution_ok (task_op s i) (task_pc s i) (bytes_of i (sys_log s))"
  using reachable_log_inv by (auto simp: log_inv_def)

lemma in_runs_wire:
  "in_runs log order \<Longrightarrow> map snd log = concat (map (\<lambda>i. bytes_of i log) order)"
proof -
  assume "in_runs log order"
  then have "map snd log = map snd (concat (map (\<lambda>i. map (Pair i) (bytes_of i log)) order))"
    by (simp add: in_runs_def)
  then show ?thesis by (simp add: map_concat comp_def)
qed

lemma in_runs_order: "in_runs log order \<Longrightarrow> bytes_of i log \<noteq> [] \<Longrightarrow> i \<in> set order"
proof -
  assume runs: "in_runs log order" and ne: "bytes_of i log \<noteq> []"
  then obtain b where b: "(i, b) \<in> set log"
    by (auto simp: bytes_of_def filter_empty_conv)
  moreover have "set log = set (concat (map (\<lambda>i. map (Pair i) (bytes_of i log)) order))"
    using runs unfolding in_runs_def by metis
  ultimately show ?thesis by auto
qed

section \<open>Concurrent sends\<close>

text \<open>C1: In every interleaving of any number of operations on one connection, the bytes the OS
  stream accepted are the contributions of the writing tasks in some order, each in one piece: no
  byte of one buffer ever lands inside another buffer. A complete send that returned \<open>Ok\<close>
  contributed its whole buffer, and every other task a prefix of its own.\<close>

theorem sends_do_not_interleave:
  assumes "reachable s"
  shows "\<exists>order. distinct order
    \<and> map snd (sys_log s) = concat (map (\<lambda>i. bytes_of i (sys_log s)) order)
    \<and> (\<forall>i < length (sys_tasks s).
         (bytes_of i (sys_log s) \<noteq> [] \<longrightarrow> i \<in> set order)
         \<and> (\<exists>k. bytes_of i (sys_log s) = take k (data_of (task_op s i)))
         \<and> (\<forall>data v. task_op s i \<in> {Send data, SendTimeout data} \<and> task_pc s i = Finished (Inr v)
              \<longrightarrow> bytes_of i (sys_log s) = data))"
proof -
  from reachable_log_inv [OF assms] obtain order where runs: "in_runs (sys_log s) order"
    by (auto simp: log_inv_def)
  have "bytes_of i (sys_log s) = data"
    if "i < length (sys_tasks s)" "task_op s i \<in> {Send data, SendTimeout data}"
      "task_pc s i = Finished (Inr v)" for i data v
    using reachable_contribution [OF assms that(1)] that(2,3) by auto
  moreover have "\<exists>k. bytes_of i (sys_log s) = take k (data_of (task_op s i))"
    if "i < length (sys_tasks s)" for i
    using reachable_contribution [OF assms that] by (rule contribution_prefix)
  ultimately show ?thesis
    using in_runs_wire [OF runs] in_runs_order [OF runs] runs
    by (intro exI [of _ order]) (simp add: in_runs_def)
qed

definition demo_core :: core where
  "demo_core = fst (core_new 7 (Endpoint ''demo'') None (Some (Endpoint ''demo'')) 1)"

definition demo_sys :: sys where
  "demo_sys = sys_init 7 (Endpoint ''demo'') None (Some (Endpoint ''demo'')) 1"

lemma demo_reachable: "sys_run demo_sys as = Some t \<Longrightarrow> reachable t"
  unfolding demo_sys_def by (erule reachable_run) (rule reachable.initial)

lemmas demo_eval =
  demo_sys_def sys_init_def core_new_def next_socket_id_def conn_state_default_def resume_task_def
  drop_task_def drop_future_def Let_def ensure_write_available_def ensure_read_available_def
  ensure_common_io_available_def core_get_stream_def task_op_def task_pc_def bytes_of_def
  core_pause_def core_resume_def cs_pause_def cs_resume_def cs_close_def fail_connection_def
  core_set_eof_def

text \<open>Two senders: the second is queued behind the first, which is cut into two writes.\<close>

definition two_sends :: "action list" where
  "two_sends =
     [Spawn (Send [1, 2]), Spawn (SendTimeout [3]), Resume 0 GateAcquired,
      Resume 0 (WriteDone (Inr 1)), Resume 0 (WriteDone (Inr 1)), Resume 1 GateAcquired,
      Resume 1 (WriteDone (Inr 1))]"

lemma two_sends_run:
  "\<exists>t. sys_run demo_sys two_sends = Some t \<and> reachable t \<and> sys_log t = [(0, 1), (0, 2), (1, 3)]
     \<and> sys_tasks t = [(Send [1, 2], Finished (Inr VUnit)), (SendTimeout [3], Finished (Inr VUnit))]"
proof -
  have "\<exists>t. sys_run demo_sys two_sends = Some t \<and> sys_log t = [(0, 1), (0, 2), (1, 3)]
     \<and> sys_tasks t = [(Send [1, 2], Finished (Inr VUnit)), (SendTimeout [3], Finished (Inr VUnit))]"
    by (simp add: two_sends_def demo_eval start_defs poll_defs gate_defs)
  with demo_reachable show ?thesis by blast
qed

lemma sends_do_not_interleave_witness:
  "\<exists>t order. sys_run demo_sys two_sends = Some t \<and> sys_log t = [(0, 1), (0, 2), (1, 3)] \<and> distinct order
    \<and> map snd (sys_log t) = concat (map (\<lambda>i. bytes_of i (sys_log t)) order)"
  using two_sends_run sends_do_not_interleave by metis

section \<open>Partial progress is reported exactly\<close>

text \<open>C21: When a complete send fails after it has started writing, its error names exactly the
  number of bytes of the buffer that reached the OS stream, whatever stopped it (a close, a failed
  write, a write of zero bytes or the deadline), and that number is short of the buffer.\<close>

theorem send_error_reports_progress:
  assumes "reachable s" and "i < length (sys_tasks s)"
    and "task_pc s i = SendIo data written h \<or> task_pc s i = TimedIo data written h"
    and "sys_step s (Resume i ev) = Some t" and "task_pc t i = Finished (Inl e)"
  shows "\<exists>n < length data. bytes_of i (sys_log t) = take n data
    \<and> (e = err_send_closed n (length data) \<or> e = err_send_zero n (length data)
       \<or> (\<exists>reason. e = err_send_failed n (length data) reason) \<or> e = err_timed_io n (length data))"
proof -
  from assms(4) have "resume_task i ev s = Some t" by simp
  then obtain oper p p' c' where p: "sys_tasks s ! i = (oper, p)"
    and po: "poll p ev (sys_core s) = Some (p', c')"
    and t: "t = \<lparr>sys_core = c', sys_tasks = (sys_tasks s)[i := (oper, p')],
              sys_log = sys_log s @ map (Pair i) (written_by p ev)\<rparr>"
    by (rule resume_taskE)
  from p assms(3) have pc: "p = SendIo data written h \<or> p = TimedIo data written h"
    by (simp add: task_pc_def)
  with reachable_contribution [OF assms(1,2)] p
  have out: "written < length data" "bytes_of i (sys_log s) = take written data"
    by (auto simp: task_pc_def)
  from t assms(2,5) have "p' = Finished (Inl e)" by (simp add: task_pc_def)
  with po pc have "written_by p ev = []
      \<and> (e = err_send_closed written (length data) \<or> e = err_send_zero written (length data)
         \<or> (\<exists>reason. e = err_send_failed written (length data) reason) \<or> e = err_timed_io written (length data))"
    by (auto simp: poll_defs split: poll_splits)
  with out t show ?thesis by (intro exI [of _ written]) simp
qed

lemma send_error_reports_progress_witness:
  "\<exists>s t n. sys_run demo_sys [Spawn (Send [1, 2]), Resume 0 GateAcquired, Resume 0 (WriteDone (Inr 1))] = Some s
     \<and> sys_step s (Resume 0 (WriteDone (Inl ''reset''))) = Some t
     \<and> n < length [1 :: byte, 2] \<and> bytes_of 0 (sys_log t) = take n [1, 2]"
proof -
  let ?run = "[Spawn (Send [1, 2]), Resume 0 GateAcquired, Resume 0 (WriteDone (Inr 1))]"
  have "\<exists>s t. sys_run demo_sys ?run = Some s \<and> task_pc s 0 = SendIo [1, 2] 1 7
      \<and> 0 < length (sys_tasks s) \<and> sys_step s (Resume 0 (WriteDone (Inl ''reset''))) = Some t
      \<and> (\<exists>e. task_pc t 0 = Finished (Inl e))"
    by (simp add: demo_eval start_defs poll_defs gate_defs)
  then obtain s t e where s: "sys_run demo_sys ?run = Some s" and p: "task_pc s 0 = SendIo [1, 2] 1 7"
    and i: "0 < length (sys_tasks s)" and t: "sys_step s (Resume 0 (WriteDone (Inl ''reset''))) = Some t"
    and e: "task_pc t 0 = Finished (Inl e)" by blast
  from send_error_reports_progress [OF demo_reachable [OF s] i disjI1 [OF p] t e] s t show ?thesis by blast
qed



section \<open>Terminal transitions\<close>

text \<open>A finished write shutdown freezes the outgoing stream: as long as the connection was open
  when the shutdown was recorded, nothing that any task does afterwards adds a byte.\<close>

theorem write_shutdown_freezes:
  assumes "reachable s" and "c_write_shutdown (core_state (sys_core s))"
    and "\<not> c_closed (core_state (sys_core s))" and "sys_run s as = Some t"
  shows "sys_log t = sys_log s"
  using frozen_run [OF assms(4)] shutdown_frozen [OF assms(1-3)] by simp

lemma write_shutdown_freezes_witness:
  "\<exists>s t. sys_run demo_sys [Spawn (Send [1]), Spawn ShutdownWrite, Resume 1 GateAcquired] = Some s
     \<and> sys_run s [Resume 0 GateAcquired] = None \<and> sys_run s [Spawn (Send [5]), Resume 1 (ShutdownDone (Inr ())), Resume 0 GateAcquired] = Some t
     \<and> sys_log t = sys_log s"
proof -
  let ?run = "[Spawn (Send [1]), Spawn ShutdownWrite, Resume 1 GateAcquired]"
  let ?more = "[Spawn (Send [5]), Resume 1 (ShutdownDone (Inr ())), Resume 0 GateAcquired]"
  have "\<exists>s t. sys_run demo_sys ?run = Some s \<and> sys_run s [Resume 0 GateAcquired] = None
     \<and> c_write_shutdown (core_state (sys_core s))
     \<and> \<not> c_closed (core_state (sys_core s)) \<and> sys_run s ?more = Some t"
    by (simp add: demo_eval start_defs poll_defs gate_defs)
  with write_shutdown_freezes demo_reachable show ?thesis by blast
qed

text \<open>End of stream is final: once a receive has seen the peer's end of stream, every later
  non-empty receive on any task returns it at once, whatever else happens to the connection in
  between (pauses, failures and closes included).\<close>

theorem eof_is_final:
  assumes "c_peer_sent_eof (core_state (sys_core s))" and "sys_run s as = Some t" and "buffer \<noteq> []"
  shows "start (Receive buffer) (sys_core t) = (Finished (Inr (VReceive EndOfStream buffer)), sys_core t)"
  using run_flags_le [OF assms(2)] assms(1,3) by (simp add: flags_le_def receive_start_def)

lemma eof_is_final_witness:
  "\<exists>s t. sys_run demo_sys [Spawn (Receive [0]), Resume 0 GateAcquired, Resume 0 (ReadDone (Inr []))] = Some s
     \<and> sys_run s [PauseConn, Spawn Close] = Some t \<and> c_closed (core_state (sys_core t))
     \<and> start (Receive [0, 0]) (sys_core t) = (Finished (Inr (VReceive EndOfStream [0, 0])), sys_core t)"
proof -
  let ?run = "[Spawn (Receive [0]), Resume 0 GateAcquired, Resume 0 (ReadDone (Inr []))]"
  have "\<exists>s t. sys_run demo_sys ?run = Some s \<and> c_peer_sent_eof (core_state (sys_core s))
     \<and> sys_run s [PauseConn, Spawn Close] = Some t \<and> c_closed (core_state (sys_core t))"
    by (simp add: demo_eval start_defs poll_defs gate_defs)
  with eof_is_final [where buffer = "[0, 0]"] show ?thesis by blast
qed

text \<open>C23: An I/O failure of any operation (a failed read, write, flush or shutdown, a write of zero bytes, a
  deadline during a write) fails that operation, closes the connection and gives up its stream, and
  in every later state every operation that needs the stream to write is refused as closed and
  every receive ends at once with an error or the end of stream.\<close>

theorem io_failure_is_terminal:
  assumes "reachable s" and "i < length (sys_tasks s)" and "io_failure (task_pc s i) ev"
    and "sys_step s (Resume i ev) = Some t" and "sys_run t as = Some u" and "data \<noteq> []"
  shows "(\<exists>e. task_pc t i = Finished (Inl e))
    \<and> c_closed (core_state (sys_core u)) \<and> core_stream (sys_core u) = None
    \<and> start (Send data) (sys_core u) = (Finished (Inl err_conn_closed), sys_core u)
    \<and> start (SendTimeout data) (sys_core u) = (Finished (Inl err_conn_closed), sys_core u)
    \<and> start (WriteOnce data) (sys_core u) = (Finished (Inl err_conn_closed), sys_core u)
    \<and> start Flush (sys_core u) = (Finished (Inl err_conn_closed), sys_core u)
    \<and> start (Receive data) (sys_core u) \<in>
        {(Finished (Inl err_conn_closed), sys_core u),
         (Finished (Inr (VReceive EndOfStream data)), sys_core u)}"
proof -
  from assms(4) have "resume_task i ev s = Some t" by simp
  then obtain oper p p' c' where p: "sys_tasks s ! i = (oper, p)"
    and po: "poll p ev (sys_core s) = Some (p', c')"
    and t: "t = \<lparr>sys_core = c', sys_tasks = (sys_tasks s)[i := (oper, p')],
              sys_log = sys_log s @ map (Pair i) (written_by p ev)\<rparr>"
    by (rule resume_taskE)
  from io_failure_closes [OF po] assms(3) p
  have fail: "c_closed (core_state (sys_core t))" "\<exists>e. p' = Finished (Inl e)"
    by (auto simp: task_pc_def t)
  have "reachable u" using assms(1,4,5) reachable.step reachable_run by blast
  then have "core_wf (sys_core u)" using reachable_core_inv by (simp add: core_inv_def)
  moreover have closed: "c_closed (core_state (sys_core u))"
    using run_flags_le [OF assms(5)] fail(1) by (simp add: flags_le_def)
  ultimately have "core_stream (sys_core u) = None" by (simp add: core_wf_def)
  moreover have "\<exists>e. task_pc t i = Finished (Inl e)" using fail(2) t assms(2) by (simp add: task_pc_def)
  ultimately show ?thesis
    using closed assms(6)
    by (simp add: start_defs ensure_write_available_def ensure_read_available_def ensure_common_io_available_def)
qed

lemma io_failure_is_terminal_witness:
  "\<exists>s t u. sys_run demo_sys [Spawn Flush, Resume 0 GateAcquired] = Some s
     \<and> sys_step s (Resume 0 (FlushDone (Inl ''broken pipe''))) = Some t
     \<and> sys_run t [ResumeConn] = Some u
     \<and> start (Send [1]) (sys_core u) = (Finished (Inl err_conn_closed), sys_core u)"
proof -
  have "\<exists>s t u. sys_run demo_sys [Spawn Flush, Resume 0 GateAcquired] = Some s
     \<and> 0 < length (sys_tasks s) \<and> io_failure (task_pc s 0) (FlushDone (Inl ''broken pipe''))
     \<and> sys_step s (Resume 0 (FlushDone (Inl ''broken pipe''))) = Some t
     \<and> sys_run t [ResumeConn] = Some u"
    by (simp add: demo_eval start_defs poll_defs gate_defs)
  then obtain s t u where s: "sys_run demo_sys [Spawn Flush, Resume 0 GateAcquired] = Some s"
    and f: "0 < length (sys_tasks s)" "io_failure (task_pc s 0) (FlushDone (Inl ''broken pipe''))"
      "sys_step s (Resume 0 (FlushDone (Inl ''broken pipe''))) = Some t" "sys_run t [ResumeConn] = Some u"
    by blast
  have "[1 :: byte] \<noteq> []" by simp
  from io_failure_is_terminal [OF demo_reachable [OF s] f this] s f show ?thesis by blast
qed

text \<open>C22: Whatever is going on, closing the connection lets everything finish: after \<open>close\<close> there is a
  run that needs nothing from the peer (only cancellations, the write gate and the OS stream's own
  shutdown) in which every pending operation of every task, the close itself included, returns, and
  then the OS stream is released.\<close>

theorem close_drains:
  assumes "reachable s"
  shows "\<exists>as t. sys_run s (Spawn Close # as) = Some t \<and> (\<forall>a \<in> set as. drains a) \<and> all_done t
    \<and> length (sys_tasks t) = Suc (length (sys_tasks s)) \<and> \<not> stream_live t"
proof -
  obtain p c where sp: "start Close (sys_core s) = (p, c)" by (cases "start Close (sys_core s)")
  let ?u = "s\<lparr>sys_core := c, sys_tasks := sys_tasks s @ [(Close, p)]\<rparr>"
  have st: "sys_step s (Spawn Close) = Some ?u" using sp by simp
  from reachable.step [OF assms st] have inv: "core_inv ?u" by (rule reachable_core_inv)
  have "c_closed (core_state (sys_core ?u))"
    using sp by (auto simp: close_start_def cs_close_def core_take_stream_def Let_def split: poll_splits)
  from close_drains_run [OF inv this] obtain as t where "sys_run ?u as = Some t" "\<forall>a \<in> set as. drains a"
    "all_done t" "core_inv t" "c_closed (core_state (sys_core t))"
    "length (sys_tasks t) = length (sys_tasks ?u)" by blast
  with st done_released [of t] show ?thesis by (intro exI [of _ as] exI [of _ t]) simp
qed

lemma close_drains_witness:
  "\<exists>s as t. sys_run demo_sys [Spawn (Receive [0]), Resume 0 GateAcquired, Spawn ShutdownWrite] = Some s
     \<and> \<not> all_done s \<and> sys_run s (Spawn Close # as) = Some t \<and> all_done t \<and> \<not> stream_live t"
proof -
  have "\<exists>s. sys_run demo_sys [Spawn (Receive [0]), Resume 0 GateAcquired, Spawn ShutdownWrite] = Some s
     \<and> \<not> all_done s"
    by (simp add: demo_eval start_defs poll_defs gate_defs all_done_def) (rule exI [of _ 0], simp)
  with close_drains demo_reachable show ?thesis by blast
qed

text \<open>A pending receive, send, write or flush is interruptible by the close alone: in every reachable state
  of a closed connection it can be resumed by the cancelled token, whatever the OS stream does, and it
  then ends with an error, releases its gate and adds nothing to the outgoing bytes.\<close>

theorem close_interrupts_pending:
  assumes "reachable s" and "c_closed (core_state (sys_core s))" and "i < length (sys_tasks s)"
    and "interruptible (task_pc s i)"
  shows "\<exists>t e. sys_step s (Resume i CloseFired) = Some t \<and> task_pc t i = Finished (Inl e)
    \<and> sys_log t = sys_log s \<and> (holds_write (task_pc s i) \<longrightarrow> \<not> core_write_gate (sys_core t))
    \<and> (holds_read (task_pc s i) \<longrightarrow> \<not> core_read_gate (sys_core t))"
proof -
  have inv: "core_inv s" using assms(1) by (rule reachable_core_inv)
  with assms(2) have "core_close_token (sys_core s)" by (simp add: core_inv_def core_wf_def)
  from interrupt_poll [OF assms(4) this] obtain e c' where
    po: "poll (task_pc s i) CloseFired (sys_core s) = Some (Finished (Inl e), c')" by blast
  have "written_by (task_pc s i) CloseFired = []" by (cases "task_pc s i") auto
  moreover have "holds_write (task_pc s i) \<Longrightarrow> core_write_gate (sys_core s)"
    "holds_read (task_pc s i) \<Longrightarrow> core_read_gate (sys_core s)"
    using inv assms(3) by (auto simp: core_inv_def task_pc_def dest: gate_inv_held)
  ultimately show ?thesis
    using po poll_write_gate [OF po] poll_read_gate [OF po] assms(3)
    by (cases "sys_tasks s ! i") (simp add: resume_task_def task_pc_def)
qed

lemma close_interrupts_pending_witness:
  "\<exists>s t e. sys_run demo_sys [Spawn (Receive [0]), Resume 0 GateAcquired, Spawn Close] = Some s
     \<and> sys_step s (Resume 0 CloseFired) = Some t \<and> task_pc t 0 = Finished (Inl e)"
proof -
  have "\<exists>s. sys_run demo_sys [Spawn (Receive [0]), Resume 0 GateAcquired, Spawn Close] = Some s
     \<and> c_closed (core_state (sys_core s)) \<and> 0 < length (sys_tasks s) \<and> interruptible (task_pc s 0)"
    by (simp add: demo_eval start_defs poll_defs gate_defs)
  with close_interrupts_pending demo_reachable show ?thesis by blast
qed

text \<open>In every reachable state the core is well-formed (closed exactly when its stream slot is empty and its
  cancellation token fired, never closed and paused) and each gate is locked exactly when one
  task is inside its direction, never two.\<close>

theorem reachable_core_well_formed:
  assumes "reachable s"
  shows "core_wf (sys_core s)
    \<and> (core_write_gate (sys_core s) \<longleftrightarrow> (\<exists>i < length (sys_tasks s). holds_write (task_pc s i)))
    \<and> (core_read_gate (sys_core s) \<longleftrightarrow> (\<exists>i < length (sys_tasks s). holds_read (task_pc s i)))
    \<and> (\<forall>i < length (sys_tasks s). \<forall>j < length (sys_tasks s).
         holds_write (task_pc s i) \<and> holds_write (task_pc s j)
         \<or> holds_read (task_pc s i) \<and> holds_read (task_pc s j) \<longrightarrow> i = j)"
  using reachable_core_inv [OF assms] unfolding core_inv_def gate_inv_def task_pc_def by blast

lemma reachable_core_well_formed_witness:
  "\<exists>t. sys_run demo_sys two_sends = Some t \<and> core_wf (sys_core t)"
  using two_sends_run reachable_core_well_formed by blast

text \<open>Over any history of \<open>pause\<close>, \<open>resume\<close> and the closing transition on one connection's
  flags, exactly one closing call wins (if there is any), the connection is closed from then on, and
  it is paused exactly when the last pause or resume before any close was a pause.\<close>

theorem connection_lifecycle_history:
  "c_closed (snd (lifecycle_run cs_pause cs_resume cs_close cs conn_state_default)) = (EndCall \<in> set cs)
   \<and> c_paused (snd (lifecycle_run cs_pause cs_resume cs_close cs conn_state_default)) = paused_after False cs
   \<and> fst (lifecycle_run cs_pause cs_resume cs_close cs conn_state_default)
       = (if EndCall \<in> set cs then True # replicate (count_list cs EndCall - 1) False else [])"
  using conn_lifecycle.ended_iff [of cs conn_state_default] conn_lifecycle.paused_run [of conn_state_default cs]
    conn_lifecycle.first_end_wins [of conn_state_default cs]
  by (simp add: conn_state_default_def)

text \<open>The ids that \<open>next_socket_id\<close> hands out one after another, to servers and connections alike,
  differ as long as at most \<open>2 ^ 64\<close> were handed out, from whatever value the counter starts.\<close>

theorem socket_ids_unique:
  assumes "n \<le> 2 ^ 64"
  shows "distinct (socket_ids n counter)"
  using socket_ids_distinct [OF assms] .

lemma socket_ids_unique_witness: "distinct (socket_ids 3 (- 1))"
  by (rule socket_ids_unique) simp

section \<open>Frames over the connection\<close>

text \<open>A frame sent over one connection is received exactly over another, however either stream cuts the
  bytes into chunks: if the receiving side has arrived at the bytes \<open>write_frame\<close> put on the wire,
  \<open>read_frame\<close> returns the payload and leaves exactly what follows the frame.\<close>

theorem frame_transfer:
  assumes "net_live w" and "frame_ok payload" and "length (frame_bytes payload) \<le> net_fuel w"
    and "net_live r" and "length (frame_bytes payload) \<le> net_fuel r"
  shows "\<exists>w'. write_frame conn_send payload w = (Ret (), w')
    \<and> (\<forall>rest. net_in r = drop (length (net_out w)) (net_out w') @ rest \<longrightarrow>
         (\<exists>r'. read_frame conn_receive r = (Ret payload, r') \<and> net_in r' = rest \<and> net_out r' = net_out r))"
proof -
  from conn_writer.write_frame_live [OF assms(1-3)] obtain w' where
    w: "write_frame conn_send payload w = (Ret (), w')" "net_out w' = net_out w @ frame_bytes payload"
    by blast
  with conn_reader.read_frame_live [OF assms(4) _ assms(2,5)] show ?thesis by simp blast
qed

definition demo_net :: "nat list \<Rightarrow> bytes \<Rightarrow> net" where
  "demo_net chunks arrived =
     \<lparr>net_core = demo_core, net_in = arrived, net_sched = map OsProgress chunks, net_out = []\<rparr>"

lemma demo_net_live: "net_live (demo_net chunks arrived)"
  using core_wf_new [of 7 "Endpoint ''demo''" None "Some (Endpoint ''demo'')" 1]
  by (auto simp: net_live_def net_inv_def demo_net_def demo_core_def core_new_def next_socket_id_def
      conn_state_default_def list_all_iff)

lemma demo_net_parts [simp]:
  "net_in (demo_net chunks arrived) = arrived" "net_out (demo_net chunks arrived) = []"
  "net_fuel (demo_net chunks arrived) = length chunks"
  by (simp_all add: demo_net_def net_fuel_def)

lemma frame_transfer_witness:
  "\<exists>w' r'. write_frame conn_send [9, 8] (demo_net [0, 5, 0, 2, 0, 0] []) = (Ret (), w')
     \<and> read_frame conn_receive (demo_net [1, 0, 7, 0, 0, 0] (net_out w' @ [4])) = (Ret [9, 8], r') \<and> net_in r' = [4]"
proof -
  let ?w = "demo_net [0, 5, 0, 2, 0, 0] []" and ?p = "[9, 8] :: bytes"
  have ok: "frame_ok ?p" by (simp add: frame_ok_def MAX_FRAME_SIZE_def)
  have len: "length (frame_bytes ?p) \<le> net_fuel ?w"
      "\<And>a. length (frame_bytes ?p) \<le> net_fuel (demo_net [1, 0, 7, 0, 0, 0] a)"
    by (simp_all add: FRAME_LENGTH_SIZE_def)
  from frame_transfer [OF demo_net_live ok len(1) demo_net_live len(2)] obtain w' where
    w': "write_frame conn_send ?p ?w = (Ret (), w')" by blast
  from frame_transfer [OF demo_net_live ok len(1) demo_net_live len(2), of "net_out w' @ [4]"] w'
  show ?thesis by (metis Pair_inject demo_net_parts(1,2) drop0 list.size(3))
qed

text \<open>C37: What \<open>read_frame\<close> returns over a connection is always a frame the bytes really start with: the
  payload is not empty, is at most 64 MiB, and header and payload are exactly the bytes consumed.\<close>

theorem read_frame_is_prefix:
  assumes "net_inv w" and "read_frame conn_receive w = (Ret payload, w')"
  shows "payload \<noteq> [] \<and> length payload \<le> MAX_FRAME_SIZE
    \<and> net_in w = be_bytes 4 (length payload) @ payload @ net_in w' \<and> net_inv w'"
  using conn_reader.read_frame_sound [OF assms]
  by (simp add: frame_ok_def frame_bytes_def FRAME_LENGTH_SIZE_def)

lemma read_frame_is_prefix_witness:
  "\<exists>w'. read_frame conn_receive (demo_net [0, 1, 9, 0, 0, 0] [0, 0, 0, 2, 9, 8, 7]) = (Ret [9, 8], w')
     \<and> net_inv w' \<and> [0, 0, 0, 2, 9, 8, 7] = be_bytes 4 2 @ [9, 8] @ net_in w'"
proof -
  let ?w = "demo_net [0, 1, 9, 0, 0, 0] [0, 0, 0, 2, 9, 8, 7]"
  have "frame_ok [9, 8]" "net_in ?w = frame_bytes [9, 8] @ [7]" "length (frame_bytes [9, 8 :: byte]) \<le> net_fuel ?w"
    by (simp_all add: frame_ok_def frame_bytes_def MAX_FRAME_SIZE_def FRAME_LENGTH_SIZE_def be_bytes_def)
  from conn_reader.read_frame_live [OF demo_net_live this(2,1,3)] obtain w' where
    r: "read_frame conn_receive ?w = (Ret [9, 8], w')" by blast
  have "length [9, 8 :: byte] = 2" by simp
  with read_frame_is_prefix [OF net_live_inv [OF demo_net_live] r] r show ?thesis
    by (metis append.simps demo_net_parts(1))
qed

text \<open>A frame header that announces nothing or more than 64 MiB is rejected after exactly its four
  bytes, before a buffer of that size is filled, however the header arrives.\<close>

theorem bad_frame_header_rejected:
  assumes "net_live w" and "4 \<le> length (net_in w)" and "4 \<le> net_fuel w"
    and "be_value (take 4 (net_in w)) = 0 \<or> be_value (take 4 (net_in w)) > MAX_FRAME_SIZE"
  shows "\<exists>w'. read_frame conn_receive w =
      (Fail (if be_value (take 4 (net_in w)) = 0 then err_frame_empty
             else err_frame_large (be_value (take 4 (net_in w)))), w')
    \<and> net_in w' = drop 4 (net_in w)"
proof -
  from conn_reader.read_exact_live [OF assms(1), of 4] assms(2,3) obtain w' where
    "read_exact conn_receive 4 w = (Ret (take 4 (net_in w)), w')" "net_in w' = drop 4 (net_in w)"
    by (auto simp: usize_limit_def)
  with assms(2,4) show ?thesis
    by (auto simp: read_frame_def and_then_def FRAME_LENGTH_SIZE_def async_fail_def Let_def)
qed

lemma bad_frame_header_rejected_witness:
  "\<exists>w'. read_frame conn_receive (demo_net [0, 0, 3, 0] [255, 0, 0, 0, 1])
     = (Fail (err_frame_large 4278190080), w') \<and> net_in w' = [1]"
proof -
  let ?w = "demo_net [0, 0, 3, 0] [255, 0, 0, 0, 1]"
  have v: "be_value (take 4 [255, 0, 0, 0, 1]) = 4278190080" by (simp add: be_value_def)
  have "4 \<le> length (net_in ?w)" "4 \<le> net_fuel ?w"
    "be_value (take 4 (net_in ?w)) = 0 \<or> be_value (take 4 (net_in ?w)) > MAX_FRAME_SIZE"
    using v by (simp_all add: MAX_FRAME_SIZE_def)
  from bad_frame_header_rejected [OF demo_net_live this] v show ?thesis by simp
qed

text \<open>A payload that is empty or larger than a frame allows is never sent, and even a failing
  \<open>write_frame\<close> leaves on the wire only a prefix of the one frame it was given.\<close>

theorem write_frame_wire:
  "\<exists>k. net_out (snd (write_frame conn_send payload w)) = net_out w @ take k (frame_bytes payload)
     \<and> (payload = [] \<or> length payload > MAX_FRAME_SIZE \<longrightarrow>
          snd (write_frame conn_send payload w) = w \<and> (\<exists>e. fst (write_frame conn_send payload w) = Fail e))"
proof -
  obtain r w' where "write_frame conn_send payload w = (r, w')" by (cases "write_frame conn_send payload w")
  with conn_writer.write_frame_prefix [OF this] write_frame_not_ok [of payload conn_send w]
  show ?thesis by (auto simp: frame_ok_def not_le)
qed

lemma write_frame_wire_witness:
  "snd (write_frame conn_send [] (demo_net [] [])) = demo_net [] []"
  using write_frame_wire [of "[]" "demo_net [] []"] by blast

end
