(* ===== verification/Secure_Props.thy ===== *)
theory Secure_Props
  imports Handshake Transport_Props
begin

text \<open>
  The properties of the secure layer over a connection: the codecs, the handshake, and the message
  stream of a session under an arbitrary network.
\<close>

section \<open>Wire formats\<close>

text \<open>C35: The hello decoders accept exactly the frames the encoders produce for well-sized fields, so both
  round trips hold, and no frame is accepted as a hello of both sides.\<close>

theorem hello_codec_exact:
  "(decode_client_hello bs = Inr hc \<longleftrightarrow> client_hello_wf hc \<and> bs = encode_client_hello hc)
   \<and> (decode_server_hello bs = Inr hs \<longleftrightarrow> server_hello_wf hs \<and> bs = encode_server_hello hs)
   \<and> \<not> (decode_client_hello bs = Inr hc \<and> decode_server_hello bs = Inr hs)"
proof -
  have "encode_client_hello hc \<noteq> encode_server_hello hs"
    by (simp add: encode_client_hello_def encode_server_hello_def CLIENT_HELLO_def SERVER_HELLO_def)
  then show ?thesis using client_codec.decode_iff server_codec.decode_iff by metis
qed

text \<open>The signed messages and the hashed transcript determine every handshake value they cover: equal bytes
  mean equal identities, ephemeral keys and nonces, and a client signature, a server signature and
  a transcript never cover the same bytes.\<close>

theorem handshake_messages_injective:
  assumes "client_fields_wf e i n" "client_fields_wf e' i' n'" "client_fields_wf f j m" "client_fields_wf f' j' m'"
  shows "(client_signature_message e i n j = client_signature_message e' i' n' j' \<longrightarrow> (e, i, n, j) = (e', i', n', j'))
    \<and> (server_signature_message e i n f j m = server_signature_message e' i' n' f' j' m'
         \<longrightarrow> (e, i, n, f, j, m) = (e', i', n', f', j', m'))
    \<and> (handshake_transcript e i n f j m = handshake_transcript e' i' n' f' j' m'
         \<longrightarrow> (e, i, n, f, j, m) = (e', i', n', f', j', m'))
    \<and> client_signature_message e i n j \<noteq> server_signature_message e' i' n' f' j' m'
    \<and> client_signature_message e i n j \<noteq> handshake_transcript e' i' n' f' j' m'
    \<and> server_signature_message e i n f j m \<noteq> handshake_transcript e' i' n' f' j' m'"
  using client_message_inj [OF assms(1,2), of j j'] server_message_inj [OF assms] transcript_inj [OF assms]
    signature_domains assms(3,4)
  by (simp add: client_fields_wf_def)

lemma handshake_messages_injective_witness:
  "client_signature_message (replicate 32 1) (replicate 32 2) (replicate 32 3) (replicate 32 4)
     \<noteq> server_signature_message (replicate 32 1) (replicate 32 2) (replicate 32 3) (replicate 32 5)
         (replicate 32 4) (replicate 32 6)"
  using handshake_messages_injective [of "replicate 32 1" "replicate 32 2" "replicate 32 3"
      "replicate 32 1" "replicate 32 2" "replicate 32 3" "replicate 32 5" "replicate 32 4" "replicate 32 6"
      "replicate 32 5" "replicate 32 4" "replicate 32 6"]
  by (simp add: client_fields_wf_def size_defs)

text \<open>The two directional keys and nonce prefixes are exactly the derived key material, cut without
  overlap or gap, each with the size its cipher needs.\<close>

theorem key_material_partition:
  assumes "sizes_ok cr" and "derive_key_material (hkdf_sha256 cr) secret hash = Inr km"
  shows "hkdf_sha256 cr hash secret session_keys_info 72
      = Some (client_to_server_key km @ server_to_client_key km
          @ client_to_server_nonce_prefix km @ server_to_client_nonce_prefix km)
    \<and> length (client_to_server_key km) = 32 \<and> length (server_to_client_key km) = 32
    \<and> length (client_to_server_nonce_prefix km) = 4 \<and> length (server_to_client_nonce_prefix km) = 4"
  using derive_key_material_Inr [OF assms(2)] assms(1)
  by (auto simp: sizes_ok_def key_material_wf_def size_defs)

lemma key_material_partition_witness:
  "\<exists>km. derive_key_material (hkdf_sha256 toy) (replicate 32 7) (replicate 32 9) = Inr km
     \<and> hkdf_sha256 toy (replicate 32 9) (replicate 32 7) session_keys_info 72
         = Some (client_to_server_key km @ server_to_client_key km
             @ client_to_server_nonce_prefix km @ server_to_client_nonce_prefix km)"
proof -
  have sizes: "sizes_ok toy" using toy_crypto_ok by (simp add: crypto_ok_def)
  have "\<exists>km. derive_key_material (hkdf_sha256 toy) (replicate 32 7) (replicate 32 9) = Inr km"
    by (rule exI, rule derive_key_material_eq, simp add: toy_def, simp)
  with key_material_partition [OF sizes] show ?thesis by blast
qed

section \<open>The message stream\<close>

lemma wire_length:
  "aead_ok cr \<Longrightarrow> seal_all cr hash st ps = Some frames
    \<Longrightarrow> length (wire frames) = sum_list (map (\<lambda>p. length p + 29) ps)"
proof (induction ps arbitrary: st frames)
  case Nil
  then show ?case by simp
next
  case (Cons p ps)
  then show ?case
    unfolding seal_all_Cons_iff by (auto dest: seal_frame_size simp: FRAME_LENGTH_SIZE_def)
qed

text \<open>Messages sent over a session are received complete and in order by the mirrored session, however
  either connection cuts its bytes into chunks: sending returns, and a peer that gets the sent bytes
  (and anything after them) receives exactly the list of messages.\<close>

theorem secure_messages_transfer:
  assumes "aead_ok cr" and "aead_total cr" and "direction_ok (send_state ss)"
    and "receive_state rs = send_state ss" and "transcript_hash rs = transcript_hash ss"
    and "\<forall>p \<in> set ps. message_ok p" and "unat (ds_sequence (send_state ss)) + length ps < 2 ^ 64"
    and "net_live w" and "sum_list (map (\<lambda>p. length p + 29) ps) \<le> net_fuel w"
  shows "\<exists>ss' w' bytes. send_all cr conn_send ps (ss, w) = (Ret (), (ss', w')) \<and> net_out w' = net_out w @ bytes
    \<and> (\<forall>r rest. net_live r \<and> net_in r = bytes @ rest \<and> sum_list (map (\<lambda>p. length p + 29) ps) \<le> net_fuel r \<longrightarrow>
         (\<exists>rs' r'. receive_all cr conn_receive (length ps) (rs, r) = (Ret ps, (rs', r')) \<and> net_in r' = rest))"
proof -
  from seal_all_total [OF assms(1-3,7,6)] obtain frames where
    f: "seal_all cr (transcript_hash ss) (send_state ss) ps = Some frames" "\<forall>f \<in> set frames. frame_ok f" by blast
  note len = wire_length [OF assms(1) f(1)]
  from conn_writer.send_all_live [OF assms(8) f] len assms(9) obtain ss' w' where
    w: "send_all cr conn_send ps (ss, w) = (Ret (), (ss', w'))" "net_out w' = net_out w @ wire frames" by auto
  have "\<exists>rs' r'. receive_all cr conn_receive (length ps) (rs, r) = (Ret ps, (rs', r')) \<and> net_in r' = rest"
    if "net_live r" "net_in r = wire frames @ rest" "sum_list (map (\<lambda>p. length p + 29) ps) \<le> net_fuel r" for r rest
    using conn_reader.receive_all_live [OF assms(1) that(1), of rs ps frames rest] f that len assms(4,5) by auto
  with w show ?thesis by blast
qed

definition demo_direction :: direction_state where
  "demo_direction = \<lparr>ds_cipher = replicate 32 5, ds_direction = 1, ds_nonce_prefix = [1, 2, 3, 4], ds_sequence = 0\<rparr>"

definition demo_session :: session where
  "demo_session = \<lparr>receive_state = demo_direction, send_state = demo_direction, transcript_hash = replicate 32 9\<rparr>"

lemma demo_session_simps [simp]:
  "send_state demo_session = demo_direction" "receive_state demo_session = demo_direction"
  "direction_ok demo_direction" "ds_sequence demo_direction = 0"
  by (simp_all add: demo_session_def demo_direction_def direction_ok_def size_defs)

lemma demo_cipher: "ds_cipher demo_direction = replicate 32 5"
  by (simp add: demo_direction_def)

lemma demo_at_start [simp]: "at_sequence demo_direction 0 = demo_direction"
  by (simp add: at_sequence_def demo_direction_def)

lemma secure_messages_transfer_witness:
  "\<exists>ss' w' bytes. send_all toy conn_send [[1, 2], []] (demo_session, demo_net (replicate 60 3) []) = (Ret (), (ss', w'))
     \<and> net_out w' = bytes \<and> (\<exists>rs' r'. receive_all toy conn_receive 2 (demo_session, demo_net (replicate 80 1) (bytes @ [7]))
          = (Ret [[1, 2], []], (rs', r')) \<and> net_in r' = [7])"
proof -
  have ok: "\<forall>p \<in> set [[1, 2], [] :: bytes]. message_ok p"
    "unat (ds_sequence (send_state demo_session)) + length [[1, 2], [] :: bytes] < 2 ^ 64"
    "sum_list (map (\<lambda>p. length p + 29) [[1, 2], [] :: bytes]) \<le> net_fuel (demo_net (replicate 60 3) [])"
    "\<And>b. sum_list (map (\<lambda>p. length p + 29) [[1, 2], [] :: bytes]) \<le> net_fuel (demo_net (replicate 80 1) b)"
    "length [[1, 2], [] :: bytes] = 2"
    by (simp_all add: message_ok_def size_defs MAX_FRAME_SIZE_def)
  have same: "receive_state demo_session = send_state demo_session"
    "direction_ok (send_state demo_session)" by simp_all
  from secure_messages_transfer [OF toy_aead same(2,1) refl ok(1,2) demo_net_live ok(3)]
  obtain ss' w' bytes where
    s: "send_all toy conn_send [[1, 2], []] (demo_session, demo_net (replicate 60 3) []) = (Ret (), (ss', w'))"
      "net_out w' = net_out (demo_net (replicate 60 3) []) @ bytes"
    and r: "\<forall>r rest. net_live r \<and> net_in r = bytes @ rest
      \<and> sum_list (map (\<lambda>p. length p + 29) [[1, 2], [] :: bytes]) \<le> net_fuel r \<longrightarrow>
         (\<exists>rs' r'. receive_all toy conn_receive (length [[1, 2], [] :: bytes]) (demo_session, r)
            = (Ret [[1, 2], []], (rs', r')) \<and> net_in r' = rest)"
    by blast
  from r ok(4,5) demo_net_live
  have "\<exists>rs' r'. receive_all toy conn_receive 2 (demo_session, demo_net (replicate 80 1) (bytes @ [7]))
     = (Ret [[1, 2], []], (rs', r')) \<and> net_in r' = [7]"
    by (metis demo_net_parts(1))
  with s show ?thesis by auto
qed


text \<open>A delivery of the two sealed frames in order is unforged for a cipher that only opens what was sealed.\<close>

definition strict_toy :: crypto where
  "strict_toy = toy\<lparr>
     aead_encrypt := (\<lambda>k n a p. if p = [1, 2] then Some (p @ toy_tag k n a p) else None),
     aead_decrypt := (\<lambda>k n a c. if c = [1, 2] @ toy_tag k n a [1, 2] then Some [1, 2] else None)\<rparr>"

lemma strict_toy_aead: "aead_ok strict_toy"
  by (auto simp: aead_ok_def strict_toy_def AEAD_TAG_SIZE_def split: if_splits)

definition demo_frame :: "u64 \<Rightarrow> bytes" where
  "demo_frame i =
     VERSION # seq_bytes i @ [1, 2] @ toy_tag (replicate 32 5) (message_nonce (at_sequence demo_direction i))
       (message_aad (replicate 32 9) (at_sequence demo_direction i)) [1, 2]"

lemma demo_seal:
  "i \<noteq> - 1 \<Longrightarrow> seal strict_toy (replicate 32 9) (at_sequence demo_direction i) [1, 2] = Inr (demo_frame i, i + 1)"
  by (auto simp: seal_Inr_iff strict_toy_def demo_frame_def demo_direction_def)

lemma demo_unseal:
  "unseal strict_toy (replicate 32 9) (at_sequence demo_direction i) f = Inr (p, n)
    \<Longrightarrow> p = [1, 2] \<and> f = demo_frame i"
  by (auto simp: unseal_Inr_iff strict_toy_def demo_frame_def demo_direction_def split: if_splits)

lemma length_demo_frame: "length (demo_frame i) = 27"
  by (simp add: demo_frame_def)

lemma demo_frame_inj: "demo_frame i = demo_frame j \<Longrightarrow> i = j"
  by (auto simp: demo_frame_def dest: seq_bytes_inj)

text \<open>The frames inside a delivery of one sealed frame.\<close>

lemma single_delivery:
  assumes "sublist (frame_bytes (demo_frame i)) (frame_bytes (demo_frame j))"
  shows "i = j"
proof -
  from assms obtain a b where "frame_bytes (demo_frame j) = a @ frame_bytes (demo_frame i) @ b"
    by (auto simp: sublist_def)
  moreover from this have "length (a @ b) = 0"
    using length_frame_bytes [of "demo_frame j"] by (simp add: length_demo_frame)
  ultimately have "frame_bytes (demo_frame j) = frame_bytes (demo_frame i)" by simp
  then show ?thesis using length_demo_frame demo_frame_inj by (simp add: frame_bytes_def)
qed


text \<open>Every message that is sent completely is encrypted under a nonce of its own: over one direction
  of a session the nonces of the messages sent are all different, and each frame carries the
  encryption under exactly its nonce and its sequence number.\<close>

theorem sent_nonces_distinct:
  assumes "net_inv w" and "direction_ok (send_state ss)"
    and "send_all cr conn_send ps (ss, w) = (Ret u, (ss', w'))"
  shows "\<exists>frames. net_out w' = net_out w @ wire frames \<and> length frames = length ps
    \<and> distinct (map (\<lambda>j. message_nonce (at_sequence (send_state ss) (ds_sequence (send_state ss) + of_nat j)))
          [0..<length ps])
    \<and> (\<forall>j < length ps. \<exists>c. aead_encrypt cr (ds_cipher (send_state ss))
          (message_nonce (at_sequence (send_state ss) (ds_sequence (send_state ss) + of_nat j)))
          (message_aad (transcript_hash ss) (at_sequence (send_state ss) (ds_sequence (send_state ss) + of_nat j)))
          (ps ! j) = Some c
        \<and> frames ! j = VERSION # seq_bytes (ds_sequence (send_state ss) + of_nat j) @ c)"
proof -
  let ?st = "send_state ss"
  from conn_writer.send_all_sound [OF assms(1,3)] obtain frames where
    all: "seal_all cr (transcript_hash ss) ?st ps = Some frames" and out: "net_out w' = net_out w @ wire frames" by blast
  from seal_all_nth [OF all] have len: "length frames = length ps" "unat (ds_sequence ?st) + length ps < 2 ^ 64" by auto
  have "i = j" if "i < length ps" "j < length ps"
    "message_nonce (at_sequence ?st (ds_sequence ?st + of_nat i)) = message_nonce (at_sequence ?st (ds_sequence ?st + of_nat j))" for i j
  proof -
    from that(3) assms(2) have "ds_sequence ?st + of_nat i = ds_sequence ?st + (of_nat j :: u64)"
      by (auto simp: message_nonce_def direction_ok_def dest!: make_nonce_inj seq_bytes_inj)
    with that(1,2) len(2) show ?thesis by (simp add: word_of_nat_eq_iff take_bit_nat_eq_self)
  qed
  then have "distinct (map (\<lambda>j. message_nonce (at_sequence ?st (ds_sequence ?st + of_nat j))) [0..<length ps])"
    by (auto simp: distinct_map inj_on_def)
  with out len seal_all_nth [OF all] show ?thesis by (fastforce simp: seal_Inr_iff)
qed

lemma sent_nonces_distinct_witness:
  "\<exists>ss' w' frames. send_all toy conn_send [[1], [2]] (demo_session, demo_net (replicate 60 9) []) = (Ret (), (ss', w'))
     \<and> net_out w' = wire frames \<and> length frames = 2"
proof -
  have "\<forall>p \<in> set [[1], [2] :: bytes]. message_ok p" by (simp add: message_ok_def size_defs MAX_FRAME_SIZE_def)
  then obtain frames where f: "seal_all toy (transcript_hash demo_session) (send_state demo_session) [[1], [2]] = Some frames"
      "\<forall>f \<in> set frames. frame_ok f"
    using seal_all_total [OF toy_aead, of "send_state demo_session" "[[1], [2]]"] by auto
  have "length (wire frames) \<le> net_fuel (demo_net (replicate 60 9) [])"
    using wire_length [OF toy_aead(1) f(1)] by simp
  from conn_writer.send_all_live [OF demo_net_live f this] obtain ss' w' where
    s: "send_all toy conn_send [[1], [2]] (demo_session, demo_net (replicate 60 9) []) = (Ret (), (ss', w'))" by blast
  from sent_nonces_distinct [OF net_live_inv [OF demo_net_live] _ s] s show ?thesis by auto
qed

text \<open>C34: A send that does not return \<open>Ok\<close> (it failed, or its future was dropped while bytes were already on
  the wire) leaves the sequence where it was: whatever message is sealed next is encrypted with the same
  key, nonce and associated data, although a prefix of the first frame may already have been sent.\<close>

theorem unfinished_send_reuses_nonce:
  assumes "secure_send cr conn_send p (ss, w) = (r, (ss', w'))" and "r \<noteq> Ret ()"
    and "seal cr (transcript_hash ss) (send_state ss) p = Inr (f, n)"
    and "seal cr (transcript_hash ss') (send_state ss') q = Inr (g, m)"
  shows "m = n \<and> (\<exists>k. net_out w' = net_out w @ take k (frame_bytes f))
    \<and> aead_encrypt cr (ds_cipher (send_state ss)) (message_nonce (send_state ss))
         (message_aad (transcript_hash ss) (send_state ss)) p = Some (drop 9 f)
    \<and> aead_encrypt cr (ds_cipher (send_state ss)) (message_nonce (send_state ss))
         (message_aad (transcript_hash ss) (send_state ss)) q = Some (drop 9 g)"
proof -
  from conn_writer.secure_send_fails [OF assms(1)] assms(2) have same: "ss' = ss"
    and out: "w' = w \<or> (\<exists>f n k. seal cr (transcript_hash ss) (send_state ss) p = Inr (f, n)
                  \<and> net_out w' = net_out w @ take k (frame_bytes f))" by auto
  have "net_out w = net_out w @ take 0 (frame_bytes f)" by simp
  with out assms(3) have "\<exists>k. net_out w' = net_out w @ take k (frame_bytes f)"
    by (metis Inr_inject prod.inject)
  with assms(3,4) same show ?thesis by (auto simp: seal_Inr_iff)
qed

lemma partial_conn_send:
  assumes "length data = 31"
  shows "\<exists>w'. conn_send data (demo_net [19] []) = (Pending, w') \<and> net_out w' = take 20 data"
proof -
  have "data \<noteq> []" using assms by auto
  then show ?thesis using assms
    by (simp add: conn_send_eq demo_net_def demo_core_def core_new_def next_socket_id_def conn_state_default_def
        ensure_write_available_def ensure_common_io_available_def core_get_stream_def os_write_def send_io_def
        send_done_def send_loop_def lock_write_def)
qed

lemma unfinished_send_reuses_nonce_witness:
  "\<exists>ss' w' f g n m. secure_send toy conn_send [1, 2] (demo_session, demo_net [19] []) = (Pending, (ss', w'))
     \<and> net_out w' = take 20 (frame_bytes f)
     \<and> seal toy (transcript_hash ss') (send_state ss') [3, 4] = Inr (g, m) \<and> m = n
     \<and> aead_encrypt toy (replicate 32 5) (message_nonce demo_direction)
         (message_aad (transcript_hash demo_session) demo_direction) [1, 2] = Some (drop 9 f)
     \<and> aead_encrypt toy (replicate 32 5) (message_nonce demo_direction)
         (message_aad (transcript_hash demo_session) demo_direction) [3, 4] = Some (drop 9 g)"
proof -
  have "\<exists>f n. seal toy (transcript_hash demo_session) (send_state demo_session) p = Inr (f, n)" for p
    by (simp add: seal_Inr_iff toy_def)
  then obtain f n g m where f: "seal toy (transcript_hash demo_session) (send_state demo_session) [1, 2] = Inr (f, n)"
    and g: "seal toy (transcript_hash demo_session) (send_state demo_session) [3, 4] = Inr (g, m)" by metis
  from seal_frame_size [OF toy_aead(1) f] have ok: "frame_ok f" "length (frame_bytes f) = 31"
    by (auto simp: frame_ok_def MAX_FRAME_SIZE_def FRAME_LENGTH_SIZE_def)
  from partial_conn_send [OF ok(2)] obtain w' where
    w': "conn_send (frame_bytes f) (demo_net [19] []) = (Pending, w')" "net_out w' = take 20 (frame_bytes f)" by blast
  have s: "secure_send toy conn_send [1, 2] (demo_session, demo_net [19] []) = (Pending, (demo_session, w'))"
    using f w'(1) ok(1) by (simp add: secure_send_def write_frame_ok)
  from unfinished_send_reuses_nonce [OF s _ f g] s w'(2) g demo_cipher show ?thesis by fastforce
qed

text \<open>C39: The sequence number never wraps: at its last value a send fails before anything is encrypted or
  written, and no receive can succeed.\<close>

theorem sequence_never_wraps:
  "secure_send cr conn_send p (set_send_sequence (- 1) ss, w)
     = (Fail err_send_exhausted, (set_send_sequence (- 1) ss, w))
   \<and> fst (secure_receive cr conn_receive (set_receive_sequence (- 1) ss, w)) \<noteq> Ret q"
proof -
  have "\<not> (\<exists>f n. unseal cr hash (at_sequence st (- 1)) f = Inr (q, n))" for hash st
    by (simp add: unseal_Inr_iff)
  then have "fst (secure_receive cr conn_receive (set_receive_sequence (- 1) ss, w)) \<noteq> Ret q"
    by (auto simp: secure_receive_def split: prod.splits outcome.splits sum.splits)
  then show ?thesis by (simp add: secure_send_def seal_def u64_succ_eq Let_def)
qed

text \<open>A frame the peer sealed under any other sequence number (a replay, or a later message that overtook
  one) is refused with the error that names both numbers, before it is decrypted, and leaves the
  session as it was.\<close>

theorem other_sequence_refused:
  assumes "aead_ok cr" and "seal cr hash st p = Inr (f, n)" and "read_frame conn_receive w = (Ret f, w')"
    and "ds_sequence (receive_state ss) \<noteq> ds_sequence st"
  shows "secure_receive cr conn_receive (ss, w)
    = (Fail (err_sequence (ds_sequence (receive_state ss)) (ds_sequence st)), (ss, w'))"
  using unseal_other_sequence [OF assms(1,2,4)] assms(3) by (simp add: secure_receive_def)

lemma other_sequence_refused_witness:
  "\<exists>w'. secure_receive strict_toy conn_receive (demo_session, demo_net (replicate 40 2) (frame_bytes (demo_frame 1)))
     = (Fail (err_sequence 0 1), (demo_session, w'))"
proof -
  let ?w = "demo_net (replicate 40 2) (frame_bytes (demo_frame 1))"
  have "frame_ok (demo_frame 1)" "net_in ?w = frame_bytes (demo_frame 1) @ []"
    "length (frame_bytes (demo_frame 1)) \<le> net_fuel ?w"
    using length_demo_frame [of 1] by (auto simp: frame_ok_def MAX_FRAME_SIZE_def FRAME_LENGTH_SIZE_def)
  from conn_reader.read_frame_live [OF demo_net_live this(2,1,3)] obtain w' where
    r: "read_frame conn_receive ?w = (Ret (demo_frame 1), w')" by blast
  have s: "seal strict_toy (replicate 32 9) (at_sequence demo_direction 1) [1, 2] = Inr (demo_frame 1, 1 + 1)"
    by (rule demo_seal) simp
  from other_sequence_refused [OF strict_toy_aead s r, of demo_session] show ?thesis by simp
qed

end
