(* ===== verification/Conn_Refine.thy ===== *)
theory Conn_Refine
  imports Secure_Props
begin

text \<open>
  The two views of a connection agree. \<open>Conn_Tasks\<close> runs any number of calls on one core in any interleaving;
  \<open>Conn_Seq\<close> runs one call to its end against a network, which is what frames, handshake and secure
  channel are built on. Every sequential call is a run of the concurrent system: the same core, the same bytes
  written and read, the same outcome. So the invariants of the concurrent system hold under the secure
  layer too, and the locales of the byte stream are interpreted once more with that as their invariant.
\<close>

text \<open>The bytes an event takes from the peer.\<close>

fun read_of :: "event \<Rightarrow> bytes" where
  "read_of (ReadDone (Inr bs)) = bs"
| "read_of ev = []"

text \<open>Where a call ended: its answer, or still suspended.\<close>

fun outcome_pc :: "reply outcome \<Rightarrow> pc \<Rightarrow> bool" where
  "outcome_pc (Ret v) p \<longleftrightarrow> p = Finished (Inr v)"
| "outcome_pc (Fail e) p \<longleftrightarrow> p = Finished (Inl e)"
| "outcome_pc Pending p \<longleftrightarrow> \<not> (\<exists>r. p = Finished r)"

lemma os_answer_read: "os_answer p e arrived = Some (ev, arrived') \<Longrightarrow> arrived = read_of ev @ arrived'"
  by (cases p; cases e) (auto simp: os_read_def os_write_def Let_def split: if_splits)

lemma resume_nth:
  assumes "i < length (sys_tasks s)" and "sys_tasks s ! i = (oper, p)" and "poll p ev (sys_core s) = Some (p', c')"
  shows "sys_step s (Resume i ev) = Some \<lparr>sys_core = c', sys_tasks = (sys_tasks s)[i := (oper, p')],
     sys_log = sys_log s @ map (Pair i) (written_by p ev)\<rparr>"
  using assms by (simp add: resume_task_def)

text \<open>What a run of one task says of the system; \<open>run_stays\<close> is the run of no step.\<close>

definition run_refines ::
  "sys \<Rightarrow> nat \<Rightarrow> operation \<Rightarrow> bytes \<Rightarrow> bytes \<Rightarrow> reply outcome \<Rightarrow> net \<Rightarrow> bool" where
  "run_refines s i oper arrived out r w' \<longleftrightarrow> (\<exists>evs t. sys_run s (map (Resume i) evs) = Some t \<and> sys_core t = net_core w'
    \<and> (\<exists>new. sys_log t = sys_log s @ map (Pair i) new \<and> net_out w' = out @ new)
    \<and> arrived = concat (map read_of evs) @ net_in w'
    \<and> i < length (sys_tasks t) \<and> task_op t i = oper \<and> outcome_pc r (task_pc t i))"

lemma run_stays:
  assumes "i < length (sys_tasks s)" and "sys_tasks s ! i = (oper, p)"
    and "net_core w' = sys_core s" and "net_in w' = arrived" and "net_out w' = out" and "outcome_pc r p"
  shows "run_refines s i oper arrived out r w'"
  unfolding run_refines_def using assms
  by (intro exI [of _ "[]"] exI [of _ s]) (simp add: task_pc_def task_op_def)

lemma outcome_pc_finished: "outcome_pc (reply_outcome q) (Finished q)"
  by (cases q) simp_all

lemma drive_refines:
  assumes "i < length (sys_tasks s)" and "sys_tasks s ! i = (oper, p)"
    and "drive es p (sys_core s) arrived out = (r, w')"
  shows "run_refines s i oper arrived out r w'"
  using assms
proof (induction es arbitrary: s p arrived out)
  case Nil
  then show ?case by (cases p) (auto intro!: run_stays outcome_pc_finished)
next
  case (Cons e es)
  show ?case
  proof (cases "(\<nexists>q. p = Finished q) \<and>
      (\<exists>ev arrived' p' c'. os_answer p e arrived = Some (ev, arrived') \<and> poll p ev (sys_core s) = Some (p', c'))")
    case False
    with Cons.prems show ?thesis
      by (cases p) (auto intro!: run_stays outcome_pc_finished split: option.splits)
  next
    case True
    then obtain ev arrived' p' c' where a: "os_answer p e arrived = Some (ev, arrived')"
      and po: "poll p ev (sys_core s) = Some (p', c')" by blast
    let ?u = "\<lparr>sys_core = c', sys_tasks = (sys_tasks s)[i := (oper, p')],
      sys_log = sys_log s @ map (Pair i) (written_by p ev)\<rparr>"
    have step: "sys_step s (Resume i ev) = Some ?u" by (rule resume_nth [OF Cons.prems(1,2) po])
    have d: "drive es p' (sys_core ?u) arrived' (out @ written_by p ev) = (r, w')"
      using Cons.prems(3) True a po by (cases p) auto
    from Cons.IH [OF _ _ d] Cons.prems(1) obtain evs t new where
      t: "sys_run ?u (map (Resume i) evs) = Some t" "sys_core t = net_core w'"
        "sys_log t = sys_log ?u @ map (Pair i) new" "net_out w' = (out @ written_by p ev) @ new"
        "arrived' = concat (map read_of evs) @ net_in w'" "i < length (sys_tasks t)" "task_op t i = oper"
        "outcome_pc r (task_pc t i)" by (auto simp: run_refines_def)
    with step os_answer_read [OF a] show ?thesis unfolding run_refines_def
      by (intro exI [of _ "ev # evs"] exI [of _ t]) auto
  qed
qed

lemma run_op_refines:
  assumes "sys_core s = net_core w" and "run_op oper w = (r, w')"
  shows "\<exists>evs t new. sys_run s (Spawn oper # map (Resume (length (sys_tasks s))) evs) = Some t
    \<and> sys_core t = net_core w' \<and> sys_log t = sys_log s @ map (Pair (length (sys_tasks s))) new
    \<and> net_out w' = net_out w @ new \<and> net_in w = concat (map read_of evs) @ net_in w'
    \<and> length (sys_tasks s) < length (sys_tasks t) \<and> task_op t (length (sys_tasks s)) = oper
    \<and> outcome_pc r (task_pc t (length (sys_tasks s)))"
proof -
  obtain p c where sp: "start oper (net_core w) = (p, c)" by fastforce
  let ?i = "length (sys_tasks s)"
  let ?u = "s\<lparr>sys_core := c, sys_tasks := sys_tasks s @ [(oper, p)]\<rparr>"
  have spawn: "sys_step s (Spawn oper) = Some ?u" using sp assms(1) by simp
  show ?thesis
  proof (cases "waits_gate p")
    case False
    with assms(2) sp have d: "drive (net_sched w) p (sys_core ?u) (net_in w) (net_out w) = (r, w')"
      by (simp add: run_op_def)
    from drive_refines [of ?i ?u oper p, OF _ _ d] spawn show ?thesis by (fastforce simp: run_refines_def)
  next
    case True
    show ?thesis
    proof (cases "poll p GateAcquired c")
      case None
      with True assms(2) sp have "r = Pending \<and> w' = w\<lparr>net_core := c\<rparr>" by (simp add: run_op_def)
      with True spawn show ?thesis
        by (intro exI [of _ "[]"] exI [of _ ?u]) (cases p; simp add: task_pc_def task_op_def nth_append)
    next
      case (Some pc')
      then obtain p' c' where po: "poll p GateAcquired c = Some (p', c')" by (cases pc') auto
      let ?v = "\<lparr>sys_core = c', sys_tasks = (sys_tasks ?u)[?i := (oper, p')],
        sys_log = sys_log ?u @ map (Pair ?i) (written_by p GateAcquired)\<rparr>"
      have step: "sys_step ?u (Resume ?i GateAcquired) = Some ?v"
        by (rule resume_nth [where p = p]) (use po in \<open>simp_all add: nth_append\<close>)
      have silent: "written_by p GateAcquired = []" by (cases p) auto
      from True po assms(2) sp have d: "drive (net_sched w) p' (sys_core ?v) (net_in w) (net_out w) = (r, w')"
        by (simp add: run_op_def)
      from drive_refines [of ?i ?v oper p', OF _ _ d] obtain evs t new where
        t: "sys_run ?v (map (Resume ?i) evs) = Some t" "sys_core t = net_core w'"
          "sys_log t = sys_log ?v @ map (Pair ?i) new" "net_out w' = net_out w @ new"
          "net_in w = concat (map read_of evs) @ net_in w'" "?i < length (sys_tasks t)"
          "task_op t ?i = oper" "outcome_pc r (task_pc t ?i)" by (auto simp: run_refines_def)
      show ?thesis
        by (intro exI [of _ "GateAcquired # evs"] exI [of _ t] exI [of _ new])
          (use spawn step t silent in simp)
    qed
  qed
qed

section \<open>The byte stream of a shared connection\<close>

text \<open>The network state of a connection that tasks have used: its core and its outgoing bytes are those of a
  reachable state of the concurrent system.\<close>

definition from_tasks :: "net \<Rightarrow> bool" where
  "from_tasks w \<longleftrightarrow> (\<exists>s. reachable s \<and> sys_core s = net_core w \<and> map snd (sys_log s) = net_out w)"

lemma from_tasks_run: "from_tasks w \<Longrightarrow> run_op oper w = (r, w') \<Longrightarrow> from_tasks w'"
proof -
  assume "from_tasks w" and op: "run_op oper w = (r, w')"
  then obtain s where s: "reachable s" "sys_core s = net_core w" "map snd (sys_log s) = net_out w"
    by (auto simp: from_tasks_def)
  from run_op_refines [OF s(2) op] obtain evs t new where
    run: "sys_run s (Spawn oper # map (Resume (length (sys_tasks s))) evs) = Some t" and t: "sys_core t = net_core w'"
    "sys_log t = sys_log s @ map (Pair (length (sys_tasks s))) new" "net_out w' = net_out w @ new" by blast
  from reachable_run [OF run s(1)] t s(3) show ?thesis unfolding from_tasks_def
    by (intro exI [of _ t]) (simp add: comp_def)
qed

lemma from_tasks_receive: "from_tasks w \<Longrightarrow> conn_receive buffer w = (r, w') \<Longrightarrow> from_tasks w'"
  by (auto simp: conn_receive_def split: prod.splits outcome.splits reply.splits intro: from_tasks_run)

lemma from_tasks_send: "from_tasks w \<Longrightarrow> conn_send data w = (r, w') \<Longrightarrow> from_tasks w'"
  by (auto simp: conn_send_def split: prod.splits outcome.splits intro: from_tasks_run)

definition task_inv :: "net \<Rightarrow> bool" where
  "task_inv w \<longleftrightarrow> net_inv w \<and> from_tasks w"

definition task_live :: "net \<Rightarrow> bool" where
  "task_live w \<longleftrightarrow> net_live w \<and> from_tasks w"

lemma task_inv_receive:
  "task_inv w \<Longrightarrow> buffer \<noteq> [] \<Longrightarrow> conn_receive buffer w = (Ret (Data n, buffer'), w') \<Longrightarrow>
     0 < n \<and> n \<le> length buffer \<and> n \<le> length (net_in w) \<and> buffer' = take n (net_in w) @ drop n buffer
     \<and> net_in w' = drop n (net_in w) \<and> net_out w' = net_out w \<and> task_inv w'"
  using conn_receive_data [of w buffer n buffer' w'] from_tasks_receive [of w buffer _ w']
  by (auto simp: task_inv_def)

lemma task_inv_eof:
  "task_inv w \<Longrightarrow> buffer \<noteq> [] \<Longrightarrow> conn_receive buffer w = (Ret (EndOfStream, buffer'), w') \<Longrightarrow> net_in w = []"
  using conn_receive_eof_in unfolding task_inv_def by blast

lemma task_inv_send:
  "task_inv w \<Longrightarrow> conn_send data w = (Ret u, w') \<Longrightarrow>
     net_out w' = net_out w @ data \<and> net_in w' = net_in w \<and> task_inv w'"
  using conn_send_inv [of w data u w'] from_tasks_send [of w data _ w'] by (auto simp: task_inv_def)

lemma task_live_inv: "task_live w \<Longrightarrow> task_inv w"
  using net_live_inv by (auto simp: task_inv_def task_live_def)

lemma task_live_receive:
  "task_live w \<Longrightarrow> buffer \<noteq> [] \<Longrightarrow> net_in w \<noteq> [] \<Longrightarrow> 0 < net_fuel w \<Longrightarrow>
     \<exists>n buffer' w'. conn_receive buffer w = (Ret (Data n, buffer'), w') \<and> task_live w' \<and> net_fuel w \<le> net_fuel w' + n"
  using conn_receive_live [of w buffer] from_tasks_receive [of w buffer] unfolding task_live_def by blast

lemma task_live_send:
  "task_live w \<Longrightarrow> length data \<le> net_fuel w \<Longrightarrow>
     \<exists>w'. conn_send data w = (Ret (), w') \<and> task_live w' \<and> net_fuel w \<le> net_fuel w' + length data"
  using conn_send_live [of w data] from_tasks_send [of w data] unfolding task_live_def by blast

interpretation task_stream: live_stream conn_receive conn_send net_in net_out task_inv task_live net_fuel
  by unfold_locales
    (fact task_inv_receive task_inv_eof conn_receive_sent task_live_inv task_live_receive task_inv_send
      conn_send_prefix task_live_send)+

section \<open>Properties\<close>


text \<open>C20: The secure channel runs on the shared connection: when messages were sent over a connection that tasks had
  used before, its core is again that of a reachable state of the concurrent system, whose OS stream took exactly
  the earlier bytes and then the sealed frames in order; and receiving messages leaves it so too.\<close>

theorem secure_channel_over_tasks:
  assumes "net_inv w" and "from_tasks w"
  shows "(send_all cr conn_send ps (ss, w) = (Ret u, (ss', w')) \<longrightarrow>
      (\<exists>frames s. seal_all cr (transcript_hash ss) (send_state ss) ps = Some frames \<and> reachable s
        \<and> sys_core s = net_core w' \<and> map snd (sys_log s) = net_out w @ wire frames))
    \<and> (secure_receive cr conn_receive (ss, w) = (Ret p, (ss', w')) \<longrightarrow>
      (\<exists>s. reachable s \<and> sys_core s = net_core w' \<and> map snd (sys_log s) = net_out w))"
proof -
  have inv: "task_inv w" using assms by (simp add: task_inv_def)
  show ?thesis
    using task_stream.send_all_sound [OF inv, of cr ps ss u ss' w']
      task_stream.secure_receive_sound [OF inv, of cr ss p ss' w']
    unfolding task_inv_def from_tasks_def by fastforce
qed


lemma secure_channel_over_tasks_witness:
  "\<exists>frames s. seal_all toy (transcript_hash demo_session) demo_direction [[1, 2], []] = Some frames \<and> reachable s
     \<and> map snd (sys_log s) = wire frames"
proof -
  let ?w = "demo_net (replicate 60 3) []"
  have out: "net_out ?w = []" by (simp add: demo_net_def)
  have ft: "from_tasks ?w" unfolding from_tasks_def
    by (rule exI [of _ demo_sys]) (simp add: demo_sys_def sys_init_def demo_net_def demo_core_def reachable.initial [unfolded sys_init_def])
  have ok: "\<forall>p \<in> set [[1, 2], [] :: bytes]. message_ok p"
    "unat (ds_sequence (send_state demo_session)) + length [[1, 2], [] :: bytes] < 2 ^ 64"
    by (simp_all add: message_ok_def size_defs MAX_FRAME_SIZE_def)
  from seal_all_total [OF toy_aead _ ok(2,1), of "transcript_hash demo_session"] obtain frames where
    f: "seal_all toy (transcript_hash demo_session) (send_state demo_session) [[1, 2], []] = Some frames"
      "\<forall>f \<in> set frames. frame_ok f" by auto
  have "length (wire frames) \<le> net_fuel ?w" using wire_length [OF toy_aead(1) f(1)] by simp
  from task_stream.send_all_live [OF _ f this] ft demo_net_live obtain ss' w' where
    s: "send_all toy conn_send [[1, 2], []] (demo_session, ?w) = (Ret (), (ss', w'))"
    by (auto simp: task_live_def)
  from secure_channel_over_tasks [OF net_live_inv [OF demo_net_live] ft] s out show ?thesis by fastforce
qed

end
