(* ===== verification/Atomic_Flags.thy ===== *)
theory Atomic_Flags
  imports Results
begin

text \<open>
  Calls that share atomic flags: every call is a machine whose steps are single atomic operations, and a schedule
  says which call makes the next one. The locale states what the flag machines of connections and servers have in
  common, a flag that is never taken back and calls that report having set it, and proves what
  holds in every schedule; \<open>Flag_Races\<close> and \<open>Server_Races\<close> interpret it.
\<close>

record ('p, 's) race =
  rc_flags :: 's
  rc_calls :: "'p list"

definition race_sched :: "('p \<Rightarrow> 's \<Rightarrow> 'p \<times> 's) \<Rightarrow> nat \<Rightarrow> ('p, 's) race \<Rightarrow> ('p, 's) race" where
  "race_sched step i s =
     (if i < length (rc_calls s)
      then (let (p, f) = step (rc_calls s ! i) (rc_flags s) in
            \<lparr>rc_flags = f, rc_calls = (rc_calls s)[i := p]\<rparr>)
      else s)"

definition race_run :: "('p \<Rightarrow> 's \<Rightarrow> 'p \<times> 's) \<Rightarrow> nat list \<Rightarrow> ('p, 's) race \<Rightarrow> ('p, 's) race" where
  "race_run step is s = fold (race_sched step) is s"

text \<open>One call with nobody else.\<close>

fun race_solo :: "('p \<Rightarrow> 's \<Rightarrow> 'p \<times> 's) \<Rightarrow> nat \<Rightarrow> 'p \<Rightarrow> 's \<Rightarrow> 'p \<times> 's" where
  "race_solo step 0 p s = (p, s)"
| "race_solo step (Suc n) p s = (case step p s of (q, t) \<Rightarrow> race_solo step n q t)"

lemma race_run_simps [simp]:
  "race_run step [] s = s" "race_run step (i # is) s = race_run step is (race_sched step i s)"
  by (simp_all add: race_run_def)

lemma race_run_append: "race_run step (is @ js) s = race_run step js (race_run step is s)"
  by (simp add: race_run_def)

lemma race_sched_length [simp]: "length (rc_calls (race_sched step i s)) = length (rc_calls s)"
  by (simp add: race_sched_def split: prod.split)

lemma sum_list_update_nat:
  fixes f :: "'a \<Rightarrow> nat"
  assumes "i < length xs"
  shows "sum_list (map f (xs[i := y])) + f (xs ! i) = sum_list (map f xs) + f y"
  using assms
proof (induction xs arbitrary: i)
  case (Cons x xs)
  then show ?case by (cases i) auto
qed simp

text \<open>
  \<open>ended\<close> is the flag that stays, \<open>claim\<close> what a call counts as having set it, \<open>pausing\<close> a call
  that is about to set the \<open>paused\<close> flag without looking again.
\<close>

locale atomic_flags =
  fixes step :: "'p \<Rightarrow> 's \<Rightarrow> 'p \<times> 's"
    and ended :: "'s \<Rightarrow> bool"
    and paused :: "'s \<Rightarrow> bool"
    and claim :: "'p \<Rightarrow> nat"
    and pausing :: "'p \<Rightarrow> bool"
  assumes step_claim: "step p s = (q, t) \<Longrightarrow> claim q = claim p + (if \<not> ended s \<and> ended t then 1 else 0)"
    and step_stays: "step p s = (q, t) \<Longrightarrow> ended s \<Longrightarrow> ended t"
    and step_pausing: "step p s = (q, t) \<Longrightarrow> ended s \<Longrightarrow> pausing q \<Longrightarrow> pausing p"
    and step_paused: "step p s = (q, t) \<Longrightarrow> ended s \<Longrightarrow> \<not> pausing p \<Longrightarrow> paused t \<Longrightarrow> paused s"
begin

definition claims :: "('p, 's) race \<Rightarrow> nat" where
  "claims s = sum_list (map claim (rc_calls s))"

definition no_pausing :: "('p, 's) race \<Rightarrow> bool" where
  "no_pausing s \<longleftrightarrow> (\<forall>p \<in> set (rc_calls s). \<not> pausing p)"

lemma sched_claims:
  "claims (race_sched step i s) = claims s + (if \<not> ended (rc_flags s) \<and> ended (rc_flags (race_sched step i s)) then 1 else 0)
    \<and> (ended (rc_flags s) \<longrightarrow> ended (rc_flags (race_sched step i s)))"
proof (cases "i < length (rc_calls s)")
  case True
  obtain q t where qt: "step (rc_calls s ! i) (rc_flags s) = (q, t)" by fastforce
  from step_claim [OF qt] step_stays [OF qt] sum_list_update_nat [OF True, of claim q] show ?thesis
    by (auto simp: race_sched_def claims_def True qt)
qed (simp add: race_sched_def)

lemma run_claims:
  "claims (race_run step is s) = claims s + (if \<not> ended (rc_flags s) \<and> ended (rc_flags (race_run step is s)) then 1 else 0)
    \<and> (ended (rc_flags s) \<longrightarrow> ended (rc_flags (race_run step is s)))"
proof (induction "is" arbitrary: s)
  case (Cons i "is")
  from sched_claims [of i s] Cons [of "race_sched step i s"] show ?case by auto
qed simp

lemma sched_no_pausing:
  assumes "ended (rc_flags s)" and "no_pausing s"
  shows "no_pausing (race_sched step i s) \<and> (paused (rc_flags (race_sched step i s)) \<longrightarrow> paused (rc_flags s))"
proof (cases "i < length (rc_calls s)")
  case True
  obtain q t where qt: "step (rc_calls s ! i) (rc_flags s) = (q, t)" by fastforce
  from assms(2) True have p: "\<not> pausing (rc_calls s ! i)" by (simp add: no_pausing_def)
  with step_pausing [OF qt assms(1)] step_paused [OF qt assms(1)] assms(2) True show ?thesis
    using set_update_subset_insert [of "rc_calls s" i q]
    by (auto simp: race_sched_def qt no_pausing_def)
qed (simp add: race_sched_def assms)

lemma run_no_pausing:
  "ended (rc_flags s) \<Longrightarrow> no_pausing s \<Longrightarrow>
     no_pausing (race_run step is s) \<and> (paused (rc_flags (race_run step is s)) \<longrightarrow> paused (rc_flags s))"
proof (induction "is" arbitrary: s)
  case (Cons i "is")
  from sched_no_pausing [OF Cons.prems, of i] sched_claims [of i s] Cons.prems(1)
    Cons.IH [of "race_sched step i s"] show ?case by auto
qed simp

text \<open>What every step of a call keeps once the flag is set holds of the call for ever.\<close>

lemma run_call:
  assumes keep: "\<And>p s. P p \<Longrightarrow> ended s \<Longrightarrow> P (fst (step p s))"
  shows "ended (rc_flags s) \<Longrightarrow> i < length (rc_calls s) \<Longrightarrow> P (rc_calls s ! i) \<Longrightarrow> P (rc_calls (race_run step is s) ! i)"
proof (induction "is" arbitrary: s)
  case (Cons j "is")
  have "P (rc_calls (race_sched step j s) ! i)"
    using Cons.prems keep [of "rc_calls s ! i" "rc_flags s"]
    by (cases "j = i") (auto simp: race_sched_def split: prod.splits)
  moreover have "ended (rc_flags (race_sched step j s))" using sched_claims [of j s] Cons.prems(1) by blast
  ultimately show ?case using Cons.IH Cons.prems(2) by simp
qed simp

end

end
