(* ===== verification/Flag_Races.thy ===== *)
theory Flag_Races
  imports Conn_Core Atomic_Flags
begin

text \<open>
  \<open>ConnectionState\<close> of \<open>crates/taunicorn/src/lib.rs\<close> at the grain of its atomic operations: every
  \<open>load\<close>, \<open>store\<close> and \<open>swap\<close> is a step of its own, and any number of calls run at once (all orderings are
  \<open>SeqCst\<close>, so their operations interleave). \<open>pause\<close> and \<open>resume\<close> load one flag and store another,
  \<open>close\<close> is a swap and three stores, and the checks before an I/O load three flags. The other theories
  take each of these calls as one step; here that is justified where it is right, and the one schedule where it is
  not is exhibited.
\<close>

section \<open>The calls, one atomic operation at a time\<close>

datatype flag_result = NoResult | Won bool | Checked "anyhow + unit"

datatype direction = ReadSide | WriteSide

datatype flag_pc =
  PauseLoad | PauseStore
| ResumeLoad | ResumeStore
| CloseSwap | ClosePaused bool | CloseRead bool | CloseWrite bool
| CheckClosed direction | CheckPaused direction | CheckShutdown direction
| FlagDone flag_result

fun flag_step :: "flag_pc \<Rightarrow> conn_state \<Rightarrow> flag_pc \<times> conn_state" where
  "flag_step PauseLoad s = (if c_closed s then FlagDone NoResult else PauseStore, s)"
| "flag_step PauseStore s = (FlagDone NoResult, s\<lparr>c_paused := True\<rparr>)"
| "flag_step ResumeLoad s = (if c_closed s then FlagDone NoResult else ResumeStore, s)"
| "flag_step ResumeStore s = (FlagDone NoResult, s\<lparr>c_paused := False\<rparr>)"
| "flag_step CloseSwap s = (ClosePaused (\<not> c_closed s), s\<lparr>c_closed := True\<rparr>)"
| "flag_step (ClosePaused won) s = (CloseRead won, s\<lparr>c_paused := False\<rparr>)"
| "flag_step (CloseRead won) s = (CloseWrite won, s\<lparr>c_read_shutdown := True\<rparr>)"
| "flag_step (CloseWrite won) s = (FlagDone (Won won), s\<lparr>c_write_shutdown := True\<rparr>)"
| "flag_step (CheckClosed d) s =
     (if c_closed s then FlagDone (Checked (Inl err_conn_closed)) else CheckPaused d, s)"
| "flag_step (CheckPaused d) s =
     (if c_paused s then FlagDone (Checked (Inl err_conn_paused)) else CheckShutdown d, s)"
| "flag_step (CheckShutdown d) s =
     (FlagDone (Checked
        (case d of
           ReadSide \<Rightarrow> if c_read_shutdown s then Inl err_recv_is_shut else Inr ()
         | WriteSide \<Rightarrow> if c_write_shutdown s then Inl err_send_is_shut else Inr ())), s)"
| "flag_step (FlagDone r) s = (FlagDone r, s)"

type_synonym flag_sys = "(flag_pc, conn_state) race"

definition flag_run :: "nat list \<Rightarrow> flag_sys \<Rightarrow> flag_sys" where
  "flag_run is s = race_run flag_step is s"

definition flag_solo :: "nat \<Rightarrow> flag_pc \<Rightarrow> conn_state \<Rightarrow> flag_pc \<times> conn_state" where
  "flag_solo n p s = race_solo flag_step n p s"

section \<open>Winners and the finality of a close\<close>

text \<open>Calls that did or will report that they closed the connection.\<close>

fun winner :: "flag_pc \<Rightarrow> nat" where
  "winner (ClosePaused won) = (if won then 1 else 0)"
| "winner (CloseRead won) = (if won then 1 else 0)"
| "winner (CloseWrite won) = (if won then 1 else 0)"
| "winner (FlagDone (Won won)) = (if won then 1 else 0)"
| "winner p = 0"

definition winners :: "flag_sys \<Rightarrow> nat" where
  "winners s = sum_list (map winner (rc_calls s))"

text \<open>
  No pause is in flight between its load and its store: then nothing can set the paused flag of a closed connection
  any more.
\<close>

definition no_pause_in_flight :: "flag_sys \<Rightarrow> bool" where
  "no_pause_in_flight s \<longleftrightarrow> PauseStore \<notin> set (rc_calls s)"

interpretation conn_flags: atomic_flags flag_step c_closed c_paused winner "\<lambda>p. p = PauseStore"
proof
  fix p s q t
  assume "flag_step p s = (q, t)"
  then show "winner q = winner p + (if \<not> c_closed s \<and> c_closed t then 1 else 0)"
    "c_closed s \<Longrightarrow> c_closed t" "c_closed s \<Longrightarrow> q = PauseStore \<Longrightarrow> p = PauseStore"
    "c_closed s \<Longrightarrow> p \<noteq> PauseStore \<Longrightarrow> c_paused t \<Longrightarrow> c_paused s"
    by (cases p; auto split: if_splits)+
qed

lemma conn_flags_simps:
  "conn_flags.claims s = winners s" "conn_flags.no_pausing s \<longleftrightarrow> no_pause_in_flight s"
  by (auto simp: conn_flags.claims_def winners_def conn_flags.no_pausing_def no_pause_in_flight_def)

text \<open>A check that starts after the close is refused.\<close>

lemma late_check:
  assumes "c_closed (rc_flags s)" and "i < length (rc_calls s)" and "rc_calls s ! i = CheckClosed d"
  shows "rc_calls (flag_run is s) ! i \<in> {CheckClosed d, FlagDone (Checked (Inl err_conn_closed))}"
  unfolding flag_run_def
  by (rule conn_flags.run_call [where P = "\<lambda>p. p \<in> {CheckClosed d, FlagDone (Checked (Inl err_conn_closed))}"])
    (use assms in auto)

section \<open>Properties\<close>


text \<open>C27: In every interleaving of the atomic operations of any number of pauses, resumes, closes and checks on an
  open connection: once one close swapped the flag the connection stays closed, and exactly one close is told that it
  won; a check that starts after that is refused as closed, whatever the other flags are; and if no pause is in flight
  between its load and its store at that moment, the paused flag is never set again.\<close>

theorem flag_calls_interleaved:
  assumes "\<not> c_closed (rc_flags s)" and "winners s = 0" and "t = flag_run is s"
  shows "winners t = (if c_closed (rc_flags t) then 1 else 0)
    \<and> (c_closed (rc_flags t) \<longrightarrow>
         c_closed (rc_flags (flag_run js t)) \<and> winners (flag_run js t) = 1
         \<and> (i < length (rc_calls t) \<and> rc_calls t ! i = CheckClosed d \<longrightarrow>
              rc_calls (flag_run js t) ! i \<in> {CheckClosed d, FlagDone (Checked (Inl err_conn_closed))})
         \<and> (no_pause_in_flight t \<and> \<not> c_paused (rc_flags t) \<longrightarrow> \<not> c_paused (rc_flags (flag_run js t))))"
  using conn_flags.run_claims [of "is" s] conn_flags.run_claims [of js t] late_check [of t i d js]
    conn_flags.run_no_pausing [of t js] assms
  by (auto simp: conn_flags_simps flag_run_def [symmetric])

lemma flag_calls_interleaved_witness:
  "winners (flag_run [0, 1, 0, 1, 0, 0] \<lparr>rc_flags = conn_state_default, rc_calls = [CloseSwap, CloseSwap]\<rparr>) = 1"
proof -
  let ?s = "\<lparr>rc_flags = conn_state_default, rc_calls = [CloseSwap, CloseSwap]\<rparr>"
  have "c_closed (rc_flags (flag_run [0, 1, 0, 1, 0, 0] ?s))" "\<not> c_closed (rc_flags ?s)" "winners ?s = 0"
    by (simp_all add: flag_run_def race_sched_def conn_state_default_def winners_def)
  with flag_calls_interleaved [of ?s _ "[0, 1, 0, 1, 0, 0]"] show ?thesis by simp
qed

text \<open>C30: The check and the store of \<open>pause\<close> are not atomic: a close that runs between them leaves a connection that is
  closed and paused with no call left to change it, which no sequence of the one-step calls can do; every further
  \<open>pause\<close> and \<open>resume\<close> leaves it so, while I/O is still refused as closed and not as paused.\<close>

theorem pause_close_race:
  "let t = flag_run [0, 1, 1, 1, 1, 0] \<lparr>rc_flags = conn_state_default, rc_calls = [PauseLoad, CloseSwap]\<rparr> in
     rc_calls t = [FlagDone NoResult, FlagDone (Won True)] \<and> c_closed (rc_flags t) \<and> c_paused (rc_flags t)
     \<and> cs_pause (rc_flags t) = rc_flags t \<and> cs_resume (rc_flags t) = rc_flags t
     \<and> flag_solo 3 (CheckClosed d) (rc_flags t) = (FlagDone (Checked (Inl err_conn_closed)), rc_flags t)
     \<and> \<not> (\<exists>cs. snd (lifecycle_run cs_pause cs_resume cs_close cs conn_state_default) = rc_flags t)"
proof -
  let ?s = "\<lparr>rc_flags = conn_state_default, rc_calls = [PauseLoad, CloseSwap]\<rparr>"
  have t: "flag_run [0, 1, 1, 1, 1, 0] ?s
      = \<lparr>rc_flags = \<lparr>c_closed = True, c_paused = True, c_read_shutdown = True, c_write_shutdown = True,
           c_peer_sent_eof = False\<rparr>, rc_calls = [FlagDone NoResult, FlagDone (Won True)]\<rparr>"
    by (simp add: flag_run_def race_sched_def conn_state_default_def)
  have "\<not> (c_closed (snd (lifecycle_run cs_pause cs_resume cs_close cs conn_state_default))
      \<and> c_paused (snd (lifecycle_run cs_pause cs_resume cs_close cs conn_state_default)))" for cs
  proof -
    have "paused_after p cs \<Longrightarrow> EndCall \<notin> set cs" for p
      by (induction cs arbitrary: p) (auto split: lifecycle_call.splits)
    then show ?thesis
      using conn_lifecycle.ended_iff [of cs conn_state_default] conn_lifecycle.paused_run [of conn_state_default cs]
      by (auto simp: conn_state_default_def)
  qed
  then have "\<not> (\<exists>cs. snd (lifecycle_run cs_pause cs_resume cs_close cs conn_state_default)
      = \<lparr>c_closed = True, c_paused = True, c_read_shutdown = True, c_write_shutdown = True,
           c_peer_sent_eof = False\<rparr>)"
    by (metis conn_state.select_convs(1,2))
  then show ?thesis unfolding t Let_def by (simp add: cs_pause_def cs_resume_def flag_solo_def numeral_eq_Suc)
qed

end
