(* ===== verification/Server_Model.thy ===== *)
theory Server_Model
  imports Conn_Core Lifecycle
begin

text \<open>
  The listener side of \<open>crates/taunicorn/src/lib.rs\<close>: \<open>ServerState\<close> (an instance of the shared life cycle),
  binding, accepting and stopping. \<open>accept\<close> awaits the OS listener and the stop token in one
  \<open>select!\<close>; the system below lets any number of accepts run at once, each answered by any
  ready branch, while the server is paused, resumed and stopped between their steps.
\<close>

section \<open>State\<close>

record server_state =
  s_stopped :: bool
  s_paused :: bool

definition server_state_default :: server_state where
  "server_state_default = \<lparr>s_stopped = False, s_paused = False\<rparr>"

definition ss_pause :: "server_state \<Rightarrow> server_state" where
  "ss_pause s = (if \<not> s_stopped s then s\<lparr>s_paused := True\<rparr> else s)"

definition ss_resume :: "server_state \<Rightarrow> server_state" where
  "ss_resume s = (if \<not> s_stopped s then s\<lparr>s_paused := False\<rparr> else s)"

definition ss_stop :: "server_state \<Rightarrow> bool \<times> server_state" where
  "ss_stop s = (\<not> s_stopped s, s\<lparr>s_stopped := True, s_paused := False\<rparr>)"

interpretation server_lifecycle: lifecycle s_stopped s_paused ss_pause ss_resume ss_stop
  by unfold_locales (simp_all add: ss_pause_def ss_resume_def ss_stop_def)

type_synonym raw_listener = nat

record server =
  srv_inner :: "raw_listener option"
  srv_poisoned :: bool
  srv_endpoint :: endpoint
  srv_state :: server_state
  srv_stop_token :: bool

section \<open>Binding\<close>

text \<open>
  \<open>create\<close> is the platform's listener creation, with the optional permission mode (the Unix
  variant of the signature).
\<close>

definition server_bind ::
  "(string \<Rightarrow> string + 'name) \<Rightarrow> ('name \<Rightarrow> 32 word option \<Rightarrow> string + raw_listener)
    \<Rightarrow> string \<Rightarrow> 32 word option \<Rightarrow> anyhow + server" where
  "server_bind to_ns_name create name mode =
     try_result (endpoint_new name) (\<lambda>ep.
     try_result (get_async_socket_name to_ns_name (endpoint_as_str ep)) (\<lambda>socket_name.
     try_result (case create socket_name mode of Inl e \<Rightarrow> Inl (IoError e) | Inr l \<Rightarrow> Inr l) (\<lambda>listener.
     Inr \<lparr>srv_inner = Some listener, srv_poisoned = False, srv_endpoint = ep,
           srv_state = server_state_default, srv_stop_token = False\<rparr>)))"

text \<open>
  The Windows variant of the signature: the permission is a security descriptor in text form, first converted to a
  wide string (\<open>to_wide\<close>, which refuses an interior zero), then deserialised.
\<close>

definition server_bind_windows ::
  "(string \<Rightarrow> string + 'name) \<Rightarrow> (string \<Rightarrow> string + 'wide) \<Rightarrow> ('wide \<Rightarrow> string + 'sd)
    \<Rightarrow> ('name \<Rightarrow> 'sd option \<Rightarrow> string + raw_listener) \<Rightarrow> string \<Rightarrow> string option \<Rightarrow> anyhow + server" where
  "server_bind_windows to_ns_name to_wide deserialize create name mode =
     try_result (endpoint_new name) (\<lambda>ep.
     try_result (get_async_socket_name to_ns_name (endpoint_as_str ep)) (\<lambda>socket_name.
     try_result
       (case mode of
          None \<Rightarrow> Inr None
        | Some sddl \<Rightarrow>
            try_result (case to_wide sddl of Inl e \<Rightarrow> Inl (Message e) | Inr w \<Rightarrow> Inr w) (\<lambda>w.
            case deserialize w of Inl e \<Rightarrow> Inl (IoError e) | Inr sd \<Rightarrow> Inr (Some sd))) (\<lambda>security.
     try_result (case create socket_name security of Inl e \<Rightarrow> Inl (IoError e) | Inr l \<Rightarrow> Inr l) (\<lambda>listener.
     Inr \<lparr>srv_inner = Some listener, srv_poisoned = False, srv_endpoint = ep,
           srv_state = server_state_default, srv_stop_token = False\<rparr>))))"

definition server_start ::
  "(string \<Rightarrow> string + 'name) \<Rightarrow> ('name \<Rightarrow> 32 word option \<Rightarrow> string + raw_listener)
    \<Rightarrow> endpoint \<Rightarrow> anyhow + server" where
  "server_start to_ns_name create ep = server_bind to_ns_name create (endpoint_as_str ep) None"

section \<open>Accepting and stopping\<close>

definition err_srv_stopped :: anyhow where "err_srv_stopped = Message ''socket server is stopped''"

definition err_srv_was_stopped :: anyhow where
  "err_srv_was_stopped = Message ''socket server was stopped''"

definition err_srv_paused :: anyhow where "err_srv_paused = Message ''socket server is paused''"

definition err_srv_poisoned :: anyhow where
  "err_srv_poisoned = Message ''socket server state is poisoned''"

definition err_accept_timeout :: anyhow where
  "err_accept_timeout = Message ''socket accept timeout''"

definition server_listener :: "server \<Rightarrow> anyhow + raw_listener" where
  "server_listener sv =
     (if s_stopped (srv_state sv) then Inl err_srv_stopped
      else if srv_poisoned sv then Inl err_srv_poisoned
      else (case srv_inner sv of None \<Rightarrow> Inl err_srv_stopped | Some l \<Rightarrow> Inr l))"

definition from_accepted :: "raw_stream \<Rightarrow> endpoint \<Rightarrow> u64 \<Rightarrow> core \<times> u64" where
  "from_accepted stream server_endpoint counter =
     core_new stream server_endpoint (Some server_endpoint) None counter"

datatype accept_pc =
  AcceptDone "anyhow + core"
| AcceptWait bool raw_listener
| AcceptDropped

datatype accept_event = ListenerAnswer "string + raw_stream" | StopFired | AcceptDeadline

definition accept_start :: "bool \<Rightarrow> server \<Rightarrow> accept_pc" where
  "accept_start timed sv =
     (if s_paused (srv_state sv) then AcceptDone (Inl err_srv_paused)
      else (case server_listener sv of
              Inl e \<Rightarrow> AcceptDone (Inl e)
            | Inr l \<Rightarrow> AcceptWait timed l))"

text \<open>The \<open>select!\<close> of \<open>accept\<close>; the deadline branch is that of \<open>accept_timeout\<close>.\<close>

fun accept_poll :: "accept_pc \<Rightarrow> accept_event \<Rightarrow> server \<Rightarrow> u64 \<Rightarrow> (accept_pc \<times> u64) option" where
  "accept_poll (AcceptWait timed l) (ListenerAnswer result) sv counter =
     (case result of
        Inl e \<Rightarrow> Some (AcceptDone (Inl (IoError e)), counter)
      | Inr stream \<Rightarrow>
          (let (c, counter') = from_accepted stream (srv_endpoint sv) counter in
           Some (AcceptDone (Inr c), counter')))"
| "accept_poll (AcceptWait timed l) StopFired sv counter =
     (if srv_stop_token sv then Some (AcceptDone (Inl err_srv_was_stopped), counter) else None)"
| "accept_poll (AcceptWait timed l) AcceptDeadline sv counter =
     (if timed then Some (AcceptDone (Inl err_accept_timeout), counter) else None)"
| "accept_poll _ ev sv counter = None"

definition stop_now :: "server \<Rightarrow> (anyhow + unit) \<times> server" where
  "stop_now sv =
     (let (won, st) = ss_stop (srv_state sv); sv' = sv\<lparr>srv_state := st\<rparr> in
      if \<not> won then (Inr (), sv')
      else
        (let sv'' = sv'\<lparr>srv_stop_token := True\<rparr> in
         if srv_poisoned sv'' then (Inl err_srv_poisoned, sv'')
         else (Inr (), sv''\<lparr>srv_inner := None\<rparr>)))"

definition server_pause :: "server \<Rightarrow> server" where
  "server_pause sv = sv\<lparr>srv_state := ss_pause (srv_state sv)\<rparr>"

definition server_resume :: "server \<Rightarrow> server" where
  "server_resume sv = sv\<lparr>srv_state := ss_resume (srv_state sv)\<rparr>"

definition server_is_accepting :: "server \<Rightarrow> bool" where
  "server_is_accepting sv \<longleftrightarrow> \<not> s_stopped (srv_state sv) \<and> \<not> s_paused (srv_state sv)"

definition server_is_paused :: "server \<Rightarrow> bool" where "server_is_paused sv = s_paused (srv_state sv)"

definition server_is_stopped :: "server \<Rightarrow> bool" where "server_is_stopped sv = s_stopped (srv_state sv)"

definition server_is_closed :: "server \<Rightarrow> bool" where "server_is_closed sv = server_is_stopped sv"

definition server_is_started :: "server \<Rightarrow> bool" where "server_is_started sv \<longleftrightarrow> \<not> server_is_stopped sv"

definition server_endpoint :: "server \<Rightarrow> endpoint" where "server_endpoint sv = srv_endpoint sv"

definition server_name :: "server \<Rightarrow> string" where "server_name sv = endpoint_as_str (srv_endpoint sv)"

definition server_local_endpoint :: "server \<Rightarrow> endpoint" where "server_local_endpoint sv = srv_endpoint sv"

record server_info =
  si_local_endpoint :: endpoint
  si_is_stopped :: bool
  si_is_paused :: bool

definition server_info_of :: "server \<Rightarrow> server_info" where
  "server_info_of sv =
     \<lparr>si_local_endpoint = srv_endpoint sv, si_is_stopped = s_stopped (srv_state sv),
      si_is_paused = s_paused (srv_state sv)\<rparr>"

text \<open>Snapshot and single flags agree, and the derived flags follow from the two.\<close>

lemma server_flags_consistent:
  "server_info_of sv = \<lparr>si_local_endpoint = server_local_endpoint sv, si_is_stopped = server_is_stopped sv,
     si_is_paused = server_is_paused sv\<rparr>"
  "server_is_accepting sv \<longleftrightarrow> server_is_started sv \<and> \<not> server_is_paused sv"
  "server_is_closed sv \<longleftrightarrow> \<not> server_is_started sv" "server_name sv = endpoint_as_str (server_endpoint sv)"
  by (auto simp: server_info_of_def server_local_endpoint_def server_is_stopped_def server_is_paused_def
      server_is_accepting_def server_is_started_def server_is_closed_def server_name_def server_endpoint_def)

section \<open>The server with its accepts\<close>

record accept_sys =
  as_server :: server
  as_accepts :: "accept_pc list"
  as_counter :: u64

datatype accept_action =
  StartAccept bool
| ResumeAccept nat accept_event
| DropAccept nat
| StopServer
| PauseServer
| ResumeServer

inductive accept_step :: "accept_sys \<Rightarrow> accept_action \<Rightarrow> accept_sys \<Rightarrow> bool" where
  start_accept:
    "accept_step s (StartAccept timed)
       (s\<lparr>as_accepts := as_accepts s @ [accept_start timed (as_server s)]\<rparr>)"
| resume_accept:
    "i < length (as_accepts s)
       \<Longrightarrow> accept_poll (as_accepts s ! i) ev (as_server s) (as_counter s) = Some (p, n)
       \<Longrightarrow> accept_step s (ResumeAccept i ev)
             (s\<lparr>as_accepts := (as_accepts s)[i := p], as_counter := n\<rparr>)"
| drop_accept:
    "i < length (as_accepts s) \<Longrightarrow> as_accepts s ! i = AcceptWait timed l
       \<Longrightarrow> accept_step s (DropAccept i) (s\<lparr>as_accepts := (as_accepts s)[i := AcceptDropped]\<rparr>)"
| stop_server: "accept_step s StopServer (s\<lparr>as_server := snd (stop_now (as_server s))\<rparr>)"
| pause_server: "accept_step s PauseServer (s\<lparr>as_server := server_pause (as_server s)\<rparr>)"
| resume_server: "accept_step s ResumeServer (s\<lparr>as_server := server_resume (as_server s)\<rparr>)"

inductive_cases accept_stepE: "accept_step s a t"

inductive_simps accept_resume_iff: "accept_step s (ResumeAccept i ev) t"

inductive accept_run :: "accept_sys \<Rightarrow> accept_action list \<Rightarrow> accept_sys \<Rightarrow> bool" where
  run_nil: "accept_run s [] s"
| run_cons: "accept_step s a t \<Longrightarrow> accept_run t as u \<Longrightarrow> accept_run s (a # as) u"

text \<open>A bound server: the listener slot, the flag and the token agree, and nothing is poisoned.\<close>

definition server_wf :: "server \<Rightarrow> bool" where
  "server_wf sv \<longleftrightarrow> \<not> srv_poisoned sv \<and> endpoint_as_str (srv_endpoint sv) \<noteq> []
     \<and> (srv_inner sv = None \<longleftrightarrow> s_stopped (srv_state sv)) \<and> srv_stop_token sv = s_stopped (srv_state sv)
     \<and> (s_stopped (srv_state sv) \<longrightarrow> \<not> s_paused (srv_state sv))"

lemma server_bind_Inr:
  "server_bind to_ns_name create name mode = Inr sv \<longleftrightarrow>
     name \<noteq> [] \<and> (\<exists>n l. to_ns_name name = Inr n \<and> create n mode = Inr l
       \<and> sv = \<lparr>srv_inner = Some l, srv_poisoned = False, srv_endpoint = Endpoint name,
                srv_state = server_state_default, srv_stop_token = False\<rparr>)"
  by (auto simp: server_bind_def try_result_Inr_iff get_async_socket_name_def split: sum.splits if_splits)

lemma server_wf_bind: "server_bind to_ns_name create name mode = Inr sv \<Longrightarrow> server_wf sv"
  by (auto simp: server_bind_Inr server_wf_def server_state_default_def)

lemma server_bind_windows_Inr:
  "server_bind_windows to_ns_name to_wide deserialize create name mode = Inr sv \<longleftrightarrow>
     name \<noteq> [] \<and> (\<exists>n l security. to_ns_name name = Inr n \<and> create n security = Inr l
       \<and> (case mode of None \<Rightarrow> security = None
          | Some sddl \<Rightarrow> \<exists>w sd. to_wide sddl = Inr w \<and> deserialize w = Inr sd \<and> security = Some sd)
       \<and> sv = \<lparr>srv_inner = Some l, srv_poisoned = False, srv_endpoint = Endpoint name,
                srv_state = server_state_default, srv_stop_token = False\<rparr>)"
  by (cases mode)
    (auto simp: server_bind_windows_def try_result_Inr_iff get_async_socket_name_def split: sum.splits if_splits)

text \<open>Both platforms start the same server; without a permission they make the same request.\<close>

lemma server_bind_platforms:
  "server_bind_windows to_ns_name to_wide deserialize create name mode = Inr sv \<Longrightarrow> server_wf sv"
  "server_bind_windows to_ns_name to_wide deserialize (\<lambda>n sd. listen n) name None
     = server_bind to_ns_name (\<lambda>n m. listen n) name None"
  by (auto simp: server_bind_windows_Inr server_wf_def server_state_default_def)
    (simp add: server_bind_windows_def server_bind_def)

lemma server_wf_ops:
  "server_wf sv \<Longrightarrow> server_wf (snd (stop_now sv))" "server_wf sv \<Longrightarrow> server_wf (server_pause sv)"
  "server_wf sv \<Longrightarrow> server_wf (server_resume sv)"
  by (auto simp: server_wf_def stop_now_def server_pause_def server_resume_def ss_stop_def ss_pause_def
      ss_resume_def Let_def)

lemma accept_step_wf: "accept_step s a t \<Longrightarrow> server_wf (as_server s) \<Longrightarrow> server_wf (as_server t)"
  by (erule accept_step.cases) (auto simp: server_wf_ops)

lemma accept_run_wf: "accept_run s as t \<Longrightarrow> server_wf (as_server s) \<Longrightarrow> server_wf (as_server t)"
  by (induction rule: accept_run.induct) (auto dest: accept_step_wf)

lemma stop_now_stopped:
  "server_wf sv \<Longrightarrow> fst (stop_now sv) = Inr () \<and> s_stopped (srv_state (snd (stop_now sv)))
     \<and> srv_inner (snd (stop_now sv)) = None"
  by (auto simp: stop_now_def ss_stop_def server_wf_def Let_def)

lemma accept_step_stopped:
  "accept_step s a t \<Longrightarrow> s_stopped (srv_state (as_server s)) \<Longrightarrow> s_stopped (srv_state (as_server t))"
  by (erule accept_step.cases)
    (auto simp: stop_now_def ss_stop_def server_pause_def server_resume_def ss_pause_def ss_resume_def Let_def)

lemma accept_run_stopped:
  "accept_run s as t \<Longrightarrow> s_stopped (srv_state (as_server s)) \<Longrightarrow> s_stopped (srv_state (as_server t))"
  by (induction rule: accept_run.induct) (auto dest: accept_step_stopped)

lemma accept_start_stopped:
  "server_wf sv \<Longrightarrow> s_stopped (srv_state sv) \<Longrightarrow> accept_start timed sv = AcceptDone (Inl err_srv_stopped)"
  by (simp add: accept_start_def server_listener_def server_wf_def)

text \<open>Accepts that were not pending when the server stopped never return a connection.\<close>

definition waiting :: "accept_sys \<Rightarrow> nat \<Rightarrow> bool" where
  "waiting s i \<longleftrightarrow> i < length (as_accepts s) \<and> (\<exists>timed l. as_accepts s ! i = AcceptWait timed l)"

lemma accept_poll_waiting:
  "accept_poll p ev sv n = Some (q, m) \<Longrightarrow> (\<exists>timed l. p = AcceptWait timed l) \<and> (\<exists>r. q = AcceptDone r)"
  by (cases "(p, ev, sv, n)" rule: accept_poll.cases)
    (auto simp: from_accepted_def core_new_def next_socket_id_def split: sum.splits if_splits)

lemma stopped_step_waiting:
  assumes "accept_step s a t" and "server_wf (as_server s)" and "s_stopped (srv_state (as_server s))"
  shows "(waiting t i \<longrightarrow> waiting s i)
    \<and> (length (as_accepts s) \<le> i \<and> i < length (as_accepts t)
         \<longrightarrow> as_accepts t ! i = AcceptDone (Inl err_srv_stopped))
    \<and> length (as_accepts s) \<le> length (as_accepts t)"
  using assms
proof cases
  case (start_accept timed)
  with accept_start_stopped [OF assms(2,3), of timed] show ?thesis
    by (auto simp: waiting_def nth_append less_Suc_eq)
next
  case (resume_accept j ev p n)
  from accept_poll_waiting [OF resume_accept(4)] resume_accept(2,3) show ?thesis
    by (auto simp: waiting_def nth_list_update)
next
  case (drop_accept j timed l)
  then show ?thesis by (auto simp: waiting_def nth_list_update)
qed (auto simp: waiting_def)

lemma accept_step_done:
  assumes "accept_step s a t" and "i < length (as_accepts s)" and "as_accepts s ! i = AcceptDone r"
  shows "i < length (as_accepts t) \<and> as_accepts t ! i = AcceptDone r"
  using assms
proof cases
  case (resume_accept j ev p n)
  from accept_poll_waiting [OF resume_accept(4)] resume_accept assms(2,3) show ?thesis
    by (auto simp: nth_list_update)
qed (auto simp: nth_append nth_list_update)

lemma stopped_run_refuses:
  assumes "accept_run s as t" and "server_wf (as_server s)" and "s_stopped (srv_state (as_server s))"
    and "n \<le> length (as_accepts s)"
    and "\<forall>i. n \<le> i \<and> i < length (as_accepts s) \<longrightarrow> as_accepts s ! i = AcceptDone (Inl err_srv_stopped)"
  shows "\<forall>i. n \<le> i \<and> i < length (as_accepts t) \<longrightarrow> as_accepts t ! i = AcceptDone (Inl err_srv_stopped)"
  using assms
proof (induction rule: accept_run.induct)
  case (run_nil s)
  then show ?case by simp
next
  case (run_cons s a t as u)
  from accept_step_wf [OF run_cons(1)] accept_step_stopped [OF run_cons(1)] run_cons(4,5)
  have wf: "server_wf (as_server t)" "s_stopped (srv_state (as_server t))" by auto
  have n: "n \<le> length (as_accepts t)"
    using stopped_step_waiting [OF run_cons(1,4,5), of n] run_cons(6) by linarith
  have refused: "as_accepts t ! i = AcceptDone (Inl err_srv_stopped)"
    if "n \<le> i" "i < length (as_accepts t)" for i
  proof (cases "i < length (as_accepts s)")
    case True
    with run_cons(7) that(1) have "as_accepts s ! i = AcceptDone (Inl err_srv_stopped)" by blast
    with accept_step_done [OF run_cons(1) True] show ?thesis by blast
  next
    case False
    with stopped_step_waiting [OF run_cons(1,4,5), of i] that(2) show ?thesis by simp
  qed
  show ?case by (rule run_cons(3) [OF wf n]) (use refused in simp)
qed

text \<open>The OS listener stays open while the slot or a pending accept has an \<open>Arc\<close> of it.\<close>

definition listener_live :: "accept_sys \<Rightarrow> bool" where
  "listener_live s \<longleftrightarrow> srv_inner (as_server s) \<noteq> None \<or> (\<exists>i. waiting s i)"

definition waiting_set :: "accept_sys \<Rightarrow> nat set" where
  "waiting_set s = {i. waiting s i}"

lemma finite_waiting: "finite (waiting_set s)"
  by (rule finite_subset [of _ "{..<length (as_accepts s)}"]) (auto simp: waiting_set_def waiting_def)

lemma stop_fires:
  assumes "waiting s i" and "srv_stop_token (as_server s)"
  shows "\<exists>t. accept_step s (ResumeAccept i StopFired) t \<and> as_server t = as_server s
    \<and> waiting_set t = waiting_set s - {i} \<and> as_accepts t ! i = AcceptDone (Inl err_srv_was_stopped)"
proof -
  from assms(1) obtain timed l where i: "i < length (as_accepts s)" "as_accepts s ! i = AcceptWait timed l"
    by (auto simp: waiting_def)
  let ?t = "s\<lparr>as_accepts := (as_accepts s)[i := AcceptDone (Inl err_srv_was_stopped)], as_counter := as_counter s\<rparr>"
  have "accept_step s (ResumeAccept i StopFired) ?t"
    using i assms(2) by (intro accept_step.resume_accept) simp_all
  moreover have "waiting_set ?t = waiting_set s - {i}"
    using i(1) by (auto simp: waiting_set_def waiting_def nth_list_update split: if_splits)
  ultimately show ?thesis using i by (intro exI [of _ ?t]) simp
qed

lemma stop_releases:
  assumes "server_wf (as_server s)" and "s_stopped (srv_state (as_server s))"
  shows "\<exists>as t. accept_run s as t \<and> (\<forall>a \<in> set as. \<exists>i. a = ResumeAccept i StopFired)
    \<and> (\<forall>i. \<not> waiting t i) \<and> \<not> listener_live t"
  using assms
proof (induction "card (waiting_set s)" arbitrary: s rule: less_induct)
  case less
  show ?case
  proof (cases "waiting_set s = {}")
    case True
    with less.prems have "\<not> listener_live s" "\<forall>i. \<not> waiting s i"
      by (auto simp: listener_live_def waiting_set_def server_wf_def)
    then show ?thesis by (intro exI [of _ "[]"] exI [of _ s]) (simp add: accept_run.run_nil)
  next
    case False
    then obtain i where i: "waiting s i" by (auto simp: waiting_set_def)
    from less.prems have "srv_stop_token (as_server s)" by (simp add: server_wf_def)
    from stop_fires [OF i this] obtain t where t: "accept_step s (ResumeAccept i StopFired) t"
      "as_server t = as_server s" "waiting_set t = waiting_set s - {i}" by blast
    have "card (waiting_set t) < card (waiting_set s)"
      unfolding t(3) by (rule card_Diff1_less [OF finite_waiting]) (simp add: waiting_set_def i)
    from less.hyps [OF this] t(2) less.prems obtain as u where "accept_run t as u"
      "\<forall>a \<in> set as. \<exists>i. a = ResumeAccept i StopFired" "\<forall>i. \<not> waiting u i" "\<not> listener_live u" by auto
    with t(1) show ?thesis
      by (intro exI [of _ "ResumeAccept i StopFired # as"] exI [of _ u]) (auto intro: accept_run.run_cons)
  qed
qed

section \<open>Properties\<close>

text \<open>A server that binds has the non-empty endpoint it was asked for, starts open and not
  paused, and an empty endpoint never binds, not even one made by the unchecked conversions.\<close>

theorem bound_server:
  "(server_bind to_ns_name create name mode = Inr sv
      \<longrightarrow> name \<noteq> [] \<and> endpoint_to_string (srv_endpoint sv) = name \<and> server_is_accepting sv \<and> server_wf sv)
   \<and> server_start to_ns_name create (endpoint_from_string []) = Inl err_endpoint_empty"
proof
  show "server_bind to_ns_name create name mode = Inr sv
      \<longrightarrow> name \<noteq> [] \<and> endpoint_to_string (srv_endpoint sv) = name \<and> server_is_accepting sv \<and> server_wf sv"
    using server_wf_bind [of to_ns_name create name mode sv]
    by (auto simp: server_bind_Inr endpoint_to_string_def server_is_accepting_def server_state_default_def)
qed (simp add: server_start_def server_bind_def endpoint_new_def endpoint_from_string_def)

lemma bound_server_witness:
  "server_wf \<lparr>srv_inner = Some 3, srv_poisoned = False, srv_endpoint = Endpoint ''demo'',
     srv_state = server_state_default, srv_stop_token = False\<rparr>"
  using bound_server [of "Inr" "\<lambda>n mode. Inr 3" "''demo''" None
      "\<lparr>srv_inner = Some 3, srv_poisoned = False, srv_endpoint = Endpoint ''demo'',
         srv_state = server_state_default, srv_stop_token = False\<rparr>"]
  by (simp add: server_bind_Inr)

text \<open>C38: Stopping succeeds and is final: in every continuation the server stays stopped with its listener slot empty,
  every accept started after the stop fails as stopped, and the accepts still pending can all be
  ended by the stop token alone, after which the OS listener is released.\<close>

theorem stop_is_final:
  assumes "server_wf (as_server s)" and "accept_run s (StopServer # as) t"
  shows "fst (stop_now (as_server s)) = Inr ()
    \<and> s_stopped (srv_state (as_server t)) \<and> srv_inner (as_server t) = None
    \<and> (\<forall>i. length (as_accepts s) \<le> i \<and> i < length (as_accepts t)
         \<longrightarrow> as_accepts t ! i = AcceptDone (Inl err_srv_stopped))
    \<and> (\<exists>bs u. accept_run t bs u \<and> (\<forall>b \<in> set bs. \<exists>i. b = ResumeAccept i StopFired) \<and> \<not> listener_live u)"
proof -
  let ?s = "s\<lparr>as_server := snd (stop_now (as_server s))\<rparr>"
  from assms(2) have run: "accept_run ?s as t"
    by (auto elim: accept_run.cases accept_step.cases)
  have wf: "server_wf (as_server ?s)" and stopped: "s_stopped (srv_state (as_server ?s))"
    using server_wf_ops(1) [OF assms(1)] stop_now_stopped [OF assms(1)] by simp_all
  from accept_run_wf [OF run wf] accept_run_stopped [OF run stopped]
  have t: "server_wf (as_server t)" "s_stopped (srv_state (as_server t))" .
  have "\<forall>i. length (as_accepts s) \<le> i \<and> i < length (as_accepts t)
      \<longrightarrow> as_accepts t ! i = AcceptDone (Inl err_srv_stopped)"
    by (rule stopped_run_refuses [OF run wf stopped]) auto
  with t stop_releases [OF t] stop_now_stopped [OF assms(1)] show ?thesis by (auto simp: server_wf_def)
qed

definition demo_server :: accept_sys where
  "demo_server = \<lparr>as_server = \<lparr>srv_inner = Some 3, srv_poisoned = False, srv_endpoint = Endpoint ''demo'',
     srv_state = server_state_default, srv_stop_token = False\<rparr>, as_accepts = [AcceptWait False 3], as_counter = 1\<rparr>"

lemma stop_is_final_witness:
  "\<exists>t. accept_run demo_server [StopServer, StartAccept True] t \<and> s_stopped (srv_state (as_server t))
     \<and> as_accepts t ! 1 = AcceptDone (Inl err_srv_stopped)"
proof -
  have wf: "server_wf (as_server demo_server)" by (simp add: demo_server_def server_wf_def server_state_default_def)
  note run = accept_run.run_cons [OF accept_step.stop_server
      accept_run.run_cons [OF accept_step.start_accept accept_run.run_nil], of demo_server True]
  obtain t where t: "accept_run demo_server [StopServer, StartAccept True] t" "length (as_accepts t) = 2"
    by (rule that [OF run]) (simp add: demo_server_def)
  from stop_is_final [OF wf t(1)] t show ?thesis by (auto simp: demo_server_def)
qed

end
