(* ===== verification/Server_Races.thy ===== *)
theory Server_Races
  imports Server_Model Atomic_Flags
begin

text \<open>
  \<open>Server\<close> of \<open>crates/taunicorn/src/lib.rs\<close> at the grain of its atomic operations: the loads, stores
  and swaps of \<open>ServerState\<close>, the cancellation of the stop token and each use of the mutex around the listener. Any number of
  pauses, resumes, stops, accepts (up to their wait) and \<open>is_accepting\<close> queries run at once.
  \<open>Server_Model\<close> takes each of these calls as one step.
\<close>

section \<open>The calls, one atomic operation at a time\<close>

text \<open>The flag in \<open>Stopped\<close> says whether the call was the one that stopped the server; \<open>stop\<close> itself keeps it.\<close>

datatype server_reply =
  ServerUnit | Stopped bool "anyhow + unit" | Accepting bool | ListenerHeld "anyhow + raw_listener"

datatype server_pc =
  ServerPauseLoad | ServerPauseStore
| ServerResumeLoad | ServerResumeStore
| StopSwap | StopPaused bool | StopToken | StopTake
| AcceptPaused | AcceptStopped | AcceptLock
| AcceptingStopped | AcceptingPaused
| ServerDone server_reply

definition set_stopped :: "server \<Rightarrow> server" where
  "set_stopped sv = sv\<lparr>srv_state := (srv_state sv)\<lparr>s_stopped := True\<rparr>\<rparr>"

definition set_paused :: "bool \<Rightarrow> server \<Rightarrow> server" where
  "set_paused b sv = sv\<lparr>srv_state := (srv_state sv)\<lparr>s_paused := b\<rparr>\<rparr>"

definition server_stopped :: "server \<Rightarrow> bool" where
  "server_stopped sv = s_stopped (srv_state sv)"

definition server_paused :: "server \<Rightarrow> bool" where
  "server_paused sv = s_paused (srv_state sv)"

fun server_step :: "server_pc \<Rightarrow> server \<Rightarrow> server_pc \<times> server" where
  "server_step ServerPauseLoad sv = (if server_stopped sv then ServerDone ServerUnit else ServerPauseStore, sv)"
| "server_step ServerPauseStore sv = (ServerDone ServerUnit, set_paused True sv)"
| "server_step ServerResumeLoad sv = (if server_stopped sv then ServerDone ServerUnit else ServerResumeStore, sv)"
| "server_step ServerResumeStore sv = (ServerDone ServerUnit, set_paused False sv)"
| "server_step StopSwap sv = (StopPaused (\<not> server_stopped sv), set_stopped sv)"
| "server_step (StopPaused won) sv =
     (if won then StopToken else ServerDone (Stopped False (Inr ())), set_paused False sv)"
| "server_step StopToken sv = (StopTake, sv\<lparr>srv_stop_token := True\<rparr>)"
| "server_step StopTake sv =
     (if srv_poisoned sv then (ServerDone (Stopped True (Inl err_srv_poisoned)), sv)
      else (ServerDone (Stopped True (Inr ())), sv\<lparr>srv_inner := None\<rparr>))"
| "server_step AcceptPaused sv =
     (if server_paused sv then ServerDone (ListenerHeld (Inl err_srv_paused)) else AcceptStopped, sv)"
| "server_step AcceptStopped sv =
     (if server_stopped sv then ServerDone (ListenerHeld (Inl err_srv_stopped)) else AcceptLock, sv)"
| "server_step AcceptLock sv =
     (ServerDone (ListenerHeld
        (if srv_poisoned sv then Inl err_srv_poisoned
         else (case srv_inner sv of None \<Rightarrow> Inl err_srv_stopped | Some l \<Rightarrow> Inr l))), sv)"
| "server_step AcceptingStopped sv = (if server_stopped sv then ServerDone (Accepting False) else AcceptingPaused, sv)"
| "server_step AcceptingPaused sv = (ServerDone (Accepting (\<not> server_paused sv)), sv)"
| "server_step (ServerDone r) sv = (ServerDone r, sv)"

type_synonym server_race = "(server_pc, server) race"

definition server_run :: "nat list \<Rightarrow> server_race \<Rightarrow> server_race" where
  "server_run is s = race_run server_step is s"

definition server_solo :: "nat \<Rightarrow> server_pc \<Rightarrow> server \<Rightarrow> server_pc \<times> server" where
  "server_solo n p sv = race_solo server_step n p sv"

section \<open>Who stopped the server\<close>

fun stopper :: "server_pc \<Rightarrow> nat" where
  "stopper (StopPaused won) = (if won then 1 else 0)"
| "stopper StopToken = 1"
| "stopper StopTake = 1"
| "stopper (ServerDone (Stopped won r)) = (if won then 1 else 0)"
| "stopper p = 0"

definition stoppers :: "server_race \<Rightarrow> nat" where
  "stoppers s = sum_list (map stopper (rc_calls s))"

definition no_server_pause :: "server_race \<Rightarrow> bool" where
  "no_server_pause s \<longleftrightarrow> ServerPauseStore \<notin> set (rc_calls s)"

lemma server_flag_simps [simp]:
  "server_stopped (set_stopped sv)" "server_stopped (set_paused b sv) = server_stopped sv"
  "server_paused (set_paused b sv) = b" "server_paused (set_stopped sv) = server_paused sv"
  "server_stopped (sv\<lparr>srv_stop_token := t\<rparr>) = server_stopped sv" "server_stopped (sv\<lparr>srv_inner := i\<rparr>) = server_stopped sv"
  "server_paused (sv\<lparr>srv_stop_token := t\<rparr>) = server_paused sv" "server_paused (sv\<lparr>srv_inner := i\<rparr>) = server_paused sv"
  "srv_stop_token (set_paused b sv) = srv_stop_token sv" "srv_stop_token (set_stopped sv) = srv_stop_token sv"
  "srv_inner (set_paused b sv) = srv_inner sv" "srv_inner (set_stopped sv) = srv_inner sv"
  "srv_poisoned (set_paused b sv) = srv_poisoned sv" "srv_poisoned (set_stopped sv) = srv_poisoned sv"
  by (simp_all add: server_stopped_def server_paused_def set_stopped_def set_paused_def)

interpretation server_flags: atomic_flags server_step server_stopped server_paused stopper "\<lambda>p. p = ServerPauseStore"
proof
  fix p s q t
  assume "server_step p s = (q, t)"
  then show "stopper q = stopper p + (if \<not> server_stopped s \<and> server_stopped t then 1 else 0)"
    "server_stopped s \<Longrightarrow> server_stopped t" "server_stopped s \<Longrightarrow> q = ServerPauseStore \<Longrightarrow> p = ServerPauseStore"
    "server_stopped s \<Longrightarrow> p \<noteq> ServerPauseStore \<Longrightarrow> server_paused t \<Longrightarrow> server_paused s"
    by (cases p; auto split: if_splits)+
qed

lemma server_flags_simps:
  "server_flags.claims s = stoppers s" "server_flags.no_pausing s \<longleftrightarrow> no_server_pause s"
  by (auto simp: server_flags.claims_def stoppers_def server_flags.no_pausing_def no_server_pause_def)

section \<open>What a stop leaves behind\<close>

text \<open>
  Between the swap and the end of its call the winner has work left: to cancel the token, then to take the listener
  (which it cannot if the mutex is poisoned).
\<close>

definition some_call :: "server_pc set \<Rightarrow> server_race \<Rightarrow> bool" where
  "some_call S s \<longleftrightarrow> (\<exists>j < length (rc_calls s). rc_calls s ! j \<in> S)"

definition token_due :: "server_race \<Rightarrow> bool" where
  "token_due s \<longleftrightarrow>
     (server_stopped (rc_flags s) \<longrightarrow> srv_stop_token (rc_flags s) \<or> some_call {StopPaused True, StopToken} s)"

definition listener_due :: "server_race \<Rightarrow> bool" where
  "listener_due s \<longleftrightarrow>
     (server_stopped (rc_flags s) \<longrightarrow> srv_inner (rc_flags s) = None \<or> srv_poisoned (rc_flags s)
        \<or> some_call {StopPaused True, StopToken, StopTake} s)"

definition stopped_first :: "server_race \<Rightarrow> bool" where
  "stopped_first s \<longleftrightarrow>
     (srv_stop_token (rc_flags s) \<or> some_call {StopPaused True, StopPaused False, StopToken, StopTake} s
        \<longrightarrow> server_stopped (rc_flags s))"

definition token_first :: "server_race \<Rightarrow> bool" where
  "token_first s \<longleftrightarrow>
     (srv_inner (rc_flags s) = None \<or> some_call {StopTake} s \<longrightarrow> srv_stop_token (rc_flags s))"

definition stop_inv :: "server_race \<Rightarrow> bool" where
  "stop_inv s \<longleftrightarrow> token_due s \<and> listener_due s \<and> stopped_first s \<and> token_first s"

lemma some_call_update:
  "i < length cs \<Longrightarrow> some_call S \<lparr>rc_flags = f, rc_calls = cs[i := q]\<rparr> \<longleftrightarrow>
     q \<in> S \<or> (\<exists>j < length cs. j \<noteq> i \<and> cs ! j \<in> S)"
  by (auto simp: some_call_def nth_list_update)

lemma some_call_split:
  "i < length (rc_calls s) \<Longrightarrow> some_call S s \<longleftrightarrow>
     rc_calls s ! i \<in> S \<or> (\<exists>j < length (rc_calls s). j \<noteq> i \<and> rc_calls s ! j \<in> S)"
  by (auto simp: some_call_def)

lemma token_due_step:
  assumes "token_due s" and i: "i < length (rc_calls s)" and qt: "server_step (rc_calls s ! i) (rc_flags s) = (q, t)"
  shows "token_due \<lparr>rc_flags = t, rc_calls = (rc_calls s)[i := q]\<rparr>"
proof -
  define others where "others S \<longleftrightarrow> (\<exists>j < length (rc_calls s). j \<noteq> i \<and> rc_calls s ! j \<in> S)" for S
  show ?thesis
    using assms(1) qt
    unfolding token_due_def some_call_update [OF i] some_call_split [OF i] others_def [symmetric]
    by (cases "rc_calls s ! i") (auto split: if_splits)
qed

lemma listener_due_step:
  assumes "listener_due s" and i: "i < length (rc_calls s)" and qt: "server_step (rc_calls s ! i) (rc_flags s) = (q, t)"
  shows "listener_due \<lparr>rc_flags = t, rc_calls = (rc_calls s)[i := q]\<rparr>"
proof -
  define others where "others S \<longleftrightarrow> (\<exists>j < length (rc_calls s). j \<noteq> i \<and> rc_calls s ! j \<in> S)" for S
  show ?thesis
    using assms(1) qt
    unfolding listener_due_def some_call_update [OF i] some_call_split [OF i] others_def [symmetric]
    by (cases "rc_calls s ! i") (auto split: if_splits)
qed

lemma stopped_first_step:
  assumes "stopped_first s" and i: "i < length (rc_calls s)" and qt: "server_step (rc_calls s ! i) (rc_flags s) = (q, t)"
  shows "stopped_first \<lparr>rc_flags = t, rc_calls = (rc_calls s)[i := q]\<rparr>"
proof -
  define others where "others S \<longleftrightarrow> (\<exists>j < length (rc_calls s). j \<noteq> i \<and> rc_calls s ! j \<in> S)" for S
  show ?thesis
    using assms(1) qt
    unfolding stopped_first_def some_call_update [OF i] some_call_split [OF i] others_def [symmetric]
    by (cases "rc_calls s ! i") (auto split: if_splits)
qed

lemma token_first_step:
  assumes "token_first s" and i: "i < length (rc_calls s)" and qt: "server_step (rc_calls s ! i) (rc_flags s) = (q, t)"
  shows "token_first \<lparr>rc_flags = t, rc_calls = (rc_calls s)[i := q]\<rparr>"
proof -
  define others where "others S \<longleftrightarrow> (\<exists>j < length (rc_calls s). j \<noteq> i \<and> rc_calls s ! j \<in> S)" for S
  show ?thesis
    using assms(1) qt
    unfolding token_first_def some_call_update [OF i] some_call_split [OF i] others_def [symmetric]
    by (cases "rc_calls s ! i") (auto split: if_splits)
qed

lemma stop_inv_sched: "stop_inv s \<Longrightarrow> stop_inv (race_sched server_step i s)"
proof (cases "i < length (rc_calls s)")
  case True
  assume "stop_inv s"
  moreover obtain q t where qt: "server_step (rc_calls s ! i) (rc_flags s) = (q, t)" by fastforce
  moreover have "race_sched server_step i s = \<lparr>rc_flags = t, rc_calls = (rc_calls s)[i := q]\<rparr>"
    using True qt by (simp add: race_sched_def)
  ultimately show ?thesis
    using token_due_step listener_due_step stopped_first_step token_first_step True by (simp add: stop_inv_def)
qed (simp add: race_sched_def)

lemma stop_inv_run: "stop_inv s \<Longrightarrow> stop_inv (race_run server_step is s)"
  by (induction "is" arbitrary: s) (simp_all add: stop_inv_sched)

section \<open>Properties\<close>

text \<open>Undisturbed, the calls on a server do exactly what their one-step models in \<open>Server_Model\<close> do: the atomic operations
  of \<open>pause\<close>, \<open>resume\<close>, \<open>stop\<close>, \<open>is_accepting\<close> and of \<open>accept\<close> up to its wait compute \<open>server_pause\<close>,
  \<open>server_resume\<close>, \<open>stop_now\<close>, \<open>server_is_accepting\<close> and \<open>server_listener\<close>.\<close>

theorem server_calls_alone:
  "server_solo 2 ServerPauseLoad sv = (ServerDone ServerUnit, server_pause sv)
   \<and> server_solo 2 ServerResumeLoad sv = (ServerDone ServerUnit, server_resume sv)
   \<and> server_solo 4 StopSwap sv = (ServerDone (Stopped (\<not> s_stopped (srv_state sv)) (fst (stop_now sv))), snd (stop_now sv))
   \<and> server_solo 2 AcceptingStopped sv = (ServerDone (Accepting (server_is_accepting sv)), sv)
   \<and> server_solo 3 AcceptPaused sv
       = (ServerDone (ListenerHeld (if s_paused (srv_state sv) then Inl err_srv_paused else server_listener sv)), sv)"
  by (auto simp: server_solo_def numeral_eq_Suc server_pause_def server_resume_def stop_now_def ss_pause_def ss_resume_def
      ss_stop_def set_paused_def set_stopped_def server_stopped_def server_paused_def server_is_accepting_def
      server_listener_def Let_def)

text \<open>A server nobody has stopped, and calls that have not begun.\<close>

definition server_starts :: "server_race \<Rightarrow> bool" where
  "server_starts s \<longleftrightarrow>
     \<not> server_stopped (rc_flags s) \<and> \<not> srv_stop_token (rc_flags s) \<and> srv_inner (rc_flags s) \<noteq> None
     \<and> list_all (\<lambda>p. p \<in> {ServerPauseLoad, ServerResumeLoad, StopSwap, AcceptPaused, AcceptingStopped}) (rc_calls s)"

lemma server_starts_inv: "server_starts s \<Longrightarrow> stop_inv s \<and> stoppers s = 0"
proof -
  assume s: "server_starts s"
  then have e: "rc_calls s ! j \<in> {ServerPauseLoad, ServerResumeLoad, StopSwap, AcceptPaused, AcceptingStopped}"
    if "j < length (rc_calls s)" for j
    using that by (simp only: server_starts_def list_all_length)
  have n: "\<not> some_call {StopPaused True, StopPaused False, StopToken, StopTake} s" "\<not> some_call {StopTake} s"
    unfolding some_call_def using e by fastforce+
  have "stopper p = 0" if "p \<in> set (rc_calls s)" for p
    using that s by (auto simp: server_starts_def list_all_iff)
  then have "stoppers s = 0" by (simp add: stoppers_def)
  with s n show ?thesis
    by (simp add: stop_inv_def token_due_def listener_due_def stopped_first_def token_first_def server_starts_def)
qed

text \<open>C28: In every interleaving of the atomic operations of any number of pauses, resumes, stops, accepts and queries on a server:
  it stays stopped once one stop swapped the flag, and exactly that one cancels the token and takes the listener; when no stop
  has work left the token is cancelled, so that every waiting accept is interrupted, and the listener is gone (unless the
  mutex was poisoned); an accept that begins later never gets the listener; and with no pause in flight the
  paused flag is never set again.\<close>

theorem server_stop_interleaved:
  assumes "server_starts s" and "t = server_run is s"
  shows "stoppers t = (if server_stopped (rc_flags t) then 1 else 0)
    \<and> (server_stopped (rc_flags t) \<longrightarrow>
         server_stopped (rc_flags (server_run js t)) \<and> stoppers (server_run js t) = 1
         \<and> (\<not> some_call {StopPaused True, StopToken, StopTake} t \<longrightarrow>
              srv_stop_token (rc_flags t) \<and> (srv_inner (rc_flags t) = None \<or> srv_poisoned (rc_flags t)))
         \<and> (i < length (rc_calls t) \<and> rc_calls t ! i = AcceptPaused \<longrightarrow>
              rc_calls (server_run js t) ! i \<in> {AcceptPaused, AcceptStopped, ServerDone (ListenerHeld (Inl err_srv_paused)),
                ServerDone (ListenerHeld (Inl err_srv_stopped))})
         \<and> (no_server_pause t \<and> \<not> server_paused (rc_flags t) \<longrightarrow> \<not> server_paused (rc_flags (server_run js t))))"
proof -
  from server_starts_inv [OF assms(1)] have inv: "stop_inv t" and none: "stoppers s = 0" "\<not> server_stopped (rc_flags s)"
    using stop_inv_run assms by (simp_all add: server_run_def server_starts_def)
  let ?refused = "{AcceptPaused, AcceptStopped, ServerDone (ListenerHeld (Inl err_srv_paused)),
    ServerDone (ListenerHeld (Inl err_srv_stopped))}"
  have late: "rc_calls (server_run js t) ! i \<in> ?refused"
    if "server_stopped (rc_flags t)" "i < length (rc_calls t)" "rc_calls t ! i = AcceptPaused"
    unfolding server_run_def
    by (rule server_flags.run_call [where P = "\<lambda>p. p \<in> ?refused"]) (use that in \<open>auto split: if_splits\<close>)
  have some: "some_call {StopPaused True, StopToken} t \<Longrightarrow> some_call {StopPaused True, StopToken, StopTake} t"
    by (auto simp: some_call_def)
  have counts: "stoppers t = (if server_stopped (rc_flags t) then 1 else 0)"
    "server_stopped (rc_flags t) \<Longrightarrow> server_stopped (rc_flags (server_run js t)) \<and> stoppers (server_run js t) = stoppers t"
    using server_flags.run_claims [of "is" s] server_flags.run_claims [of js t] none assms(2)
    by (simp_all add: server_flags_simps server_run_def)
  have unpaused: "server_stopped (rc_flags t) \<Longrightarrow> no_server_pause t \<Longrightarrow>
      server_paused (rc_flags (server_run js t)) \<Longrightarrow> server_paused (rc_flags t)"
    using server_flags.run_no_pausing [of t js] by (simp add: server_flags_simps server_run_def)
  have taken: "server_stopped (rc_flags t) \<Longrightarrow> \<not> some_call {StopPaused True, StopToken, StopTake} t \<Longrightarrow>
      srv_stop_token (rc_flags t) \<and> (srv_inner (rc_flags t) = None \<or> srv_poisoned (rc_flags t))"
    using inv some by (auto simp: stop_inv_def token_due_def listener_due_def)
  show ?thesis using counts late taken by (simp, blast dest: unpaused)
qed

definition race_server :: server where
  "race_server = \<lparr>srv_inner = Some 3, srv_poisoned = False, srv_endpoint = Endpoint ''demo'',
     srv_state = server_state_default, srv_stop_token = False\<rparr>"

lemma server_stop_interleaved_witness:
  "stoppers (server_run [0, 1, 0, 1, 0, 0] \<lparr>rc_flags = race_server, rc_calls = [StopSwap, StopSwap]\<rparr>) = 1
   \<and> srv_inner (rc_flags (server_run [0, 1, 0, 1, 0, 0] \<lparr>rc_flags = race_server, rc_calls = [StopSwap, StopSwap]\<rparr>)) = None"
proof -
  let ?s = "\<lparr>rc_flags = race_server, rc_calls = [StopSwap, StopSwap]\<rparr>"
  let ?t = "server_run [0, 1, 0, 1, 0, 0] ?s"
  have s: "server_starts ?s"
    by (simp add: server_starts_def race_server_def server_stopped_def server_state_default_def)
  have t: "?t = \<lparr>rc_flags = race_server\<lparr>srv_inner := None, srv_stop_token := True,
      srv_state := \<lparr>s_stopped = True, s_paused = False\<rparr>\<rparr>,
      rc_calls = [ServerDone (Stopped True (Inr ())), ServerDone (Stopped False (Inr ()))]\<rparr>"
    by (simp add: server_run_def race_sched_def race_server_def server_stopped_def server_state_default_def
        set_stopped_def set_paused_def)
  have st: "server_stopped (rc_flags ?t)" "\<not> some_call {StopPaused True, StopToken, StopTake} ?t"
    "\<not> srv_poisoned (rc_flags ?t)"
    unfolding t by (auto simp: server_stopped_def some_call_def race_server_def less_Suc_eq nth_Cons')
  from server_stop_interleaved [OF s refl, of "[0, 1, 0, 1, 0, 0]"] st show ?thesis by simp
qed

text \<open>C31: \<open>is_accepting\<close> reads two flags that a stop changes between the two reads: on a paused server that is being stopped it
  can answer that the server accepts, although at no moment of the schedule it did.\<close>

theorem is_accepting_race:
  assumes "s_paused (srv_state sv)" and "\<not> s_stopped (srv_state sv)"
  shows "let s = \<lparr>rc_flags = sv, rc_calls = [AcceptingStopped, StopSwap]\<rparr> in
    rc_calls (server_run [0, 1, 1, 0] s) ! 0 = ServerDone (Accepting True)
    \<and> (\<forall>k. \<not> server_is_accepting (rc_flags (server_run (take k [0, 1, 1, 0]) s)))"
proof -
  let ?s = "\<lparr>rc_flags = sv, rc_calls = [AcceptingStopped, StopSwap]\<rparr>"
  note defs = server_run_def race_sched_def server_stopped_def server_paused_def set_stopped_def set_paused_def
    server_is_accepting_def
  have "rc_calls (server_run [0, 1, 1, 0] ?s) ! 0 = ServerDone (Accepting True)"
    using assms by (simp add: defs)
  moreover have "\<not> server_is_accepting (rc_flags (server_run (take k [0, 1, 1, 0]) ?s))" for k
  proof -
    have "k \<in> {0, 1, 2, 3} \<or> take k [0, 1, 1, 0 :: nat] = [0, 1, 1, 0]" by auto
    then show ?thesis using assms by (auto simp: defs numeral_eq_Suc)
  qed
  ultimately show ?thesis by (simp add: Let_def)
qed

lemma is_accepting_race_witness:
  "rc_calls (server_run [0, 1, 1, 0]
     \<lparr>rc_flags = race_server\<lparr>srv_state := \<lparr>s_stopped = False, s_paused = True\<rparr>\<rparr>, rc_calls = [AcceptingStopped, StopSwap]\<rparr>) ! 0
   = ServerDone (Accepting True)"
  using is_accepting_race [of "race_server\<lparr>srv_state := \<lparr>s_stopped = False, s_paused = True\<rparr>\<rparr>"]
  by (simp add: Let_def)

end
