(* ===== verification/Handshake_Props.thy ===== *)
theory Handshake_Props
  imports Secure_Props
begin

text \<open>
  The properties of the handshake: what a returned session proves about the peer, that two sessions
  of one transcript agree on everything, and that two honest sides always complete it.
\<close>

section \<open>An honest run\<close>

lemma honest_handshake:
  assumes "crypto_ok cr" and "was_contributory cr (diffie_hellman cr ec (ephemeral_public cr es))"
    and "length nc = HANDSHAKE_NONCE_SIZE" and "length ns = HANDSHAKE_NONCE_SIZE"
  shows "\<exists>to_server to_client cs ss. send_state cs = receive_state ss \<and> receive_state cs = send_state ss
    \<and> transcript_hash cs = transcript_hash ss
    \<and> direction_ok (send_state cs) \<and> direction_ok (send_state ss)
    \<and> ds_sequence (send_state cs) = 1 \<and> ds_sequence (send_state ss) = 1
    \<and> (\<forall>w rest. net_live w \<and> net_in w = to_client @ rest \<and> 512 \<le> net_fuel w \<longrightarrow>
         (\<exists>w'. client cr conn_receive conn_send ec (Inr nc) ic (identity_public cr ips) w = (Ret cs, w')
            \<and> net_out w' = net_out w @ to_server \<and> net_in w' = rest \<and> net_live w' \<and> net_fuel w \<le> net_fuel w' + 456))
    \<and> (\<forall>w rest. net_live w \<and> net_in w = to_server @ rest \<and> 512 \<le> net_fuel w \<longrightarrow>
         (\<exists>w'. server cr conn_receive conn_send es (Inr ns) (identity_public cr ic) ips w = (Ret ss, w')
            \<and> net_out w' = net_out w @ to_client \<and> net_in w' = rest \<and> net_live w' \<and> net_fuel w \<le> net_fuel w' + 456))"
proof -
  let ?hc = "hello_of_client cr ic ec nc (identity_public cr ips)"
  let ?hs = "hello_of_server cr ips es ns ?hc"
  have ok: "aead_ok cr" "aead_total cr" "sizes_ok cr" using assms(1) by (simp_all add: crypto_ok_def)
  from honest_accept [OF assms(1,2), of ips ic nc ns] obtain cs ss where
    chk: "server_check cr (identity_public cr ips) (identity_public cr ic) ?hc = Inr ()"
    and acc: "client_accept cr (identity_public cr ic) ec nc (identity_public cr ips) ?hs = Inr cs"
      "server_accept cr (identity_public cr ips) es ns ?hc = Inr ss"
    and mirror: "send_state cs = receive_state ss" "receive_state cs = send_state ss"
      "transcript_hash cs = transcript_hash ss"
    and zero: "ds_sequence (send_state cs) = 0" "ds_sequence (send_state ss) = 0"
    and dir: "direction_ok (send_state cs)" "direction_ok (send_state ss)"
    by blast
  have wf: "client_hello_wf ?hc" "server_hello_wf ?hs" using honest_hellos_wf [OF ok(3) assms(3,4)] by blast+
  have msgs: "\<forall>p \<in> set [SERVER_FINISHED]. message_ok p" "\<forall>p \<in> set [CLIENT_FINISHED]. message_ok p"
    by (simp_all add: message_ok_def SERVER_FINISHED_def CLIENT_FINISHED_def ascii_def MAX_FRAME_SIZE_def size_defs)
  from seal_all_total [OF ok(1,2) dir(2) _ msgs(1), of "transcript_hash ss"] zero obtain g m where
    g: "seal cr (transcript_hash ss) (send_state ss) SERVER_FINISHED = Inr (g, m)"
    by (auto split: sum.splits prod.splits)
  from seal_all_total [OF ok(1,2) dir(1) _ msgs(2), of "transcript_hash cs"] zero obtain f n where
    f: "seal cr (transcript_hash cs) (send_state cs) CLIENT_FINISHED = Inr (f, n)"
    by (auto split: sum.splits prod.splits)
  from g f seal_unseal [OF ok(1)] mirror have
    gu: "unseal cr (transcript_hash cs) (receive_state cs) g = Inr (SERVER_FINISHED, m)"
    and fu: "unseal cr (transcript_hash ss) (receive_state ss) f = Inr (CLIENT_FINISHED, n)"
    by metis+
  let ?S = "frame_bytes (encode_client_hello ?hc) @ frame_bytes f"
  let ?C = "frame_bytes (encode_server_hello ?hs) @ frame_bytes g"
  let ?cs = "set_send_sequence n (set_receive_sequence m cs)"
  let ?ss = "set_receive_sequence n (set_send_sequence m ss)"
  have "\<exists>w'. client cr conn_receive conn_send ec (Inr nc) ic (identity_public cr ips) w = (Ret ?cs, w')
      \<and> net_out w' = net_out w @ ?S \<and> net_in w' = rest \<and> net_live w' \<and> net_fuel w \<le> net_fuel w' + 456"
    if "net_live w" "net_in w = ?C @ rest" "512 \<le> net_fuel w" for w rest
    using conn_stream.client_run [OF ok(1) wf acc(1) gu f that(1) _ that(3), of rest] that(2) by simp blast
  moreover have "\<exists>w'. server cr conn_receive conn_send es (Inr ns) (identity_public cr ic) ips w = (Ret ?ss, w')
      \<and> net_out w' = net_out w @ ?C \<and> net_in w' = rest \<and> net_live w' \<and> net_fuel w \<le> net_fuel w' + 456"
    if "net_live w" "net_in w = ?S @ rest" "512 \<le> net_fuel w" for w rest
    using conn_stream.server_run [OF ok(1) wf chk acc(2) g fu that(1) _ that(3), of rest] that(2) by simp blast
  moreover have "ds_sequence (send_state ?cs) = 1" "ds_sequence (send_state ?ss) = 1"
    using f g zero by (auto simp: seal_Inr_iff)
  moreover have "direction_ok (send_state ?cs)" "direction_ok (send_state ?ss)" using dir by simp_all
  moreover have "send_state ?cs = receive_state ?ss" "receive_state ?cs = send_state ?ss"
    "transcript_hash ?cs = transcript_hash ?ss"
    using mirror by simp_all
  ultimately show ?thesis by blast
qed

text \<open>One honest run with the toy instance, for the witnesses.\<close>

definition toy_keys :: "byte \<Rightarrow> bytes" where
  "toy_keys b = replicate 32 b"

lemma toy_keys_length [simp]: "length (toy_keys b) = 32"
  by (simp add: toy_keys_def)

lemma toy_contributory:
  "was_contributory toy (diffie_hellman toy (toy_keys 3) (ephemeral_public toy (toy_keys 4)))"
  by (simp add: toy_def toy_keys_def pad_def zip_replicate)

lemma toy_handshake:
  "\<exists>to_server to_client cs ss w1 w2.
     client toy conn_receive conn_send (toy_keys 3) (Inr (toy_keys 5)) (toy_keys 1)
       (identity_public toy (toy_keys 2)) (demo_net (replicate 600 6) to_client) = (Ret cs, w1)
     \<and> server toy conn_receive conn_send (toy_keys 4) (Inr (toy_keys 6)) (identity_public toy (toy_keys 1))
         (toy_keys 2) (demo_net (replicate 600 6) to_server) = (Ret ss, w2)"
proof -
  have n: "length (toy_keys 5) = HANDSHAKE_NONCE_SIZE" "length (toy_keys 6) = HANDSHAKE_NONCE_SIZE"
    by (simp_all add: size_defs)
  have "512 \<le> net_fuel (demo_net (replicate 600 6) x)" for x by simp
  with honest_handshake [OF toy_crypto_ok toy_contributory n, of "toy_keys 1" "toy_keys 2"] demo_net_live
  show ?thesis by (metis demo_net_parts(1))
qed

section \<open>Properties\<close>

text \<open>C2: A client gets a session only from a server that proved the pinned identity: a signature that
  verifies under the pinned key covers the client's own identity, ephemeral key and nonce and the
  server's ephemeral key and nonce, the shared secret is contributory, the session keys come from
  exactly that secret and that transcript, and the server's key confirmation decrypted under them.\<close>

theorem client_session_authenticated:
  assumes "client cr recv send ec random ic pinned w = (Ret ss, w')"
  shows "\<exists>nc f m s km frame. random = Inr nc
    \<and> verify_signature cr pinned
         (server_signature_message (ephemeral_public cr ec) (identity_public cr ic) nc f pinned m) s = Inr ()
    \<and> was_contributory cr (diffie_hellman cr ec f)
    \<and> transcript_hash ss = handshake_transcript_hash (sha256 cr) (ephemeral_public cr ec)
         (identity_public cr ic) nc f pinned m
    \<and> derive_key_material (hkdf_sha256 cr) (diffie_hellman cr ec f) (transcript_hash ss) = Inr km
    \<and> send_state ss = \<lparr>ds_cipher = client_to_server_key km, ds_direction = DIRECTION_CLIENT_TO_SERVER,
         ds_nonce_prefix = client_to_server_nonce_prefix km, ds_sequence = 1\<rparr>
    \<and> receive_state ss = \<lparr>ds_cipher = server_to_client_key km, ds_direction = DIRECTION_SERVER_TO_CLIENT,
         ds_nonce_prefix = server_to_client_nonce_prefix km, ds_sequence = 1\<rparr>
    \<and> unseal cr (transcript_hash ss) (at_sequence (receive_state ss) 0) frame = Inr (SERVER_FINISHED, 1)"
  using assms
proof (rule client_RetE)
  fix nc hello ss0 f n g m
  assume nc: "random = Inr nc" and acc: "client_accept cr (identity_public cr ic) ec nc pinned hello = Inr ss0"
    and f: "unseal cr (transcript_hash ss0) (receive_state ss0) f = Inr (SERVER_FINISHED, n)"
    and g: "seal cr (transcript_hash ss0) (send_state ss0) CLIENT_FINISHED = Inr (g, m)"
    and ss: "ss = set_send_sequence m (set_receive_sequence n ss0)"
  from client_accept_Inr [OF acc] client_session_Inr obtain km where
    sig: "verify_signature cr pinned (server_signature_message (ephemeral_public cr ec) (identity_public cr ic) nc
         (sh_ephemeral_public_key hello) pinned (sh_nonce hello)) (sh_signature hello) = Inr ()"
      "was_contributory cr (diffie_hellman cr ec (sh_ephemeral_public_key hello))"
    and km: "derive_key_material (hkdf_sha256 cr) (diffie_hellman cr ec (sh_ephemeral_public_key hello))
         (transcript_hash ss0) = Inr km"
    and hash: "transcript_hash ss0 = handshake_transcript_hash (sha256 cr) (ephemeral_public cr ec)
         (identity_public cr ic) nc (sh_ephemeral_public_key hello) pinned (sh_nonce hello)"
    and states: "send_state ss0 = \<lparr>ds_cipher = client_to_server_key km, ds_direction = DIRECTION_CLIENT_TO_SERVER,
         ds_nonce_prefix = client_to_server_nonce_prefix km, ds_sequence = 0\<rparr>"
      "receive_state ss0 = \<lparr>ds_cipher = server_to_client_key km, ds_direction = DIRECTION_SERVER_TO_CLIENT,
         ds_nonce_prefix = server_to_client_nonce_prefix km, ds_sequence = 0\<rparr>"
    by (metis (no_types, lifting) session.select_convs)
  have "m = 1" "n = 1" using f g states by (auto simp: seal_Inr_iff unseal_Inr_iff)
  then have "unseal cr (transcript_hash ss) (at_sequence (receive_state ss) 0) f = Inr (SERVER_FINISHED, 1)"
    using f ss states by (simp add: at_sequence_def)
  with nc sig km hash states ss \<open>m = 1\<close> \<open>n = 1\<close> show ?thesis
    by (intro exI [of _ nc] exI [of _ "sh_ephemeral_public_key hello"] exI [of _ "sh_nonce hello"]
        exI [of _ "sh_signature hello"] exI [of _ km] exI [of _ f]) (simp add: at_sequence_def)
qed

lemma client_session_authenticated_witness:
  "\<exists>ss w w' s f m. client toy conn_receive conn_send (toy_keys 3) (Inr (toy_keys 5)) (toy_keys 1)
       (identity_public toy (toy_keys 2)) w = (Ret ss, w')
     \<and> verify_signature toy (identity_public toy (toy_keys 2))
         (server_signature_message (ephemeral_public toy (toy_keys 3)) (identity_public toy (toy_keys 1))
            (toy_keys 5) f (identity_public toy (toy_keys 2)) m) s = Inr ()"
proof -
  from toy_handshake obtain w ss w' where
    c: "client toy conn_receive conn_send (toy_keys 3) (Inr (toy_keys 5)) (toy_keys 1)
      (identity_public toy (toy_keys 2)) w = (Ret ss, w')" by blast
  from client_session_authenticated [OF c] c show ?thesis by (elim exE conjE) (auto intro!: exI)
qed

text \<open>C8: A server gets a session only from a client that proved the pinned identity for this very server: a
  signature that verifies under the pinned key covers the server's identity, and the client's ephemeral
  key and nonce; the keys come from that exchange, and the client's key confirmation decrypted
  under them.\<close>

theorem server_session_authenticated:
  assumes "server cr recv send es random pinned ips w = (Ret ss, w')"
  shows "\<exists>ns e n s km frame. random = Inr ns
    \<and> verify_signature cr pinned (client_signature_message e pinned n (identity_public cr ips)) s = Inr ()
    \<and> was_contributory cr (diffie_hellman cr es e)
    \<and> transcript_hash ss = handshake_transcript_hash (sha256 cr) e pinned n (ephemeral_public cr es)
         (identity_public cr ips) ns
    \<and> derive_key_material (hkdf_sha256 cr) (diffie_hellman cr es e) (transcript_hash ss) = Inr km
    \<and> send_state ss = \<lparr>ds_cipher = server_to_client_key km, ds_direction = DIRECTION_SERVER_TO_CLIENT,
         ds_nonce_prefix = server_to_client_nonce_prefix km, ds_sequence = 1\<rparr>
    \<and> receive_state ss = \<lparr>ds_cipher = client_to_server_key km, ds_direction = DIRECTION_CLIENT_TO_SERVER,
         ds_nonce_prefix = client_to_server_nonce_prefix km, ds_sequence = 1\<rparr>
    \<and> unseal cr (transcript_hash ss) (at_sequence (receive_state ss) 0) frame = Inr (CLIENT_FINISHED, 1)"
  using assms
proof (rule server_RetE)
  fix ns hello ss0 f n g m
  assume ns: "random = Inr ns" and chk: "server_check cr (identity_public cr ips) pinned hello = Inr ()"
    and acc: "server_accept cr (identity_public cr ips) es ns hello = Inr ss0"
    and g: "seal cr (transcript_hash ss0) (send_state ss0) SERVER_FINISHED = Inr (g, m)"
    and f: "unseal cr (transcript_hash ss0) (receive_state ss0) f = Inr (CLIENT_FINISHED, n)"
    and ss: "ss = set_receive_sequence n (set_send_sequence m ss0)"
  from chk have sig: "ch_identity_public_key hello = pinned"
      "verify_signature cr pinned (client_signature_message (ch_ephemeral_public_key hello) pinned
         (ch_nonce hello) (identity_public cr ips)) (ch_signature hello) = Inr ()"
    by (auto simp: server_check_def split: if_splits)
  from server_accept_Inr [OF acc] server_session_Inr sig(1) obtain km where
    con: "was_contributory cr (diffie_hellman cr es (ch_ephemeral_public_key hello))"
    and km: "derive_key_material (hkdf_sha256 cr) (diffie_hellman cr es (ch_ephemeral_public_key hello))
         (transcript_hash ss0) = Inr km"
    and hash: "transcript_hash ss0 = handshake_transcript_hash (sha256 cr) (ch_ephemeral_public_key hello)
         pinned (ch_nonce hello) (ephemeral_public cr es) (identity_public cr ips) ns"
    and states: "send_state ss0 = \<lparr>ds_cipher = server_to_client_key km, ds_direction = DIRECTION_SERVER_TO_CLIENT,
         ds_nonce_prefix = server_to_client_nonce_prefix km, ds_sequence = 0\<rparr>"
      "receive_state ss0 = \<lparr>ds_cipher = client_to_server_key km, ds_direction = DIRECTION_CLIENT_TO_SERVER,
         ds_nonce_prefix = client_to_server_nonce_prefix km, ds_sequence = 0\<rparr>"
    by (metis (no_types, lifting) session.select_convs)
  have "m = 1" "n = 1" using f g states by (auto simp: seal_Inr_iff unseal_Inr_iff)
  then have "unseal cr (transcript_hash ss) (at_sequence (receive_state ss) 0) f = Inr (CLIENT_FINISHED, 1)"
    using f ss states by (simp add: at_sequence_def)
  with ns sig con km hash states ss \<open>m = 1\<close> \<open>n = 1\<close> show ?thesis
    by (intro exI [of _ ns] exI [of _ "ch_ephemeral_public_key hello"] exI [of _ "ch_nonce hello"]
        exI [of _ "ch_signature hello"] exI [of _ km] exI [of _ f]) (simp add: at_sequence_def)
qed

lemma server_session_authenticated_witness:
  "\<exists>ss w w' s e n. server toy conn_receive conn_send (toy_keys 4) (Inr (toy_keys 6))
       (identity_public toy (toy_keys 1)) (toy_keys 2) w = (Ret ss, w')
     \<and> verify_signature toy (identity_public toy (toy_keys 1))
         (client_signature_message e (identity_public toy (toy_keys 1)) n (identity_public toy (toy_keys 2))) s = Inr ()"
proof -
  from toy_handshake obtain w ss w' where
    c: "server toy conn_receive conn_send (toy_keys 4) (Inr (toy_keys 6)) (identity_public toy (toy_keys 1))
      (toy_keys 2) w = (Ret ss, w')" by blast
  from server_session_authenticated [OF c] c show ?thesis by (elim exE conjE) (auto intro!: exI)
qed

text \<open>C9: If the transcript hashes of a client's and a server's session are equal, and SHA-256 does not
  collide on these two transcripts, then the two sides agree on everything: each is the
  identity the other pinned, they saw each other's ephemeral keys and nonces, and each sends under exactly
  the key, direction and nonce prefix under which the other receives.\<close>

theorem sessions_agree:
  assumes ok: "sizes_ok cr" "handshake_ok cr"
    and client: "client_accept cr (identity_public cr ic) ec nc pinned_server hs = Inr cs" "server_hello_wf hs"
    and server: "server_check cr (identity_public cr ips) pinned_client hc = Inr ()"
      "server_accept cr (identity_public cr ips) es ns hc = Inr ss" "client_hello_wf hc"
    and nonces: "length nc = HANDSHAKE_NONCE_SIZE" "length ns = HANDSHAKE_NONCE_SIZE"
    and hash: "transcript_hash cs = transcript_hash ss"
    and collision_free: "inj_on (sha256 cr)
      {handshake_transcript (ephemeral_public cr ec) (identity_public cr ic) nc
         (sh_ephemeral_public_key hs) (sh_identity_public_key hs) (sh_nonce hs),
       handshake_transcript (ch_ephemeral_public_key hc) (ch_identity_public_key hc) (ch_nonce hc)
         (ephemeral_public cr es) (identity_public cr ips) ns}"
  shows "pinned_server = identity_public cr ips \<and> pinned_client = identity_public cr ic
    \<and> ch_ephemeral_public_key hc = ephemeral_public cr ec \<and> ch_nonce hc = nc
    \<and> sh_ephemeral_public_key hs = ephemeral_public cr es \<and> sh_nonce hs = ns
    \<and> send_state cs = receive_state ss \<and> receive_state cs = send_state ss"
proof -
  from client_accept_Inr [OF client(1)] client_session_Inr obtain km where
    pin: "sh_identity_public_key hs = pinned_server"
    and km: "derive_key_material (hkdf_sha256 cr) (diffie_hellman cr ec (sh_ephemeral_public_key hs))
         (transcript_hash cs) = Inr km"
    and ch: "transcript_hash cs = handshake_transcript_hash (sha256 cr) (ephemeral_public cr ec)
         (identity_public cr ic) nc (sh_ephemeral_public_key hs) pinned_server (sh_nonce hs)"
    and c: "client_session cr km (transcript_hash cs) = Inr cs"
    by (metis (no_types, lifting) session.select_convs(3))
  from server_accept_Inr [OF server(2)] server_session_Inr obtain kn where
    kn: "derive_key_material (hkdf_sha256 cr) (diffie_hellman cr es (ch_ephemeral_public_key hc))
         (transcript_hash ss) = Inr kn"
    and sh: "transcript_hash ss = handshake_transcript_hash (sha256 cr) (ch_ephemeral_public_key hc)
         (ch_identity_public_key hc) (ch_nonce hc) (ephemeral_public cr es) (identity_public cr ips) ns"
    and s: "server_session cr kn (transcript_hash ss) = Inr ss"
    by (metis (no_types, lifting) session.select_convs(3))
  from server(1) have pinc: "ch_identity_public_key hc = pinned_client"
    by (auto simp: server_check_def split: if_splits)
  have hashes: "sha256 cr (handshake_transcript (ephemeral_public cr ec) (identity_public cr ic) nc
      (sh_ephemeral_public_key hs) (sh_identity_public_key hs) (sh_nonce hs))
    = sha256 cr (handshake_transcript (ch_ephemeral_public_key hc) (ch_identity_public_key hc) (ch_nonce hc)
      (ephemeral_public cr es) (identity_public cr ips) ns)"
    using hash ch sh pin unfolding handshake_transcript_hash_def by argo
  have eq: "handshake_transcript (ephemeral_public cr ec) (identity_public cr ic) nc
      (sh_ephemeral_public_key hs) (sh_identity_public_key hs) (sh_nonce hs)
    = handshake_transcript (ch_ephemeral_public_key hc) (ch_identity_public_key hc) (ch_nonce hc)
      (ephemeral_public cr es) (identity_public cr ips) ns"
    by (rule inj_onD [OF collision_free hashes]) blast+
  have own: "client_fields_wf (ephemeral_public cr k) (identity_public cr l) x"
    if "length x = HANDSHAKE_NONCE_SIZE" for k l x
    using ok(1) that by (simp add: sizes_ok_def client_fields_wf_def)
  have theirs: "client_fields_wf (sh_ephemeral_public_key hs) (sh_identity_public_key hs) (sh_nonce hs)"
    "client_fields_wf (ch_ephemeral_public_key hc) (ch_identity_public_key hc) (ch_nonce hc)"
    using client(2) server(3) by (simp_all add: client_fields_wf_def client_hello_wf_def server_hello_wf_def)
  note same = transcript_inj [OF own [OF nonces(1)] theirs(2,1) own [OF nonces(2)] eq]
  have "diffie_hellman cr ec (ephemeral_public cr es) = diffie_hellman cr es (ephemeral_public cr ec)"
    using ok(2) by (simp add: handshake_ok_def)
  with km kn hash same have "km = kn" by simp
  with client_session_Inr [OF c] server_session_Inr [OF s] have
    "send_state cs = receive_state ss" "receive_state cs = send_state ss"
    by (metis (no_types, lifting) session.select_convs)+
  with same pin pinc show ?thesis by simp
qed

lemma sessions_agree_witness:
  "\<exists>cs ss hs hc. client_accept toy (identity_public toy (toy_keys 1)) (toy_keys 3) (toy_keys 5)
         (identity_public toy (toy_keys 2)) hs = Inr cs
     \<and> server_accept toy (identity_public toy (toy_keys 2)) (toy_keys 4) (toy_keys 6) hc = Inr ss
     \<and> ch_nonce hc = toy_keys 5 \<and> send_state cs = receive_state ss"
proof -
  let ?hc = "hello_of_client toy (toy_keys 1) (toy_keys 3) (toy_keys 5) (identity_public toy (toy_keys 2))"
  let ?hs = "hello_of_server toy (toy_keys 2) (toy_keys 4) (toy_keys 6) ?hc"
  have n: "length (toy_keys 5) = HANDSHAKE_NONCE_SIZE" "length (toy_keys 6) = HANDSHAKE_NONCE_SIZE"
    by (simp_all add: size_defs)
  have ok: "sizes_ok toy" "handshake_ok toy" using toy_crypto_ok by (simp_all add: crypto_ok_def)
  note wf = honest_hellos_wf [OF ok(1) n]
  from honest_accept [OF toy_crypto_ok toy_contributory, of "toy_keys 2" "toy_keys 1" "toy_keys 5" "toy_keys 6"]
  obtain cs ss where
    chk: "server_check toy (identity_public toy (toy_keys 2)) (identity_public toy (toy_keys 1)) ?hc = Inr ()"
    and acc: "client_accept toy (identity_public toy (toy_keys 1)) (toy_keys 3) (toy_keys 5)
      (identity_public toy (toy_keys 2)) ?hs = Inr cs"
      "server_accept toy (identity_public toy (toy_keys 2)) (toy_keys 4) (toy_keys 6) ?hc = Inr ss"
    and hash: "transcript_hash cs = transcript_hash ss" by blast
  have "inj_on (sha256 toy)
      {handshake_transcript (ephemeral_public toy (toy_keys 3)) (identity_public toy (toy_keys 1)) (toy_keys 5)
         (sh_ephemeral_public_key ?hs) (sh_identity_public_key ?hs) (sh_nonce ?hs),
       handshake_transcript (ch_ephemeral_public_key ?hc) (ch_identity_public_key ?hc) (ch_nonce ?hc)
         (ephemeral_public toy (toy_keys 4)) (identity_public toy (toy_keys 2)) (toy_keys 6)}"
    by (simp add: hello_of_client_def hello_of_server_def Let_def)
  from sessions_agree [OF ok acc(1) _ chk acc(2) _ n hash this] wf acc show ?thesis by blast
qed

text \<open>Two honest sides that pin each other complete the handshake, however their connections cut the bytes:
  there are two byte strings such that the client, having received the one, sends the other, the
  server, having received the other, sends the one, and both return sessions that mirror each other.\<close>

theorem handshake_completes:
  assumes "crypto_ok cr" and "was_contributory cr (diffie_hellman cr ec (ephemeral_public cr es))"
    and "length nc = HANDSHAKE_NONCE_SIZE" and "length ns = HANDSHAKE_NONCE_SIZE"
  shows "\<exists>to_server to_client cs ss. send_state cs = receive_state ss \<and> receive_state cs = send_state ss
    \<and> transcript_hash cs = transcript_hash ss
    \<and> (\<forall>w. net_live w \<and> net_in w = to_client \<and> 512 \<le> net_fuel w \<longrightarrow>
         (\<exists>w'. client cr conn_receive conn_send ec (Inr nc) ic (identity_public cr ips) w = (Ret cs, w')
            \<and> net_out w' = net_out w @ to_server \<and> net_in w' = []))
    \<and> (\<forall>w. net_live w \<and> net_in w = to_server \<and> 512 \<le> net_fuel w \<longrightarrow>
         (\<exists>w'. server cr conn_receive conn_send es (Inr ns) (identity_public cr ic) ips w = (Ret ss, w')
            \<and> net_out w' = net_out w @ to_client \<and> net_in w' = []))"
  using honest_handshake [OF assms, of ic ips] by (metis append_Nil2)

lemma handshake_completes_witness:
  "\<exists>to_client cs w'. client toy conn_receive conn_send (toy_keys 3) (Inr (toy_keys 5)) (toy_keys 1)
      (identity_public toy (toy_keys 2)) (demo_net (replicate 600 6) to_client) = (Ret cs, w')"
proof -
  have n: "length (toy_keys 5) = HANDSHAKE_NONCE_SIZE" "length (toy_keys 6) = HANDSHAKE_NONCE_SIZE"
    by (simp_all add: size_defs)
  have "512 \<le> net_fuel (demo_net (replicate 600 6) x)" for x by simp
  with handshake_completes [OF toy_crypto_ok toy_contributory n, of "toy_keys 1" "toy_keys 2"] demo_net_live
  show ?thesis by (metis demo_net_parts(1))
qed

end
