(* ===== verification/Secure_Link.thy ===== *)
theory Secure_Link
  imports Handshake_Props
begin

text \<open>
  The whole secure link: two connections, the handshake of each side, and then messages in both
  directions over the sessions that the handshake returned. It composes the runs of \<open>Handshake_Props\<close>
  with those of \<open>Secure_Stream\<close>.
\<close>

section \<open>What a run leaves of the other direction\<close>

lemma secure_send_keeps:
  "secure_send cr send p (ss, w) = (r, (ss', w'))
     \<Longrightarrow> receive_state ss' = receive_state ss \<and> transcript_hash ss' = transcript_hash ss"
  by (auto simp: secure_send_def split: sum.splits prod.splits outcome.splits)

lemma secure_receive_keeps:
  "secure_receive cr recv (ss, w) = (r, (ss', w'))
     \<Longrightarrow> send_state ss' = send_state ss \<and> transcript_hash ss' = transcript_hash ss"
  by (auto simp: secure_receive_def split: sum.splits prod.splits outcome.splits)

lemma send_all_keeps:
  "send_all cr send ps (ss, w) = (Ret u, (ss', w'))
     \<Longrightarrow> receive_state ss' = receive_state ss \<and> transcript_hash ss' = transcript_hash ss"
proof (induction ps arbitrary: ss w)
  case (Cons p ps)
  then show ?case by (fastforce elim!: and_then_RetE dest: secure_send_keeps)
qed simp

lemma receive_all_keeps:
  "receive_all cr recv k (ss, w) = (Ret ps, (ss', w'))
     \<Longrightarrow> send_state ss' = send_state ss \<and> transcript_hash ss' = transcript_hash ss"
proof (induction k arbitrary: ss w ps)
  case (Suc k)
  then show ?case by (fastforce elim!: and_then_RetE dest: secure_receive_keeps)
qed simp

section \<open>Exchanging messages over mirrored sessions\<close>

definition exchange_size :: "bytes list \<Rightarrow> nat" where
  "exchange_size ps = sum_list (map (\<lambda>p. length p + 29) ps)"

lemma send_then_receive:
  assumes "aead_ok cr" and "net_live w"
    and sent: "seal_all cr (transcript_hash ss) (send_state ss) ps = Some fs" "\<forall>f \<in> set fs. frame_ok f"
    and due: "seal_all cr (transcript_hash ss) (receive_state ss) qs = Some gs" "\<forall>f \<in> set gs. frame_ok f"
    and "net_in w = wire gs @ rest" and "length (wire fs) + length (wire gs) \<le> net_fuel w"
  shows "\<exists>ss1 w1 ss2 w2. send_all cr conn_send ps (ss, w) = (Ret (), (ss1, w1))
    \<and> receive_all cr conn_receive (length qs) (ss1, w1) = (Ret qs, (ss2, w2))
    \<and> net_out w2 = net_out w @ wire fs \<and> net_in w2 = rest \<and> net_live w2"
proof -
  from conn_writer.send_all_live [OF assms(2) sent] assms(8) obtain ss1 w1 where
    s: "send_all cr conn_send ps (ss, w) = (Ret (), (ss1, w1))" "net_out w1 = net_out w @ wire fs" "net_live w1"
      "net_in w1 = net_in w" "net_fuel w \<le> net_fuel w1 + length (wire fs)" by auto
  from send_all_keeps [OF s(1)] due(1) have
    "seal_all cr (transcript_hash ss1) (receive_state ss1) qs = Some gs" by simp
  from conn_reader.receive_all_live [OF assms(1) s(3) this due(2), of rest] s(4,5) assms(7,8) obtain ss2 w2 where
    "receive_all cr conn_receive (length qs) (ss1, w1) = (Ret qs, (ss2, w2))" "net_in w2 = rest" "net_live w2"
    "net_out w2 = net_out w1" by auto
  with s show ?thesis by auto
qed

lemma receive_then_send:
  assumes "aead_ok cr" and "net_live w"
    and sent: "seal_all cr (transcript_hash ss) (send_state ss) qs = Some gs" "\<forall>f \<in> set gs. frame_ok f"
    and due: "seal_all cr (transcript_hash ss) (receive_state ss) ps = Some fs" "\<forall>f \<in> set fs. frame_ok f"
    and "net_in w = wire fs @ rest" and "length (wire fs) + length (wire gs) \<le> net_fuel w"
  shows "\<exists>ss1 w1 ss2 w2. receive_all cr conn_receive (length ps) (ss, w) = (Ret ps, (ss1, w1))
    \<and> send_all cr conn_send qs (ss1, w1) = (Ret (), (ss2, w2))
    \<and> net_out w2 = net_out w @ wire gs \<and> net_in w2 = rest \<and> net_live w2"
proof -
  from conn_reader.receive_all_live [OF assms(1,2) due _ assms(7)] assms(8) obtain ss1 w1 where
    r: "receive_all cr conn_receive (length ps) (ss, w) = (Ret ps, (ss1, w1))" "net_in w1 = rest" "net_live w1"
      "net_out w1 = net_out w" "net_fuel w \<le> net_fuel w1 + length (wire fs)" by auto
  from receive_all_keeps [OF r(1)] sent(1) have "seal_all cr (transcript_hash ss1) (send_state ss1) qs = Some gs" by simp
  from conn_writer.send_all_live [OF r(3) this sent(2)] r(5) assms(8) obtain ss2 w2 where
    "send_all cr conn_send qs (ss1, w1) = (Ret (), (ss2, w2))" "net_out w2 = net_out w1 @ wire gs" "net_live w2"
    "net_in w2 = net_in w1" by auto
  with r show ?thesis by auto
qed

text \<open>The same after a handshake that reads \<open>C\<close> and writes \<open>S\<close>.\<close>

definition shakes_hands :: "(net \<Rightarrow> session outcome \<times> net) \<Rightarrow> bytes \<Rightarrow> bytes \<Rightarrow> session \<Rightarrow> bool" where
  "shakes_hands hs S C ss \<longleftrightarrow>
     (\<forall>w rest. net_live w \<and> net_in w = C @ rest \<and> 512 \<le> net_fuel w \<longrightarrow>
        (\<exists>w'. hs w = (Ret ss, w') \<and> net_out w' = net_out w @ S \<and> net_in w' = rest
           \<and> net_live w' \<and> net_fuel w \<le> net_fuel w' + 456))"

lemma shake_send_receive:
  assumes hs: "shakes_hands hs S C ss" and ok: "aead_ok cr"
    and sent: "seal_all cr (transcript_hash ss) (send_state ss) ps = Some fs" "\<forall>f \<in> set fs. frame_ok f"
    and due: "seal_all cr (transcript_hash ss) (receive_state ss) qs = Some gs" "\<forall>f \<in> set gs. frame_ok f"
    and w: "net_live w" "net_in w = (C @ wire gs) @ rest" "512 + length (wire fs) + length (wire gs) \<le> net_fuel w"
  shows "\<exists>w1 ss2 w2 ss3 w3. hs w = (Ret ss, w1) \<and> send_all cr conn_send ps (ss, w1) = (Ret (), (ss2, w2))
    \<and> receive_all cr conn_receive (length qs) (ss2, w2) = (Ret qs, (ss3, w3))
    \<and> net_out w3 = net_out w @ S @ wire fs \<and> net_in w3 = rest \<and> net_live w3"
proof -
  from hs w obtain w1 where
    w1: "hs w = (Ret ss, w1)" "net_out w1 = net_out w @ S" "net_in w1 = wire gs @ rest" "net_live w1"
      "net_fuel w \<le> net_fuel w1 + 456" unfolding shakes_hands_def by fastforce
  have "length (wire fs) + length (wire gs) \<le> net_fuel w1" using w(3) w1(5) by linarith
  from send_then_receive [OF ok w1(4) sent due w1(3) this] w1(1,2) show ?thesis by fastforce
qed

lemma shake_receive_send:
  assumes hs: "shakes_hands hs S C ss" and ok: "aead_ok cr"
    and sent: "seal_all cr (transcript_hash ss) (send_state ss) qs = Some gs" "\<forall>f \<in> set gs. frame_ok f"
    and due: "seal_all cr (transcript_hash ss) (receive_state ss) ps = Some fs" "\<forall>f \<in> set fs. frame_ok f"
    and w: "net_live w" "net_in w = (C @ wire fs) @ rest" "512 + length (wire fs) + length (wire gs) \<le> net_fuel w"
  shows "\<exists>w1 ss2 w2 ss3 w3. hs w = (Ret ss, w1)
    \<and> receive_all cr conn_receive (length ps) (ss, w1) = (Ret ps, (ss2, w2))
    \<and> send_all cr conn_send qs (ss2, w2) = (Ret (), (ss3, w3))
    \<and> net_out w3 = net_out w @ S @ wire gs \<and> net_in w3 = rest \<and> net_live w3"
proof -
  from hs w obtain w1 where
    w1: "hs w = (Ret ss, w1)" "net_out w1 = net_out w @ S" "net_in w1 = wire fs @ rest" "net_live w1"
      "net_fuel w \<le> net_fuel w1 + 456" unfolding shakes_hands_def by fastforce
  have "length (wire fs) + length (wire gs) \<le> net_fuel w1" using w(3) w1(5) by linarith
  from receive_then_send [OF ok w1(4) sent due w1(3) this] w1(1,2) show ?thesis by fastforce
qed

section \<open>Properties\<close>

text \<open>C10: The secure link works from end to end. Two honest sides that pin each other connect, complete the handshake, and
  then exchange any two lists of messages that fit a frame, however each connection cuts the bytes: there are two byte strings, each
  being what the one side writes in answer to the other, under which both handshakes return sessions, every
  send returns, and each side receives exactly the other's messages in order, with nothing left over.\<close>

theorem secure_link_end_to_end:
  assumes "crypto_ok cr" and "was_contributory cr (diffie_hellman cr ec (ephemeral_public cr es))"
    and "length nc = HANDSHAKE_NONCE_SIZE" and "length ns = HANDSHAKE_NONCE_SIZE"
    and "\<forall>p \<in> set ps \<union> set qs. message_ok p" and "length ps + 1 < 2 ^ 64" and "length qs + 1 < 2 ^ 64"
  shows "\<exists>to_server to_client.
    (\<forall>w rest. net_live w \<and> net_in w = to_client @ rest \<and> 512 + exchange_size ps + exchange_size qs \<le> net_fuel w \<longrightarrow>
       (\<exists>cs w1 cs2 w2 cs3 w3.
          client cr conn_receive conn_send ec (Inr nc) ic (identity_public cr ips) w = (Ret cs, w1)
          \<and> send_all cr conn_send ps (cs, w1) = (Ret (), (cs2, w2))
          \<and> receive_all cr conn_receive (length qs) (cs2, w2) = (Ret qs, (cs3, w3))
          \<and> net_out w3 = net_out w @ to_server \<and> net_in w3 = rest \<and> net_live w3))
    \<and> (\<forall>w rest. net_live w \<and> net_in w = to_server @ rest \<and> 512 + exchange_size ps + exchange_size qs \<le> net_fuel w \<longrightarrow>
       (\<exists>ss w1 ss2 w2 ss3 w3.
          server cr conn_receive conn_send es (Inr ns) (identity_public cr ic) ips w = (Ret ss, w1)
          \<and> receive_all cr conn_receive (length ps) (ss, w1) = (Ret ps, (ss2, w2))
          \<and> send_all cr conn_send qs (ss2, w2) = (Ret (), (ss3, w3))
          \<and> net_out w3 = net_out w @ to_client \<and> net_in w3 = rest \<and> net_live w3))"
proof -
  have ok: "aead_ok cr" "aead_total cr" using assms(1) by (simp_all add: crypto_ok_def)
  from honest_handshake [OF assms(1-4), of ic ips, folded shakes_hands_def] obtain S C cs ss where
    same: "send_state cs = receive_state ss" "receive_state cs = send_state ss" "transcript_hash cs = transcript_hash ss"
    and dir: "direction_ok (send_state cs)" "direction_ok (send_state ss)"
    and seq: "ds_sequence (send_state cs) = 1" "ds_sequence (send_state ss) = 1"
    and shake: "shakes_hands (client cr conn_receive conn_send ec (Inr nc) ic (identity_public cr ips)) S C cs"
      "shakes_hands (server cr conn_receive conn_send es (Inr ns) (identity_public cr ic) ips) C S ss"
    by blast
  note mirror = same(1,3) [symmetric] same(2)
  have msgs: "\<forall>p \<in> set ps. message_ok p" "\<forall>p \<in> set qs. message_ok p" using assms(5) by auto
  have room: "unat (ds_sequence (send_state cs)) + length ps < 2 ^ 64" "unat (ds_sequence (send_state ss)) + length qs < 2 ^ 64"
    using seq assms(6,7) by simp_all
  from seal_all_total [OF ok dir(1) room(1) msgs(1)] obtain fs where
    fs: "seal_all cr (transcript_hash cs) (send_state cs) ps = Some fs" "\<forall>f \<in> set fs. frame_ok f" by blast
  from seal_all_total [OF ok dir(2) room(2) msgs(2)] obtain gs where
    gs: "seal_all cr (transcript_hash cs) (send_state ss) qs = Some gs" "\<forall>f \<in> set gs. frame_ok f" by blast
  have len: "length (wire fs) = exchange_size ps" "length (wire gs) = exchange_size qs"
    using wire_length [OF ok(1) fs(1)] wire_length [OF ok(1) gs(1)] by (simp_all add: exchange_size_def)
  note client_side = shake_send_receive [OF shake(1) ok(1) fs, unfolded mirror, OF gs, unfolded len]
  note server_side = shake_receive_send [OF shake(2) ok(1), unfolded mirror, OF gs fs, unfolded len]
  show ?thesis
  proof (rule exI [of _ "S @ wire fs"], rule exI [of _ "C @ wire gs"], intro conjI allI impI)
    fix w :: net and rest
    assume w: "net_live w \<and> net_in w = (C @ wire gs) @ rest \<and> 512 + exchange_size ps + exchange_size qs \<le> net_fuel w"
    show "\<exists>cs w1 cs2 w2 cs3 w3.
          client cr conn_receive conn_send ec (Inr nc) ic (identity_public cr ips) w = (Ret cs, w1)
          \<and> send_all cr conn_send ps (cs, w1) = (Ret (), (cs2, w2))
          \<and> receive_all cr conn_receive (length qs) (cs2, w2) = (Ret qs, (cs3, w3))
          \<and> net_out w3 = net_out w @ S @ wire fs \<and> net_in w3 = rest \<and> net_live w3"
      by (rule exI [of _ cs], rule client_side) (use w in simp_all)
  next
    fix w :: net and rest
    assume w: "net_live w \<and> net_in w = (S @ wire fs) @ rest \<and> 512 + exchange_size ps + exchange_size qs \<le> net_fuel w"
    show "\<exists>ss w1 ss2 w2 ss3 w3.
          server cr conn_receive conn_send es (Inr ns) (identity_public cr ic) ips w = (Ret ss, w1)
          \<and> receive_all cr conn_receive (length ps) (ss, w1) = (Ret ps, (ss2, w2))
          \<and> send_all cr conn_send qs (ss2, w2) = (Ret (), (ss3, w3))
          \<and> net_out w3 = net_out w @ C @ wire gs \<and> net_in w3 = rest \<and> net_live w3"
      by (rule exI [of _ ss], rule server_side) (use w in simp_all)
  qed
qed

lemma secure_link_end_to_end_witness:
  "\<exists>to_client cs w1 cs2 w2 cs3 w3.
     client toy conn_receive conn_send (toy_keys 3) (Inr (toy_keys 5)) (toy_keys 1)
       (identity_public toy (toy_keys 2)) (demo_net (replicate 900 6) (to_client @ [])) = (Ret cs, w1)
     \<and> send_all toy conn_send [[1], []] (cs, w1) = (Ret (), (cs2, w2))
     \<and> receive_all toy conn_receive 1 (cs2, w2) = (Ret [[2, 3]], (cs3, w3)) \<and> net_in w3 = []"
proof -
  have n: "length (toy_keys 5) = HANDSHAKE_NONCE_SIZE" "length (toy_keys 6) = HANDSHAKE_NONCE_SIZE"
    by (simp_all add: size_defs)
  have m: "\<forall>p \<in> set [[1 :: byte], []] \<union> set [[2, 3]]. message_ok p" "length [[1 :: byte], []] + 1 < 2 ^ 64"
    "length [[2, 3 :: byte]] + 1 < 2 ^ 64"
    by (simp_all add: message_ok_def size_defs MAX_FRAME_SIZE_def)
  have fuel: "512 + exchange_size [[1], []] + exchange_size [[2, 3]] \<le> net_fuel (demo_net (replicate 900 6) x)" for x
    by (simp add: exchange_size_def)
  from secure_link_end_to_end [OF toy_crypto_ok toy_contributory n m, of "toy_keys 1" "toy_keys 2"] obtain to_client where
    c: "\<And>w rest. net_live w \<and> net_in w = to_client @ rest \<and> 512 + exchange_size [[1], []] + exchange_size [[2, 3]] \<le> net_fuel w \<Longrightarrow>
       \<exists>cs w1 cs2 w2 cs3 w3.
          client toy conn_receive conn_send (toy_keys 3) (Inr (toy_keys 5)) (toy_keys 1)
            (identity_public toy (toy_keys 2)) w = (Ret cs, w1)
          \<and> send_all toy conn_send [[1], []] (cs, w1) = (Ret (), (cs2, w2))
          \<and> receive_all toy conn_receive (length [[2, 3 :: byte]]) (cs2, w2) = (Ret [[2, 3]], (cs3, w3))
          \<and> net_in w3 = rest" by metis
  from c [of "demo_net (replicate 900 6) (to_client @ [])" "[]"] fuel demo_net_live show ?thesis by fastforce
qed

end
