(* ===== verification/Connection_Api.thy ===== *)
theory Connection_Api
  imports Conn_Seq Server_Model
begin

text \<open>
  The rest of the public connection API of \<open>crates/taunicorn/src/lib.rs\<close>: connecting, the diagnostic
  snapshot, splitting into halves, and the compatibility reads. The OS connect is an argument, as is
  what it answers; \<open>tokio::time::timeout\<close> drops the future it wraps when the deadline comes first,
  which releases the gate that future held and nothing else.
\<close>

section \<open>Connecting\<close>

datatype connect_answer = Connected raw_stream | ConnectFailed string | ConnectDeadline

definition err_connect_timeout :: anyhow where
  "err_connect_timeout = Message ''socket connect timeout''"

text \<open>\<open>None\<close>: the plain connect has no deadline, so that answer is not one it can get.\<close>

definition connect_with ::
  "bool \<Rightarrow> (string \<Rightarrow> string + 'name) \<Rightarrow> ('name \<Rightarrow> connect_answer) \<Rightarrow> endpoint \<Rightarrow> u64
    \<Rightarrow> ((anyhow + core) \<times> u64) option" where
  "connect_with timed to_ns_name os ep counter =
     (if endpoint_as_str ep = [] then Some (Inl err_endpoint_empty, counter)
      else (case get_async_socket_name to_ns_name (endpoint_as_str ep) of
              Inl e \<Rightarrow> Some (Inl e, counter)
            | Inr name \<Rightarrow>
                (case os name of
                   Connected stream \<Rightarrow>
                     (let (c, counter') = core_new stream ep None (Some ep) counter in
                      Some (Inr c, counter'))
                 | ConnectFailed e \<Rightarrow> Some (Inl (IoError e), counter)
                 | ConnectDeadline \<Rightarrow>
                     if timed then Some (Inl err_connect_timeout, counter) else None)))"

definition connect where "connect to_ns_name os ep counter = connect_with False to_ns_name os ep counter"

definition connect_timeout where
  "connect_timeout to_ns_name os ep counter = connect_with True to_ns_name os ep counter"

section \<open>Snapshots and flags\<close>

record connection_info =
  ci_id :: u64
  ci_local_endpoint :: "endpoint option"
  ci_peer_endpoint :: "endpoint option"
  ci_is_closed :: bool
  ci_is_read_shutdown :: bool
  ci_is_write_shutdown :: bool
  ci_peer_sent_eof :: bool

definition connection_info_of :: "core \<Rightarrow> connection_info" where
  "connection_info_of c =
     \<lparr>ci_id = core_id c, ci_local_endpoint = core_local c, ci_peer_endpoint = core_peer c,
      ci_is_closed = c_closed (core_state c), ci_is_read_shutdown = c_read_shutdown (core_state c),
      ci_is_write_shutdown = c_write_shutdown (core_state c), ci_peer_sent_eof = c_peer_sent_eof (core_state c)\<rparr>"

definition conn_is_active :: "core \<Rightarrow> bool" where
  "conn_is_active c \<longleftrightarrow> \<not> c_closed (core_state c)"

definition conn_is_available :: "core \<Rightarrow> bool" where
  "conn_is_available c \<longleftrightarrow> conn_is_active c \<and> \<not> c_paused (core_state c)"

definition conn_id :: "core \<Rightarrow> u64" where "conn_id c = core_id c"

definition conn_endpoint :: "core \<Rightarrow> endpoint" where "conn_endpoint c = core_endpoint c"

definition conn_name :: "core \<Rightarrow> string" where "conn_name c = endpoint_as_str (core_endpoint c)"

definition conn_local_endpoint :: "core \<Rightarrow> endpoint option" where "conn_local_endpoint c = core_local c"

definition conn_peer_endpoint :: "core \<Rightarrow> endpoint option" where "conn_peer_endpoint c = core_peer c"

definition conn_is_closed :: "core \<Rightarrow> bool" where "conn_is_closed c = c_closed (core_state c)"

definition conn_is_read_shutdown :: "core \<Rightarrow> bool" where "conn_is_read_shutdown c = c_read_shutdown (core_state c)"

definition conn_is_write_shutdown :: "core \<Rightarrow> bool" where "conn_is_write_shutdown c = c_write_shutdown (core_state c)"

definition conn_peer_sent_eof :: "core \<Rightarrow> bool" where "conn_peer_sent_eof c = c_peer_sent_eof (core_state c)"

definition conn_is_paused :: "core \<Rightarrow> bool" where "conn_is_paused c = c_paused (core_state c)"

definition conn_is_started :: "core \<Rightarrow> bool" where "conn_is_started c \<longleftrightarrow> \<not> conn_is_closed c"

text \<open>
  The single flags and the snapshot of a well-formed connection agree: a closed one is shut down both ways, neither
  started nor available, and not paused.
\<close>

lemma conn_flags_agree:
  assumes "core_wf c"
  shows "connection_info_of c =
      \<lparr>ci_id = conn_id c, ci_local_endpoint = conn_local_endpoint c, ci_peer_endpoint = conn_peer_endpoint c,
       ci_is_closed = conn_is_closed c, ci_is_read_shutdown = conn_is_read_shutdown c,
       ci_is_write_shutdown = conn_is_write_shutdown c, ci_peer_sent_eof = conn_peer_sent_eof c\<rparr>"
    and "conn_is_closed c \<Longrightarrow> conn_is_read_shutdown c \<and> conn_is_write_shutdown c \<and> \<not> conn_is_paused c
      \<and> \<not> conn_is_started c \<and> \<not> conn_is_active c \<and> \<not> conn_is_available c"
  using assms
  by (auto simp: connection_info_of_def conn_id_def conn_local_endpoint_def conn_peer_endpoint_def conn_is_closed_def
      conn_is_read_shutdown_def conn_is_write_shutdown_def conn_peer_sent_eof_def conn_is_paused_def conn_is_started_def
      conn_is_active_def conn_is_available_def core_wf_def)

text \<open>Both halves share the one core; which operations each offers.\<close>

definition read_half_offers :: "operation \<Rightarrow> bool" where
  "read_half_offers oper \<longleftrightarrow> (case oper of Receive b \<Rightarrow> True | ShutdownRead \<Rightarrow> True | _ \<Rightarrow> False)"

definition write_half_offers :: "operation \<Rightarrow> bool" where
  "write_half_offers oper \<longleftrightarrow>
     (case oper of Send d \<Rightarrow> True | WriteOnce d \<Rightarrow> True | Flush \<Rightarrow> True | ShutdownWrite \<Rightarrow> True | _ \<Rightarrow> False)"

text \<open>\<open>into_split\<close>: two references to the core; \<open>id\<close> and \<open>info\<close> of a half are the connection's.\<close>

definition conn_into_split :: "core \<Rightarrow> core \<times> core" where
  "conn_into_split c = (c, c)"

definition read_half_id :: "core \<Rightarrow> u64" where "read_half_id c = core_id c"

definition read_half_info :: "core \<Rightarrow> connection_info" where "read_half_info c = connection_info_of c"

definition write_half_id :: "core \<Rightarrow> u64" where "write_half_id c = core_id c"

definition write_half_info :: "core \<Rightarrow> connection_info" where "write_half_info c = connection_info_of c"

lemma split_halves_agree:
  "conn_into_split c = (r, w) \<Longrightarrow>
     read_half_id r = conn_id c \<and> write_half_id w = conn_id c
     \<and> read_half_info r = connection_info_of c \<and> write_half_info w = connection_info_of c"
  by (auto simp: conn_into_split_def read_half_id_def write_half_id_def read_half_info_def write_half_info_def conn_id_def)

text \<open>The call on the core that each compatibility write makes.\<close>

definition conn_write_bytes :: "bytes \<Rightarrow> operation" where "conn_write_bytes data = WriteOnce data"

definition conn_write_all_bytes :: "bytes \<Rightarrow> operation" where "conn_write_all_bytes data = Send data"

definition conn_write_all_timeout :: "bytes \<Rightarrow> operation" where "conn_write_all_timeout data = SendTimeout data"

section \<open>Compatibility reads\<close>

definition conn_read_bytes :: "usize \<Rightarrow> (bytes, net) async" where
  "conn_read_bytes max_bytes =
     (if max_bytes = 0 then async_return []
      else
        and_then (conn_receive (replicate max_bytes 0)) (\<lambda>(r, buffer).
        case r of Data n \<Rightarrow> async_return (take n buffer) | EndOfStream \<Rightarrow> async_return []))"

definition err_read_timeout :: anyhow where
  "err_read_timeout = Message ''socket read timeout''"

text \<open>Dropping a future that was suspended in \<open>w'\<close> and started in \<open>w\<close>.\<close>

definition abandon :: "net \<Rightarrow> net \<Rightarrow> net" where
  "abandon w w' =
     w'\<lparr>net_core := (net_core w')\<lparr>core_read_gate := core_read_gate (net_core w),
                                    core_write_gate := core_write_gate (net_core w)\<rparr>\<rparr>"

definition conn_read_timeout :: "usize \<Rightarrow> (bytes, net) async" where
  "conn_read_timeout max_bytes w =
     (case conn_read_bytes max_bytes w of
        (Pending, w') \<Rightarrow>
          (case net_sched w' of
             OsDeadline # es \<Rightarrow> (Fail err_read_timeout, (abandon w w')\<lparr>net_sched := es\<rparr>)
           | _ \<Rightarrow> (Pending, w'))
      | r \<Rightarrow> r)"

lemma receive_answer_pending:
  "receive_answer buffer h w = (Pending, w') \<Longrightarrow>
     net_in w' = net_in w \<and> net_out w' = net_out w \<and> net_core w' = lock_read (net_core w) \<and> net_sched w' = net_sched w"
proof (cases "net_sched w")
  case (Cons e es)
  assume "receive_answer buffer h w = (Pending, w')"
  with Cons show ?thesis
    by (cases e)
      (auto simp: receive_answer_def os_read_def receive_io_def receive_done_def Let_def split: if_splits)
qed (auto simp: receive_answer_def)

lemma conn_receive_pending:
  assumes "conn_receive buffer w = (Pending, w')"
  shows "net_in w' = net_in w \<and> net_out w' = net_out w \<and> net_sched w' = net_sched w
    \<and> (net_core w' = net_core w \<or> net_core w' = lock_read (net_core w))"
  using assms receive_answer_pending [of buffer _ w w']
  by (auto simp: conn_receive_eq split: if_splits sum.splits)

lemma read_bytes_pending:
  "conn_read_bytes k w = (Pending, w') \<Longrightarrow> conn_receive (replicate k 0) w = (Pending, w')"
  by (auto simp: conn_read_bytes_def and_then_def split: if_splits prod.splits outcome.splits receive_result.splits)

section \<open>Properties\<close>

text \<open>A read returns at most \<open>max_bytes\<close> of the next incoming bytes, exactly those it consumed, and it returns
  nothing only when nothing was asked for or the peer has finished; a read that times out
  consumes nothing and leaves the connection exactly as it found it.\<close>

theorem compatibility_reads:
  "(net_inv w \<and> conn_read_bytes k w = (Ret bs, w')
      \<longrightarrow> length bs \<le> k \<and> net_in w = bs @ net_in w' \<and> net_out w' = net_out w
        \<and> (bs = [] \<longrightarrow> k = 0 \<or> net_in w = []))
   \<and> (conn_read_timeout k w = (Fail err_read_timeout, v) \<and> conn_read_bytes k w = (Pending, w')
      \<longrightarrow> net_in v = net_in w \<and> net_out v = net_out w \<and> net_core v = net_core w)"
proof
  show "net_inv w \<and> conn_read_bytes k w = (Ret bs, w')
      \<longrightarrow> length bs \<le> k \<and> net_in w = bs @ net_in w' \<and> net_out w' = net_out w
        \<and> (bs = [] \<longrightarrow> k = 0 \<or> net_in w = [])"
  proof (cases "k = 0")
    case True
    then show ?thesis by (auto simp: conn_read_bytes_def)
  next
    case False
    then have ne: "replicate k (0 :: byte) \<noteq> []" by simp
    show ?thesis
    proof (intro impI, elim conjE)
      assume inv: "net_inv w" and "conn_read_bytes k w = (Ret bs, w')"
      with False obtain r b where r: "conn_receive (replicate k 0) w = (Ret (r, b), w')"
        and bs: "bs = (case r of Data n \<Rightarrow> take n b | EndOfStream \<Rightarrow> [])"
        by (auto simp: conn_read_bytes_def split: receive_result.splits elim!: and_then_RetE)
      show "length bs \<le> k \<and> net_in w = bs @ net_in w' \<and> net_out w' = net_out w
        \<and> (bs = [] \<longrightarrow> k = 0 \<or> net_in w = [])"
      proof (cases r)
        case (Data n)
        with conn_receive_data [OF inv ne, of n b w'] r bs show ?thesis by auto
      next
        case EndOfStream
        with conn_receive_eof [OF inv ne, of b w'] conn_receive_sent [OF r] r bs show ?thesis by auto
      qed
    qed
  qed
  show "conn_read_timeout k w = (Fail err_read_timeout, v) \<and> conn_read_bytes k w = (Pending, w')
      \<longrightarrow> net_in v = net_in w \<and> net_out v = net_out w \<and> net_core v = net_core w"
    using conn_receive_pending [OF read_bytes_pending, of k w w']
    by (auto simp: conn_read_timeout_def abandon_def lock_read_def split: list.splits os_event.splits)
qed

definition idle_net :: net where
  "idle_net = \<lparr>net_core = fst (core_new 7 (Endpoint ''demo'') None (Some (Endpoint ''demo'')) 1),
     net_in = [4, 5, 6], net_sched = [OsProgress 1], net_out = []\<rparr>"

lemma compatibility_reads_witness:
  "\<exists>w'. conn_read_bytes 2 idle_net = (Ret [4, 5], w') \<and> [4, 5, 6] = [4, 5] @ net_in w'"
proof -
  have inv: "net_inv idle_net"
    using core_wf_new [of 7 "Endpoint ''demo''" None "Some (Endpoint ''demo'')" 1]
    by (simp add: net_inv_def idle_net_def core_new_def next_socket_id_def conn_state_default_def)
  have "\<exists>w'. conn_read_bytes 2 idle_net = (Ret [4, 5], w')"
    by (simp add: conn_read_bytes_def and_then_def conn_receive_eq idle_net_def core_new_def next_socket_id_def
        conn_state_default_def ensure_read_available_def ensure_common_io_available_def core_get_stream_def
        receive_answer_def os_read_def receive_io_def receive_done_def)
  then obtain w' where r: "conn_read_bytes 2 idle_net = (Ret [4, 5], w')" by blast
  from compatibility_reads [of idle_net 2 "[4, 5]" w'] inv r have "net_in idle_net = [4, 5] @ net_in w'" by blast
  with r show ?thesis by (simp add: idle_net_def)
qed

text \<open>A connection is made only for a non-empty endpoint, by \<open>connect\<close> and by \<open>accept\<close> alike: it starts
  well-formed and open with the next id, the connecting side records the endpoint as its peer and the
  accepting side as its own, and an empty endpoint fails before the OS is asked.\<close>

theorem new_connections:
  "(connect to_ns_name os ep counter = Some (Inr c, counter')
      \<longrightarrow> endpoint_as_str ep \<noteq> [] \<and> core_wf c \<and> conn_is_available c \<and> core_id c = counter \<and> counter' = counter + 1
        \<and> core_peer c = Some ep \<and> core_local c = None)
   \<and> connect_timeout to_ns_name os (Endpoint []) counter = Some (Inl err_endpoint_empty, counter)
   \<and> (from_accepted stream ep counter = (c, counter')
      \<longrightarrow> core_wf c \<and> conn_is_available c \<and> core_id c = counter \<and> counter' = counter + 1
        \<and> core_local c = Some ep \<and> core_peer c = None)"
  by (auto simp: connect_def connect_timeout_def connect_with_def from_accepted_def core_new_def next_socket_id_def
      core_wf_def conn_is_available_def conn_is_active_def conn_state_default_def
      split: if_splits sum.splits connect_answer.splits)

lemma new_connections_witness:
  "\<exists>c. connect Inr (\<lambda>n. Connected 7) (Endpoint ''demo'') 4 = Some (Inr c, 5) \<and> core_id c = 4"
proof -
  have "\<exists>c. connect Inr (\<lambda>n. Connected 7) (Endpoint ''demo'') 4 = Some (Inr c, 5)"
    by (simp add: connect_def connect_with_def get_async_socket_name_def core_new_def next_socket_id_def)
  then obtain c where "connect Inr (\<lambda>n. Connected 7) (Endpoint ''demo'') 4 = Some (Inr c, 5)" by blast
  with new_connections [of Inr "\<lambda>n. Connected 7" "Endpoint ''demo''" 4 c 5] show ?thesis by blast
qed

end
