(* ===== verification/Py_Errors.thy ===== *)
theory Py_Errors
  imports Connection_Api Handshake
begin

text \<open>
  How the Python binding turns the errors of the core into Python exceptions
  (\<open>crates/taunicorn-python/src/lib.rs\<close>: \<open>to_py_err\<close>; \<open>security.rs\<close>: \<open>secure_error\<close>). Both
  inspect the error text, so the model keeps every text and the classification is computed on it.
\<close>

datatype py_exception =
  PyOSError | PyTimeoutError | PyBlockingIOError | PyConnectionError | PyValueError | PyRuntimeError
| PyEOFError | PyOverflowError | PyTypeError

type_synonym py_err = "py_exception \<times> string"

definition to_py_err :: "anyhow \<Rightarrow> py_err" where
  "to_py_err err =
     (let message = error_text err in
      if is_io_error err then (PyOSError, message)
      else if str_contains message ''timeout'' then (PyTimeoutError, message)
      else if str_contains message ''paused'' then (PyBlockingIOError, message)
      else if str_contains message ''closed'' \<or> str_contains message ''shut down''
              \<or> str_contains message ''stopped'' then (PyConnectionError, message)
      else if str_contains message ''must not be empty'' then (PyValueError, message)
      else (PyRuntimeError, message))"

definition secure_error :: "anyhow \<Rightarrow> py_err" where
  "secure_error err =
     (let message = error_text err in
      if message = ''connection closed while reading a frame'' then (PyEOFError, message)
      else if message = ''secure session send sequence exhausted''
              \<or> message = ''secure session receive sequence exhausted'' then (PyOverflowError, message)
      else if is_io_error err then (PyOSError, message)
      else (PyConnectionError, message))"

text \<open>\<open>Duration::try_from_secs_f64\<close> is the argument: \<open>None\<close> when the number is not representable.\<close>

definition duration_from_seconds :: "('f \<Rightarrow> 'd option) \<Rightarrow> 'f \<Rightarrow> py_err + 'd" where
  "duration_from_seconds try_from_secs_f64 seconds =
     (case try_from_secs_f64 seconds of
        None \<Rightarrow> Inl (PyValueError, ''timeout must be a finite, non-negative, representable number'')
      | Some d \<Rightarrow> Inr d)"

text \<open>A Python argument that is to be an endpoint.\<close>

datatype py_arg = ArgEndpoint endpoint | ArgStr string | ArgOther

definition endpoint_from_py :: "py_arg \<Rightarrow> py_err + endpoint" where
  "endpoint_from_py v =
     (case v of
        ArgEndpoint ep \<Rightarrow> Inr ep
      | ArgStr name \<Rightarrow> (case endpoint_new name of Inl e \<Rightarrow> Inl (to_py_err e) | Inr ep \<Rightarrow> Inr ep)
      | ArgOther \<Rightarrow> Inl (PyTypeError, ''endpoint must be a str or Endpoint''))"

definition key32 :: "bytes \<Rightarrow> string \<Rightarrow> py_err + bytes" where
  "key32 v name =
     (if length v = 32 then Inr v
      else Inl (PyValueError, name @ '' must contain exactly 32 bytes''))"

section \<open>Searching in formatted texts\<close>

text \<open>A text without the separator's characters is found on one side of a non-empty separator.\<close>

lemma str_contains_split:
  assumes "d \<noteq> []" and "set d \<inter> set p = {}"
  shows "str_contains (a @ d @ b) p \<longleftrightarrow> str_contains a p \<or> str_contains b p"
proof
  assume "str_contains (a @ d @ b) p"
  then obtain x y where eq: "a @ d @ b = x @ p @ y" by (auto simp: str_contains_iff)
  then have "\<exists>us. a = x @ us \<and> us @ d @ b = p @ y \<or> a @ us = x \<and> d @ b = us @ p @ y"
    by (simp only: append_eq_append_conv2)
  then obtain us where "a = x @ us \<and> us @ d @ b = p @ y \<or> a @ us = x \<and> d @ b = us @ p @ y" by blast
  then show "str_contains a p \<or> str_contains b p"
  proof
    assume us: "a = x @ us \<and> us @ d @ b = p @ y"
    then have "\<exists>vs. us = p @ vs \<and> vs @ d @ b = y \<or> us @ vs = p \<and> d @ b = vs @ y"
      by (simp only: append_eq_append_conv2)
    then obtain vs where "us = p @ vs \<or> us @ vs = p \<and> d @ b = vs @ y" by blast
    then show ?thesis
    proof
      assume "us = p @ vs"
      with us show ?thesis by (auto simp: str_contains_iff)
    next
      assume vs: "us @ vs = p \<and> d @ b = vs @ y"
      with assms have "vs = []" by (cases vs; cases d) auto
      with vs us show ?thesis by (metis append_Nil2 str_contains_iff)
    qed
  next
    assume "a @ us = x \<and> d @ b = us @ p @ y"
    then have "\<exists>vs. d = us @ vs \<and> vs @ b = p @ y \<or> d @ vs = us \<and> b = vs @ p @ y"
      by (simp only: append_eq_append_conv2)
    then obtain vs where "d = us @ vs \<and> vs @ b = p @ y \<or> b = vs @ p @ y" by blast
    then show ?thesis
    proof
      assume vs: "d = us @ vs \<and> vs @ b = p @ y"
      with assms(2) have "vs = [] \<or> p = []" by (cases vs; cases p) auto
      with vs show ?thesis by (metis append_Nil str_contains_iff)
    next
      assume "b = vs @ p @ y"
      then show ?thesis by (auto simp: str_contains_iff)
    qed
  qed
next
  assume "str_contains a p \<or> str_contains b p"
  then show "str_contains (a @ d @ b) p"
    using str_contains_prefix [of a p "d @ b"] str_contains_suffix [of b p "a @ d"] by auto
qed

definition digits :: "char set" where
  "digits = set ''0123456789''"

lemma decimal_digits: "decimal n \<noteq> [] \<and> set (decimal n) \<subseteq> digits"
proof (induction n rule: less_induct)
  case (less n)
  have d: "digit k \<in> digits" if "k < 10" for k
  proof -
    have "list_all (\<lambda>k. digit k \<in> digits) [0..<10]" by code_simp
    with that show ?thesis by (simp add: list_all_iff)
  qed
  show ?case
  proof (cases "n < 10")
    case True
    then show ?thesis using d by (simp add: decimal.simps)
  next
    case False
    then have "n div 10 < n" by simp
    with less [OF this] d [of "n mod 10"] False show ?thesis by (subst (1 2) decimal.simps) simp
  qed
qed

lemma str_contains_decimal:
  "set p \<inter> digits = {} \<Longrightarrow> str_contains (a @ decimal n @ b) p \<longleftrightarrow> str_contains a p \<or> str_contains b p"
  using str_contains_split [of "decimal n" p a b] decimal_digits [of n] by blast

lemma str_contains_decimal_head:
  "set p \<inter> digits = {} \<Longrightarrow> p \<noteq> [] \<Longrightarrow> str_contains (decimal n @ b) p \<longleftrightarrow> str_contains b p"
  using str_contains_decimal [of p "[]" n b] by simp

lemma needles:
  "set ''timeout'' \<inter> digits = {}" "set ''paused'' \<inter> digits = {}" "set ''closed'' \<inter> digits = {}"
  "set ''shut down'' \<inter> digits = {}" "set ''stopped'' \<inter> digits = {}" "set ''must not be empty'' \<inter> digits = {}"
  by (simp_all add: digits_def)

text \<open>One separator character works like a number does.\<close>

lemma str_contains_sep:
  "c \<notin> set p \<Longrightarrow> str_contains (a @ c # b) p \<longleftrightarrow> str_contains a p \<or> str_contains b p"
  using str_contains_split [of "[c]" p a b] by simp

lemmas text_searches = str_contains_decimal [OF needles(1)] str_contains_decimal [OF needles(2)]
  str_contains_decimal [OF needles(3)] str_contains_decimal_head [OF needles(1)]
  str_contains_decimal_head [OF needles(2)] str_contains_decimal_head [OF needles(3)]

section \<open>Properties\<close>

text \<open>The classification by text sends every error text of the transport to the exception it is meant
  for, whatever numbers it contains: all four timeouts (also the one that closes the connection) to
  \<open>TimeoutError\<close>, paused connections and servers to \<open>BlockingIOError\<close>, closed, shut down and stopped
  ones (also with partial progress) to \<open>ConnectionError\<close>, empty names to \<open>ValueError\<close>, a poisoned
  state to \<open>RuntimeError\<close> and every I/O error to \<open>OSError\<close>.\<close>

theorem transport_error_classes:
  "(\<forall>e \<in> {err_timed_gate, err_timed_io n k, err_read_timeout, err_accept_timeout, err_connect_timeout}.
      fst (to_py_err e) = PyTimeoutError)
   \<and> (\<forall>e \<in> {err_conn_paused, err_srv_paused}. fst (to_py_err e) = PyBlockingIOError)
   \<and> (\<forall>e \<in> {err_conn_closed, err_conn_was_closed, err_recv_is_shut, err_recv_was_shut, err_send_is_shut,
         err_srv_stopped, err_srv_was_stopped, err_send_closed n k, err_send_zero n k, err_write_zero}.
      fst (to_py_err e) = PyConnectionError)
   \<and> (\<forall>e \<in> {err_endpoint_empty, err_name_empty}. fst (to_py_err e) = PyValueError)
   \<and> (\<forall>e \<in> {err_conn_poisoned, err_srv_poisoned}. fst (to_py_err e) = PyRuntimeError)
   \<and> fst (to_py_err (IoError txt)) = PyOSError"
proof -
  have "fst (to_py_err (err_timed_io n k)) = PyTimeoutError"
    by (simp add: to_py_err_def err_timed_io_def text_searches Let_def)
  moreover have "fst (to_py_err (err_send_closed n k)) = PyConnectionError"
    by (simp add: to_py_err_def err_send_closed_def text_searches Let_def)
  moreover have "fst (to_py_err (err_send_zero n k)) = PyConnectionError"
    by (simp add: to_py_err_def err_send_zero_def text_searches Let_def)
  ultimately show ?thesis
    by (simp add: to_py_err_def err_timed_gate_def err_read_timeout_def err_accept_timeout_def
        err_connect_timeout_def err_conn_paused_def err_srv_paused_def err_conn_closed_def err_conn_was_closed_def
        err_recv_is_shut_def err_recv_was_shut_def err_send_is_shut_def err_srv_stopped_def
        err_srv_was_stopped_def err_write_zero_def err_endpoint_empty_def err_name_empty_def
        err_conn_poisoned_def err_srv_poisoned_def)
qed

lemma transport_error_classes_witness:
  "fst (to_py_err (err_timed_io 3 9)) = PyTimeoutError \<and> fst (to_py_err (err_send_closed 3 9)) = PyConnectionError
     \<and> fst (to_py_err err_srv_paused) = PyBlockingIOError \<and> fst (to_py_err (IoError ''timeout'')) = PyOSError"
  using transport_error_classes [of 3 9 "''timeout''"] by blast

text \<open>C40: A failed OS write is meant to be a \<open>ConnectionError\<close>, but its text ends with the OS error's own
  text: the class of the exception depends on whether that text happens to mention a timeout or a
  pause.\<close>

theorem failed_send_class:
  "fst (to_py_err (err_send_failed n k reason)) =
     (if str_contains reason ''timeout'' then PyTimeoutError
      else if str_contains reason ''paused'' then PyBlockingIOError
      else PyConnectionError)"
  by (simp add: to_py_err_def err_send_failed_def text_searches Let_def)

text \<open>The exact-text matching of the secure binding names the texts the core really produces: a stream that ends
  inside a frame is \<open>EOFError\<close>, an exhausted sequence in either direction \<open>OverflowError\<close>, an I/O error
  with any other text \<open>OSError\<close>, and every authentication, identity, sequence or framing failure
  \<open>ConnectionError\<close>.\<close>

theorem secure_error_classes:
  "fst (secure_error err_frame_eof) = PyEOFError
   \<and> fst (secure_error err_send_exhausted) = PyOverflowError
   \<and> fst (secure_error err_receive_exhausted) = PyOverflowError
   \<and> (\<forall>e \<in> {err_decrypt, err_encrypt, err_sequence a b, err_version v, err_short n, err_signature,
         err_signature_encoding, err_server_identity, err_client_identity, err_contributory,
         err_server_confirmation, err_client_confirmation, err_frame_empty, err_frame_large n, err_conn_closed}.
      fst (secure_error e) = PyConnectionError)
   \<and> (error_text e \<notin> {error_text err_frame_eof, error_text err_send_exhausted, error_text err_receive_exhausted}
      \<longrightarrow> fst (secure_error e) = (if is_io_error e then PyOSError else PyConnectionError))"
  by (simp add: secure_error_def err_frame_eof_def err_send_exhausted_def err_receive_exhausted_def
      err_decrypt_def err_encrypt_def err_sequence_def err_version_def err_short_def err_signature_def
      err_signature_encoding_def err_server_identity_def err_client_identity_def err_contributory_def
      err_server_confirmation_def err_client_confirmation_def err_frame_empty_def err_frame_large_def
      err_conn_closed_def)

lemma secure_error_classes_witness:
  "fst (secure_error (IoError ''broken pipe'')) = PyOSError"
  using secure_error_classes [where e = "IoError ''broken pipe''"]
  by (simp add: err_frame_eof_def err_send_exhausted_def err_receive_exhausted_def)

end
