(* ===== verification/Py_Slot.thy ===== *)
theory Py_Slot
  imports Py_Errors
begin

text \<open>
  The ownership slot of the Python \<open>Connection\<close> (\<open>crates/taunicorn-python/src/lib.rs\<close>): a plain
  connection shared by pending operations, an upgrade that owns the raw value, a secure session, or
  consumed. \<open>Arc::try_unwrap\<close> succeeds exactly when no pending operation still has a reference, so
  the slot counts them. Upgrades and sessions carry the number of their cancellation token; the slot's mutex is
  held for one step at a time. The interpreter itself is not modelled.
\<close>

datatype connection_slot = SlotPlain nat | SlotUpgrading nat | SlotSecure nat | SlotConsumed

text \<open>
  \<open>pc_refs\<close> counts the pending operations that hold an \<open>Arc\<close> of the plain connection besides
  the slot, \<open>pc_cancelled\<close> the tokens that are cancelled, and \<open>pc_owner\<close> who owns the raw value once it left
  the slot: the handshake or session of a token, or the two halves.
\<close>

datatype raw_owner = InSlot | OwnedBySecure nat | OwnedByHalves

record py_connection =
  pc_slot :: connection_slot
  pc_refs :: nat
  pc_cancelled :: "nat set"
  pc_owner :: raw_owner

datatype connection_handle = HandlePlain nat | HandleSecure nat

definition py_from_rust :: "nat \<Rightarrow> py_connection" where
  "py_from_rust raw = \<lparr>pc_slot = SlotPlain raw, pc_refs = 0, pc_cancelled = {}, pc_owner = InSlot\<rparr>"

definition py_connection_handle :: "py_connection \<Rightarrow> py_err + connection_handle" where
  "py_connection_handle s =
     (case pc_slot s of
        SlotPlain raw \<Rightarrow> Inr (HandlePlain raw)
      | SlotSecure t \<Rightarrow> Inr (HandleSecure t)
      | SlotUpgrading t \<Rightarrow>
          if t \<in> pc_cancelled s
          then Inl (PyConnectionError, ''secure handshake failed or was cancelled; connect again'')
          else Inl (PyRuntimeError, ''Connection is owned by an in-progress secure handshake'')
      | SlotConsumed \<Rightarrow> Inl (PyRuntimeError, ''Connection was consumed by into_split()''))"

definition py_plain_connection :: "py_connection \<Rightarrow> py_err + nat" where
  "py_plain_connection s =
     try_result (py_connection_handle s) (\<lambda>h.
     case h of
       HandlePlain raw \<Rightarrow> Inr raw
     | HandleSecure t \<Rightarrow>
         Inl (PyRuntimeError,
           ''raw I/O is disabled after a secure upgrade; use SecureConnection.send/receive/close''))"

text \<open>\<open>take_plain\<close>: the slot is put back as it was unless the value could be taken.\<close>

definition py_take_plain :: "connection_slot \<Rightarrow> string \<Rightarrow> py_connection \<Rightarrow> (py_err + nat) \<times> py_connection" where
  "py_take_plain next_slot oper s =
     (case pc_slot s of
        SlotPlain raw \<Rightarrow>
          if pc_refs s = 0 then (Inr raw, s\<lparr>pc_slot := next_slot\<rparr>)
          else (Inl (PyRuntimeError,
                  ''cannot '' @ oper @ '' Connection while an async operation is still pending''), s)
      | _ \<Rightarrow>
          (Inl (PyRuntimeError,
             ''cannot '' @ oper @ '' Connection: already split, upgrading, or secured''), s))"

definition py_take_for_split :: "py_connection \<Rightarrow> (py_err + nat) \<times> py_connection" where
  "py_take_for_split s =
     (case py_take_plain SlotConsumed ''split'' s of
        (Inr raw, s') \<Rightarrow> (Inr raw, s'\<lparr>pc_owner := OwnedByHalves\<rparr>)
      | r \<Rightarrow> r)"

definition py_begin_secure :: "nat \<Rightarrow> py_connection \<Rightarrow> (py_err + nat) \<times> py_connection" where
  "py_begin_secure t s =
     (case py_take_plain (SlotUpgrading t) ''secure-upgrade'' s of
        (Inr raw, s') \<Rightarrow> (Inr raw, s'\<lparr>pc_owner := OwnedBySecure t\<rparr>)
      | r \<Rightarrow> r)"

text \<open>The session of token \<open>t\<close> asks for the slot.\<close>

definition py_finish_secure :: "nat \<Rightarrow> py_connection \<Rightarrow> (py_err + unit) \<times> py_connection" where
  "py_finish_secure t s =
     (case pc_slot s of
        SlotUpgrading u \<Rightarrow>
          if u \<notin> pc_cancelled s then (Inr (), s\<lparr>pc_slot := SlotSecure t\<rparr>)
          else (Inl (PyConnectionError, ''secure upgrade was cancelled or is no longer active''), s)
      | _ \<Rightarrow> (Inl (PyConnectionError, ''secure upgrade was cancelled or is no longer active''), s))"

definition py_cancel :: "nat \<Rightarrow> py_connection \<Rightarrow> py_connection" where
  "py_cancel t s = s\<lparr>pc_cancelled := insert t (pc_cancelled s)\<rparr>"

text \<open>\<open>close\<close> up to its await: what the future will close, if anything.\<close>

definition py_close :: "py_connection \<Rightarrow> (py_err + connection_handle option) \<times> py_connection" where
  "py_close s =
     (case pc_slot s of
        SlotUpgrading t \<Rightarrow> (Inr None, py_cancel t s)
      | SlotPlain raw \<Rightarrow> (Inr (Some (HandlePlain raw)), s\<lparr>pc_refs := Suc (pc_refs s)\<rparr>)
      | SlotSecure t \<Rightarrow> (Inr (Some (HandleSecure t)), py_cancel t s)
      | SlotConsumed \<Rightarrow> (Inl (PyRuntimeError, ''Connection was consumed by into_split()''), s))"

section \<open>Histories of one wrapper\<close>

datatype slot_action =
  StartPlainOp | EndPlainOp | SplitConn | BeginSecure nat | FinishSecure nat | CancelToken nat | CloseConn

definition slot_step :: "slot_action \<Rightarrow> py_connection \<Rightarrow> py_connection" where
  "slot_step a s =
     (case a of
        StartPlainOp \<Rightarrow>
          (case py_plain_connection s of Inr raw \<Rightarrow> s\<lparr>pc_refs := Suc (pc_refs s)\<rparr> | Inl e \<Rightarrow> s)
      | EndPlainOp \<Rightarrow> s\<lparr>pc_refs := pc_refs s - 1\<rparr>
      | SplitConn \<Rightarrow> snd (py_take_for_split s)
      | BeginSecure t \<Rightarrow> snd (py_begin_secure t s)
      | FinishSecure t \<Rightarrow>
          (if pc_owner s = OwnedBySecure t then snd (py_finish_secure t s) else s)
      | CancelToken t \<Rightarrow> py_cancel t s
      | CloseConn \<Rightarrow> snd (py_close s))"

definition slot_run :: "slot_action list \<Rightarrow> py_connection \<Rightarrow> py_connection" where
  "slot_run as s = fold slot_step as s"

text \<open>The raw value has one owner, and no plain operation is pending once it left the slot.\<close>

definition slot_inv :: "py_connection \<Rightarrow> bool" where
  "slot_inv s \<longleftrightarrow>
     (case pc_slot s of
        SlotPlain raw \<Rightarrow> pc_owner s = InSlot
      | SlotUpgrading t \<Rightarrow> pc_owner s = OwnedBySecure t \<and> pc_refs s = 0
      | SlotSecure t \<Rightarrow> pc_owner s = OwnedBySecure t \<and> pc_refs s = 0
      | SlotConsumed \<Rightarrow> pc_owner s = OwnedByHalves \<and> pc_refs s = 0)"

lemmas slot_defs =
  slot_step_def py_plain_connection_def py_connection_handle_def py_take_for_split_def py_begin_secure_def
  py_take_plain_def py_finish_secure_def py_cancel_def py_close_def try_result_def

lemma slot_inv_step: "slot_inv s \<Longrightarrow> slot_inv (slot_step a s)"
  by (cases a; cases "pc_slot s") (auto simp: slot_inv_def slot_defs)

lemma slot_inv_run: "slot_inv s \<Longrightarrow> slot_inv (slot_run as s)"
  by (induction as arbitrary: s) (auto simp: slot_run_def slot_inv_step)

definition left_plain :: "py_connection \<Rightarrow> bool" where
  "left_plain s \<longleftrightarrow> (\<forall>raw. pc_slot s \<noteq> SlotPlain raw)"

lemma left_plain_step: "left_plain s \<Longrightarrow> left_plain (slot_step a s)"
  by (cases a; cases "pc_slot s") (auto simp: left_plain_def slot_defs)

lemma left_plain_run: "left_plain s \<Longrightarrow> left_plain (slot_run as s)"
  by (induction as arbitrary: s) (auto simp: slot_run_def left_plain_step)

lemma left_plain_refuses: "left_plain s \<Longrightarrow> \<exists>e. py_plain_connection s = Inl e"
  by (cases "pc_slot s") (auto simp: left_plain_def slot_defs)

section \<open>Property\<close>

text \<open>C24: Over any history of a Python connection, an upgrade or a split takes the raw connection only when no
  plain operation is pending, and from then on it never comes back: every plain operation is
  refused, no plain operation is left running, and the raw value has exactly one owner.\<close>

theorem ownership_transfer_is_exclusive:
  assumes "s = slot_run as (py_from_rust raw)" and "t = slot_run bs s"
  shows "slot_inv t
    \<and> (fst (py_begin_secure n s) = Inr r \<or> fst (py_take_for_split s) = Inr r \<longrightarrow> pc_refs s = 0 \<and> pc_slot s = SlotPlain r)
    \<and> (left_plain s \<longrightarrow> pc_refs t = 0 \<and> left_plain t \<and> (\<exists>e. py_plain_connection t = Inl e))"
proof -
  have "slot_inv (py_from_rust raw)" by (simp add: slot_inv_def py_from_rust_def)
  then have "slot_inv t" using assms slot_inv_run by blast
  moreover have "pc_refs t = 0 \<and> left_plain t \<and> (\<exists>e. py_plain_connection t = Inl e)" if "left_plain s"
  proof -
    from that assms(2) have lp: "left_plain t" by (simp add: left_plain_run)
    with \<open>slot_inv t\<close> have "pc_refs t = 0"
      by (cases "pc_slot t") (auto simp: slot_inv_def left_plain_def)
    with lp left_plain_refuses [OF lp] show ?thesis by blast
  qed
  moreover have "pc_refs s = 0 \<and> pc_slot s = SlotPlain r"
    if "fst (py_begin_secure n s) = Inr r \<or> fst (py_take_for_split s) = Inr r"
    using that by (cases "pc_slot s") (auto simp: slot_defs split: if_splits)
  ultimately show ?thesis by blast
qed

lemma ownership_transfer_is_exclusive_witness:
  "\<exists>s. s = slot_run [StartPlainOp, BeginSecure 1, EndPlainOp, BeginSecure 2] (py_from_rust 7)
     \<and> pc_slot s = SlotUpgrading 2 \<and> (\<exists>e. py_plain_connection (slot_run [FinishSecure 2] s) = Inl e)"
proof -
  define s where "s = slot_run [StartPlainOp, BeginSecure 1, EndPlainOp, BeginSecure 2] (py_from_rust 7)"
  have slot: "pc_slot s = SlotUpgrading 2" by (simp add: s_def slot_run_def slot_defs py_from_rust_def)
  from ownership_transfer_is_exclusive [OF s_def refl, of "[FinishSecure 2]"] slot
  have "\<exists>e. py_plain_connection (slot_run [FinishSecure 2] s) = Inl e" by (simp add: left_plain_def)
  with slot s_def show ?thesis by blast
qed

end
