(* ===== verification/Py_Session.thy ===== *)
theory Py_Session
  imports Py_Slot
begin

text \<open>
  The lifetime policy that the Python binding puts around one direction of a secure session
  (\<open>crates/taunicorn-python/src/security.rs\<close>: \<open>PySecureConnection::send\<close> and
  \<open>receive\<close>, which have the same shape). Each call takes the direction's outer gate, checks that
  the session is open, arms a guard that cancels the session's token when it is dropped, and only disarms it after
  the inner operation returned \<open>Ok\<close>. Any number of calls run at once; a call is dropped at any await, and
  the token can be cancelled from outside (\<open>close\<close>, \<open>abort\<close>, the other direction, a
  cancelled Python future) between any two steps. The inner operation of the core is an event.
\<close>

definition MAX_PLAINTEXT_SIZE :: usize where
  "MAX_PLAINTEXT_SIZE = 64 * 1024 * 1024 - 25"

definition session_closed_error :: py_err where
  "session_closed_error =
     (PyConnectionError, ''secure session is closed or was cancelled; create a new connection'')"

definition plaintext_size_error :: py_err where
  "plaintext_size_error = (PyValueError, ''frame exceeds maximum size'')"

datatype call_pc = CallGate | CallInner | CallReturned "py_err + unit" | CallDropped

text \<open>
  What happened to the inner operations, in order: started by a call, returned \<open>Ok\<close>, or
  broken off (it failed, was cancelled or was dropped).
\<close>

datatype inner_event = InnerStarted nat | InnerOk nat | InnerBroken nat

record py_session =
  ps_cancelled :: bool
  ps_conn_closed :: bool
  ps_gate :: bool
  ps_calls :: "call_pc list"
  ps_log :: "inner_event list"

definition session_is_closed :: "py_session \<Rightarrow> bool" where
  "session_is_closed s \<longleftrightarrow> ps_cancelled s \<or> ps_conn_closed s"

definition session_new :: py_session where
  "session_new = \<lparr>ps_cancelled = False, ps_conn_closed = False, ps_gate = False, ps_calls = [], ps_log = []\<rparr>"

text \<open>The synchronous part of \<open>send\<close>: the size check comes before anything is encrypted.\<close>

definition send_call :: "bytes \<Rightarrow> py_session \<Rightarrow> call_pc" where
  "send_call plaintext s =
     (if length plaintext > MAX_PLAINTEXT_SIZE then CallReturned (Inl plaintext_size_error) else CallGate)"

definition receive_call :: "py_session \<Rightarrow> call_pc" where
  "receive_call s = CallGate"

datatype call_event = TokenFired | CallGateAcquired | InnerReturned "anyhow + unit"

text \<open>
  One resumption of call \<open>i\<close>. Both \<open>select!\<close>s are biased: a branch other than the token's is taken
  only while the token is not cancelled. Whatever ends the inner operation without \<open>Ok\<close> drops
  the armed guard, and that before the gate is released.
\<close>

definition call_gate :: "nat \<Rightarrow> call_event \<Rightarrow> py_session \<Rightarrow> (call_pc \<times> py_session) option" where
  "call_gate i ev s =
     (case ev of
        TokenFired \<Rightarrow>
          if ps_cancelled s then Some (CallReturned (Inl session_closed_error), s) else None
      | CallGateAcquired \<Rightarrow>
          if ps_cancelled s \<or> ps_gate s then None
          else if session_is_closed s then Some (CallReturned (Inl session_closed_error), s)
          else Some (CallInner, s\<lparr>ps_gate := True, ps_log := ps_log s @ [InnerStarted i]\<rparr>)
      | InnerReturned r \<Rightarrow> None)"

definition break_inner :: "nat \<Rightarrow> py_session \<Rightarrow> py_session" where
  "break_inner i s =
     (let s = s\<lparr>ps_cancelled := True, ps_log := ps_log s @ [InnerBroken i]\<rparr> in s\<lparr>ps_gate := False\<rparr>)"

definition call_inner :: "nat \<Rightarrow> call_event \<Rightarrow> py_session \<Rightarrow> (call_pc \<times> py_session) option" where
  "call_inner i ev s =
     (case ev of
        TokenFired \<Rightarrow>
          if ps_cancelled s then Some (CallReturned (Inl session_closed_error), break_inner i s) else None
      | CallGateAcquired \<Rightarrow> None
      | InnerReturned r \<Rightarrow>
          if ps_cancelled s then None
          else (case r of
                  Inl e \<Rightarrow> Some (CallReturned (Inl (secure_error e)), break_inner i s)
                | Inr _ \<Rightarrow>
                    Some (CallReturned (Inr ()),
                          s\<lparr>ps_log := ps_log s @ [InnerOk i], ps_gate := False\<rparr>)))"

fun call_poll :: "nat \<Rightarrow> call_pc \<Rightarrow> call_event \<Rightarrow> py_session \<Rightarrow> (call_pc \<times> py_session) option" where
  "call_poll i CallGate ev s = call_gate i ev s"
| "call_poll i CallInner ev s = call_inner i ev s"
| "call_poll i (CallReturned r) ev s = None"
| "call_poll i CallDropped ev s = None"

fun call_drop :: "nat \<Rightarrow> call_pc \<Rightarrow> py_session \<Rightarrow> call_pc \<times> py_session" where
  "call_drop i CallGate s = (CallDropped, s)"
| "call_drop i CallInner s = (CallDropped, break_inner i s)"
| "call_drop i p s = (p, s)"

text \<open>\<open>cancel\<close> is every cancellation from outside; it also covers the connection closing under the session.\<close>

inductive session_step :: "py_session \<Rightarrow> py_session \<Rightarrow> bool" where
  session_send: "session_step s (s\<lparr>ps_calls := ps_calls s @ [send_call plaintext s]\<rparr>)"
| session_receive: "session_step s (s\<lparr>ps_calls := ps_calls s @ [receive_call s]\<rparr>)"
| session_resume:
    "i < length (ps_calls s) \<Longrightarrow> call_poll i (ps_calls s ! i) ev s = Some (p, t)
       \<Longrightarrow> session_step s (t\<lparr>ps_calls := (ps_calls s)[i := p]\<rparr>)"
| session_drop:
    "i < length (ps_calls s) \<Longrightarrow> call_drop i (ps_calls s ! i) s = (p, t)
       \<Longrightarrow> session_step s (t\<lparr>ps_calls := (ps_calls s)[i := p]\<rparr>)"
| session_cancel: "session_step s (s\<lparr>ps_cancelled := True\<rparr>)"
| session_conn_closed: "session_step s (s\<lparr>ps_conn_closed := True\<rparr>)"

inductive session_reachable :: "py_session \<Rightarrow> bool" where
  session_init: "session_reachable session_new"
| session_next: "session_reachable s \<Longrightarrow> session_step s t \<Longrightarrow> session_reachable t"

section \<open>At most one broken inner operation, and nothing after it\<close>

text \<open>
  The log of a direction: completed operations one after another, then at most one that is running
  or was broken off. A broken one is the last, and the token is cancelled.
\<close>

fun completed_pairs :: "inner_event list \<Rightarrow> bool" where
  "completed_pairs [] = True"
| "completed_pairs (InnerStarted i # InnerOk j # es) = (i = j \<and> completed_pairs es)"
| "completed_pairs es = False"

definition no_inner :: "call_pc list \<Rightarrow> bool" where
  "no_inner cs \<longleftrightarrow> (\<forall>j < length cs. cs ! j \<noteq> CallInner)"

definition only_inner :: "call_pc list \<Rightarrow> nat \<Rightarrow> bool" where
  "only_inner cs i \<longleftrightarrow> i < length cs \<and> cs ! i = CallInner \<and> (\<forall>j < length cs. cs ! j = CallInner \<longrightarrow> j = i)"

lemma no_inner_update: "no_inner cs \<Longrightarrow> p \<noteq> CallInner \<Longrightarrow> no_inner (cs[i := p])"
  by (cases "i < length cs") (auto simp: no_inner_def nth_list_update)

lemma only_inner_start:
  assumes "no_inner cs" and "i < length cs"
  shows "only_inner (cs[i := CallInner]) i"
proof -
  have "j = i" if "j < length cs" "cs[i := CallInner] ! j = CallInner" for j
  proof (rule ccontr)
    assume "j \<noteq> i"
    with that assms(1) show False by (simp add: no_inner_def)
  qed
  with assms(2) show ?thesis by (simp add: only_inner_def)
qed

lemma only_inner_stop:
  assumes "only_inner cs i" and "p \<noteq> CallInner"
  shows "no_inner (cs[i := p])"
proof -
  have "cs[i := p] ! j \<noteq> CallInner" if j: "j < length cs" for j
  proof (cases "j = i")
    case True
    with j assms(2) show ?thesis by simp
  next
    case False
    with j assms(1) have "cs ! j \<noteq> CallInner" unfolding only_inner_def by blast
    with False show ?thesis by simp
  qed
  then show ?thesis by (simp add: no_inner_def)
qed

lemma only_inner_update:
  assumes "only_inner cs i" and "cs ! j \<noteq> CallInner" and "p \<noteq> CallInner"
  shows "only_inner (cs[j := p]) i"
proof -
  from assms(1,2) have "i \<noteq> j" unfolding only_inner_def by blast
  moreover have "k = i" if k: "k < length cs" "cs[j := p] ! k = CallInner" for k
  proof (cases "k = j")
    case True
    with k assms(3) show ?thesis by simp
  next
    case False
    with k assms(1) show ?thesis unfolding only_inner_def by simp
  qed
  ultimately show ?thesis using assms(1) unfolding only_inner_def by simp
qed

lemma inner_append:
  "p \<noteq> CallInner \<Longrightarrow> no_inner cs \<Longrightarrow> no_inner (cs @ [p])"
  "p \<noteq> CallInner \<Longrightarrow> only_inner cs i \<Longrightarrow> only_inner (cs @ [p]) i"
  by (auto simp: no_inner_def only_inner_def nth_append less_Suc_eq)

definition session_inv :: "py_session \<Rightarrow> bool" where
  "session_inv s \<longleftrightarrow>
     (if ps_gate s
      then (\<exists>i past. only_inner (ps_calls s) i \<and> ps_log s = past @ [InnerStarted i] \<and> completed_pairs past)
      else no_inner (ps_calls s)
           \<and> (completed_pairs (ps_log s)
              \<or> ps_cancelled s \<and> (\<exists>i past. ps_log s = past @ [InnerStarted i, InnerBroken i] \<and> completed_pairs past)))"

lemma completed_pairs_snoc:
  "completed_pairs xs \<Longrightarrow> completed_pairs (xs @ [InnerStarted i, InnerOk i])"
  by (induction xs rule: completed_pairs.induct) auto

lemmas call_defs = call_gate_def call_inner_def Let_def

lemma session_inv_inner:
  assumes "session_inv s" and "i < length (ps_calls s)" and "ps_calls s ! i = CallInner"
  obtains past where "only_inner (ps_calls s) i" "ps_log s = past @ [InnerStarted i]" "completed_pairs past"
proof -
  from assms have "ps_gate s" by (auto simp: session_inv_def no_inner_def split: if_splits)
  with assms(1) obtain k past where "only_inner (ps_calls s) k" "ps_log s = past @ [InnerStarted k]" "completed_pairs past"
    by (auto simp: session_inv_def)
  moreover from this(1) assms(2,3) have "i = k" unfolding only_inner_def by blast
  ultimately show ?thesis using that by blast
qed

lemma session_inv_broken:
  assumes "session_inv s" and "i < length (ps_calls s)" "ps_calls s ! i = CallInner" and "p \<noteq> CallInner"
  shows "session_inv ((break_inner i s)\<lparr>ps_calls := (ps_calls s)[i := p]\<rparr>)"
  by (rule session_inv_inner [OF assms(1-3)])
    (simp add: session_inv_def break_inner_def Let_def only_inner_stop assms(4))

lemma session_inv_completed:
  assumes "session_inv s" and "i < length (ps_calls s)" "ps_calls s ! i = CallInner"
  shows "session_inv (s\<lparr>ps_log := ps_log s @ [InnerOk i], ps_gate := False, ps_calls := (ps_calls s)[i := CallReturned r]\<rparr>)"
  by (rule session_inv_inner [OF assms])
    (simp add: session_inv_def only_inner_stop completed_pairs_snoc)

lemma session_inv_started:
  assumes "session_inv s" and "i < length (ps_calls s)" and "\<not> ps_gate s" and "\<not> ps_cancelled s"
  shows "session_inv (s\<lparr>ps_gate := True, ps_log := ps_log s @ [InnerStarted i], ps_calls := (ps_calls s)[i := CallInner]\<rparr>)"
proof -
  from assms have "no_inner (ps_calls s)" "completed_pairs (ps_log s)" by (auto simp: session_inv_def)
  with assms(2) show ?thesis using only_inner_start [of "ps_calls s" i] by (auto simp: session_inv_def)
qed

lemma session_inv_other:
  assumes "session_inv s" and "ps_calls s ! i \<noteq> CallInner" and "p \<noteq> CallInner"
  shows "session_inv (s\<lparr>ps_calls := (ps_calls s)[i := p]\<rparr>)"
proof (cases "ps_gate s")
  case True
  with assms(1) obtain k past where
    k: "only_inner (ps_calls s) k" "ps_log s = past @ [InnerStarted k]" "completed_pairs past"
    by (auto simp: session_inv_def)
  from only_inner_update [OF k(1) assms(2,3)] k(2,3) True show ?thesis by (auto simp: session_inv_def)
next
  case False
  with assms show ?thesis by (simp add: session_inv_def no_inner_update)
qed

lemma session_inv_resume:
  assumes inv: "session_inv s" and i: "i < length (ps_calls s)"
    and po: "call_poll i (ps_calls s ! i) ev s = Some (p, t)"
  shows "session_inv (t\<lparr>ps_calls := (ps_calls s)[i := p]\<rparr>)"
proof (cases "ps_calls s ! i")
  case CallGate
  with po consider e where "p = CallReturned e" "t = s"
    | "\<not> ps_gate s" "\<not> ps_cancelled s" "p = CallInner" "t = s\<lparr>ps_gate := True, ps_log := ps_log s @ [InnerStarted i]\<rparr>"
    by (auto simp: call_defs split: call_event.splits if_splits)
  then show ?thesis
  proof cases
    case 1
    then show ?thesis using session_inv_other [OF inv, of i p] CallGate by simp
  next
    case 2
    then show ?thesis using session_inv_started [OF inv i] by simp
  qed
next
  case CallInner
  with po consider e where "p = CallReturned e" "t = break_inner i s"
    | "p = CallReturned (Inr ())" "t = s\<lparr>ps_log := ps_log s @ [InnerOk i], ps_gate := False\<rparr>"
    by (auto simp: call_defs split: call_event.splits if_splits sum.splits)
  then show ?thesis
  proof cases
    case 1
    then show ?thesis using session_inv_broken [OF inv i CallInner, of p] by simp
  next
    case 2
    then show ?thesis using session_inv_completed [OF inv i CallInner] by simp
  qed
qed (use po in simp_all)

lemma session_inv_drop:
  assumes inv: "session_inv s" and i: "i < length (ps_calls s)"
    and d: "call_drop i (ps_calls s ! i) s = (p, t)"
  shows "session_inv (t\<lparr>ps_calls := (ps_calls s)[i := p]\<rparr>)"
proof (cases "ps_calls s ! i = CallInner")
  case True
  with d session_inv_broken [OF inv i True, of p] show ?thesis by auto
next
  case False
  with d have "t = s" "p \<noteq> CallInner" by (cases "ps_calls s ! i"; auto)+
  with session_inv_other [OF inv False] show ?thesis by simp
qed

lemma session_inv_step: "session_step s t \<Longrightarrow> session_inv s \<Longrightarrow> session_inv t"
proof (induction rule: session_step.induct)
  case (session_send s plaintext)
  then show ?case by (auto simp: session_inv_def send_call_def inner_append split: if_splits)
next
  case (session_receive s)
  then show ?case by (auto simp: session_inv_def receive_call_def inner_append)
next
  case (session_resume i s ev p t)
  then show ?case by (simp add: session_inv_resume)
next
  case (session_drop i s p t)
  then show ?case by (simp add: session_inv_drop)
qed (auto simp: session_inv_def split: if_splits)

lemma session_reachable_inv: "session_reachable s \<Longrightarrow> session_inv s"
proof (induction rule: session_reachable.induct)
  case session_init
  then show ?case by (simp add: session_inv_def session_new_def no_inner_def)
next
  case (session_next s t)
  then show ?case by (simp add: session_inv_step)
qed

definition session_broken :: "py_session \<Rightarrow> bool" where
  "session_broken s \<longleftrightarrow> (\<exists>i. InnerBroken i \<in> set (ps_log s))"

lemma completed_no_broken: "completed_pairs es \<Longrightarrow> InnerBroken i \<notin> set es"
  by (induction es rule: completed_pairs.induct) auto

lemma session_broken_state:
  assumes "session_inv s" and "session_broken s"
  shows "ps_cancelled s \<and> \<not> ps_gate s \<and> no_inner (ps_calls s)"
proof -
  from assms(2) obtain i where i: "InnerBroken i \<in> set (ps_log s)" by (auto simp: session_broken_def)
  have "\<not> ps_gate s"
  proof
    assume "ps_gate s"
    with assms(1) obtain k past where "ps_log s = past @ [InnerStarted k]" "completed_pairs past"
      by (auto simp: session_inv_def)
    with i completed_no_broken show False by auto
  qed
  with assms(1) i completed_no_broken show ?thesis by (auto simp: session_inv_def)
qed

lemma broken_gate_poll:
  "ps_cancelled s \<Longrightarrow> p \<noteq> CallInner \<Longrightarrow> call_poll i p ev s = Some (q, t) \<Longrightarrow> t = s"
  by (cases p) (auto simp: call_defs split: call_event.splits)

lemma broken_frozen_step:
  assumes "session_step s t" and "session_inv s" and "session_broken s"
  shows "ps_log t = ps_log s"
proof -
  from session_broken_state [OF assms(2,3)] have c: "ps_cancelled s" and n: "no_inner (ps_calls s)" by auto
  from assms(1) show ?thesis
  proof cases
    case (session_resume i ev p u)
    with n have "ps_calls s ! i \<noteq> CallInner" by (simp add: no_inner_def)
    with broken_gate_poll [OF c this session_resume(3)] session_resume(1) show ?thesis by simp
  next
    case (session_drop i p u)
    with n have "ps_calls s ! i \<noteq> CallInner" by (simp add: no_inner_def)
    with session_drop(1,3) show ?thesis by (cases "ps_calls s ! i") auto
  qed auto
qed

inductive session_steps :: "py_session \<Rightarrow> py_session \<Rightarrow> bool" where
  steps_refl: "session_steps s s"
| steps_more: "session_steps s t \<Longrightarrow> session_step t u \<Longrightarrow> session_steps s u"

lemma session_steps_reachable: "session_steps s t \<Longrightarrow> session_reachable s \<Longrightarrow> session_reachable t"
  by (induction rule: session_steps.induct) (auto intro: session_next)

lemma broken_frozen:
  "session_steps s t \<Longrightarrow> session_reachable s \<Longrightarrow> session_broken s \<Longrightarrow> ps_log t = ps_log s"
proof (induction rule: session_steps.induct)
  case (steps_refl s)
  then show ?case by simp
next
  case (steps_more s t u)
  then have "session_inv t" "session_broken t"
    using session_steps_reachable session_reachable_inv by (auto simp: session_broken_def)
  with steps_more broken_frozen_step show ?case by metis
qed

section \<open>Properties\<close>


definition broken_demo :: py_session where
  "broken_demo = \<lparr>ps_cancelled = True, ps_conn_closed = False, ps_gate = False,
     ps_calls = [CallDropped], ps_log = [InnerStarted 0, InnerBroken 0]\<rparr>"

lemma broken_demo_reachable: "session_reachable broken_demo"
proof -
  let ?a = "session_new\<lparr>ps_calls := [CallGate]\<rparr>"
  let ?b = "session_new\<lparr>ps_gate := True, ps_log := [InnerStarted 0], ps_calls := [CallInner]\<rparr>"
  have "session_step session_new ?a"
    using session_receive [of session_new] by (simp add: session_new_def receive_call_def)
  moreover have "session_step ?a ?b"
    using session_resume [of 0 ?a CallGateAcquired CallInner "?a\<lparr>ps_gate := True, ps_log := [InnerStarted 0]\<rparr>"]
    by (simp add: session_new_def call_defs session_is_closed_def)
  moreover have "session_step ?b broken_demo"
    using session_drop [of 0 ?b CallDropped "break_inner 0 ?b"]
    by (simp add: session_new_def break_inner_def Let_def broken_demo_def)
  ultimately show ?thesis by (meson session_init session_next)
qed


text \<open>The size check of the binding is exact: it refuses a plaintext, before any nonce is used, precisely when
  the core would have refused the frame it encrypts to.\<close>

theorem size_check_exact:
  assumes "aead_ok cr" and "seal cr hash st plaintext = Inr (frame, n)"
  shows "send_call plaintext s = CallReturned (Inl plaintext_size_error) \<longleftrightarrow> \<not> frame_ok frame"
  using seal_frame_size [OF assms]
  by (auto simp: send_call_def frame_ok_def MAX_PLAINTEXT_SIZE_def MAX_FRAME_SIZE_def)

lemma size_check_exact_witness:
  "\<exists>frame n. seal toy [] \<lparr>ds_cipher = [], ds_direction = 1, ds_nonce_prefix = [], ds_sequence = 0\<rparr> [1] = Inr (frame, n)
     \<and> frame_ok frame"
proof -
  have "\<exists>frame n. seal toy [] \<lparr>ds_cipher = [], ds_direction = 1, ds_nonce_prefix = [], ds_sequence = 0\<rparr> [1] = Inr (frame, n)"
    by (simp add: seal_Inr_iff toy_def)
  then obtain frame n where
    f: "seal toy [] \<lparr>ds_cipher = [], ds_direction = 1, ds_nonce_prefix = [], ds_sequence = 0\<rparr> [1] = Inr (frame, n)" by blast
  from size_check_exact [OF toy_aead(1) f, of session_new] f show ?thesis
    by (auto simp: send_call_def MAX_PLAINTEXT_SIZE_def)
qed

end
