(* ===== verification/Py_Upgrade.thy ===== *)
theory Py_Upgrade
  imports Py_Session
begin

text \<open>
  Upgrading a Python \<open>Connection\<close> to a \<open>SecureConnection\<close>
  (\<open>crates/taunicorn-python/src/security.rs\<close>: \<open>establish\<close>, \<open>observe_cancellation\<close>,
  \<open>SecureSession::new\<close> and the \<open>Drop\<close> implementations). The future of an upgrade owns the raw
  connection, a handshake and an armed guard of a cancellation token; a Python future with a callback sits on top
  of it, and a background task closes the session once its token is cancelled. The system below
  interleaves all of them with everything Python can do to the wrapper. The handshake itself is
  \<open>Handshake\<close>; here its result is an event.
\<close>

section \<open>Identity keys\<close>

definition py_generate_identity_private_key :: "string + bytes \<Rightarrow> py_err + bytes" where
  "py_generate_identity_private_key random =
     (case generate_identity_private_key random of
        Inl e \<Rightarrow> Inl (PyOSError, error_text e)
      | Inr key \<Rightarrow> Inr key)"

definition py_identity_public_key :: "crypto \<Rightarrow> bytes \<Rightarrow> py_err + bytes" where
  "py_identity_public_key cr identity_private_key =
     try_result (key32 identity_private_key ''Ed25519 private identity key'') (\<lambda>key.
     Inr (identity_public_key cr key))"

text \<open>A generated key of 32 bytes is accepted wherever a private key is expected, and has its public key.\<close>

lemma generated_key_usable:
  assumes "py_generate_identity_private_key random = Inr key" and "\<And>k. random = Inr k \<Longrightarrow> length k = 32"
  shows "random = Inr key \<and> py_identity_public_key cr key = Inr (identity_public_key cr key)
    \<and> key32 key name = Inr key"
  using assms
  by (auto simp: py_generate_identity_private_key_def generate_identity_private_key_def py_identity_public_key_def
      key32_def split: sum.splits)

section \<open>State\<close>

text \<open>The call of the core that \<open>establish\<close> makes, with its arguments in the order of that side.\<close>

datatype handshake_call = ClientCall bytes bytes | ServerCall bytes bytes

definition handshake_of where
  "handshake_of cr recv send ephemeral_private random call =
     (case call of
        ClientCall private peer \<Rightarrow> client cr recv send ephemeral_private random private peer
      | ServerCall peer private \<Rightarrow> Handshake.server cr recv send ephemeral_private random peer private)"

text \<open>
  \<open>UpgradeHandshake\<close>: polled or not, up to the end of the \<open>select!\<close>; \<open>UpgradeHandOver\<close>: the session exists
  and the interpreter is to be attached.
\<close>

datatype upgrade_pc =
  UpgradeHandshake | UpgradeHandOver | UpgradeReturned "py_err + unit" | UpgradeDropped

datatype py_future = NoFuture | FuturePending | FutureCancelled | FutureResolved "py_err + unit"

datatype raw_state = RawOpen | RawClosed | RawDropped

text \<open>
  \<open>ug_native\<close>: the native \<open>SecureConnection\<close> object is alive; \<open>ug_session\<close>: a \<open>SecureSession\<close> was made;
  \<open>ug_observed\<close>: the done-callback was added to the Python future.
\<close>

record upgrade =
  ug_call :: handshake_call
  ug_pc :: upgrade_pc
  ug_future :: py_future
  ug_observed :: bool
  ug_native :: bool
  ug_session :: bool
  ug_raw :: raw_state

text \<open>Upgrade \<open>k\<close> has the cancellation token \<open>k\<close> of the slot.\<close>

record upgrade_sys =
  us_slot :: py_connection
  us_upgrades :: "upgrade list"

definition new_upgrade :: "handshake_call \<Rightarrow> upgrade" where
  "new_upgrade call =
     \<lparr>ug_call = call, ug_pc = UpgradeHandshake, ug_future = FuturePending, ug_observed = False,
      ug_native = False, ug_session = False, ug_raw = RawOpen\<rparr>"

definition token_cancelled :: "nat \<Rightarrow> upgrade_sys \<Rightarrow> bool" where
  "token_cancelled k s \<longleftrightarrow> k \<in> pc_cancelled (us_slot s)"

definition cancel_token :: "nat \<Rightarrow> upgrade_sys \<Rightarrow> upgrade_sys" where
  "cancel_token k s = s\<lparr>us_slot := py_cancel k (us_slot s)\<rparr>"

definition set_upgrade :: "nat \<Rightarrow> upgrade \<Rightarrow> upgrade_sys \<Rightarrow> upgrade_sys" where
  "set_upgrade k u s = s\<lparr>us_upgrades := (us_upgrades s)[k := u]\<rparr>"

section \<open>Establishing\<close>

text \<open>
  Dropping the future of an upgrade whose handshake did not end drops the raw connection and the armed
  guard. An error after the handshake drops session, native object and guard: the connection goes with them.
\<close>

definition drop_upgrade :: "nat \<Rightarrow> upgrade_sys \<Rightarrow> upgrade_sys" where
  "drop_upgrade k s =
     cancel_token k (set_upgrade k ((us_upgrades s ! k)\<lparr>ug_pc := UpgradeDropped, ug_raw := RawDropped\<rparr>) s)"

definition fail_upgrade :: "nat \<Rightarrow> py_err \<Rightarrow> upgrade_sys \<Rightarrow> upgrade_sys" where
  "fail_upgrade k e s =
     cancel_token k
       (set_upgrade k ((us_upgrades s ! k)\<lparr>ug_pc := UpgradeReturned (Inl e), ug_raw := RawDropped\<rparr>) s)"

text \<open>
  \<open>locals\<close> is what \<open>get_current_locals\<close> answers, \<open>spawned\<close> what \<open>future_into_py_with_locals\<close> answers:
  if it fails, the future is dropped before its first poll.
\<close>

definition establish ::
  "handshake_call \<Rightarrow> py_err + unit \<Rightarrow> py_err + unit \<Rightarrow> upgrade_sys \<Rightarrow> (py_err + nat) \<times> upgrade_sys" where
  "establish call locals spawned s =
     (case locals of
        Inl e \<Rightarrow> (Inl e, s)
      | Inr _ \<Rightarrow>
          (let token = length (us_upgrades s) in
           case py_begin_secure token (us_slot s) of
             (Inl e, slot) \<Rightarrow> (Inl e, s\<lparr>us_slot := slot\<rparr>)
           | (Inr raw, slot) \<Rightarrow>
               (case spawned of
                  Inl e \<Rightarrow>
                    (Inl e, drop_upgrade token
                       (s\<lparr>us_slot := slot,
                          us_upgrades := us_upgrades s @ [(new_upgrade call)\<lparr>ug_future := NoFuture\<rparr>]\<rparr>))
                | Inr _ \<Rightarrow>
                    (Inr token, s\<lparr>us_slot := slot, us_upgrades := us_upgrades s @ [new_upgrade call]\<rparr>))))"

definition secure_client where
  "secure_client identity_private_key server_identity_public_key locals spawned s =
     (case try_result (key32 server_identity_public_key ''server identity public key'') (\<lambda>peer.
           try_result (key32 identity_private_key ''Ed25519 private identity key'') (\<lambda>private.
           Inr (ClientCall private peer))) of
        Inl e \<Rightarrow> (Inl e, s)
      | Inr call \<Rightarrow> establish call locals spawned s)"

definition secure_server where
  "secure_server client_identity_public_key identity_private_key locals spawned s =
     (case try_result (key32 client_identity_public_key ''client identity public key'') (\<lambda>peer.
           try_result (key32 identity_private_key ''Ed25519 private identity key'') (\<lambda>private.
           Inr (ServerCall peer private))) of
        Inl e \<Rightarrow> (Inl e, s)
      | Inr call \<Rightarrow> establish call locals spawned s)"

text \<open>
  \<open>observe_cancellation\<close>: if the callback object cannot be made, the armed guard cancels the token; if it cannot be
  added, the Python future is cancelled as well.
\<close>

definition observe_cancellation :: "nat \<Rightarrow> py_err + unit \<Rightarrow> py_err + unit \<Rightarrow> upgrade_sys \<Rightarrow> upgrade_sys" where
  "observe_cancellation k callback added s =
     (let u = us_upgrades s ! k in
      case callback of
        Inl e \<Rightarrow> cancel_token k s
      | Inr _ \<Rightarrow>
          (case added of
             Inl e \<Rightarrow>
               cancel_token k
                 (set_upgrade k (if ug_future u = FuturePending then u\<lparr>ug_future := FutureCancelled\<rparr> else u) s)
           | Inr _ \<Rightarrow> set_upgrade k (u\<lparr>ug_observed := True\<rparr>) s))"

section \<open>The future of an upgrade\<close>

datatype upgrade_event = TokenSeen | HandshakeReturned "anyhow + unit" | Attached "py_err + unit"

text \<open>
  The \<open>select!\<close> is biased towards the token. \<open>Attached\<close> carries the result of making the native object, and
  \<open>finish_secure\<close> looks at the slot, which a close may have cancelled in the meantime.
\<close>

definition upgrade_handshake :: "nat \<Rightarrow> upgrade_event \<Rightarrow> upgrade_sys \<Rightarrow> upgrade_sys option" where
  "upgrade_handshake k ev s =
     (case ev of
        TokenSeen \<Rightarrow> if token_cancelled k s then Some (fail_upgrade k session_closed_error s) else None
      | HandshakeReturned r \<Rightarrow>
          if token_cancelled k s then None
          else (case r of
                  Inl e \<Rightarrow> Some (fail_upgrade k (secure_error e) s)
                | Inr _ \<Rightarrow>
                    Some (set_upgrade k
                      ((us_upgrades s ! k)\<lparr>ug_pc := UpgradeHandOver, ug_session := True\<rparr>) s))
      | Attached r \<Rightarrow> None)"

definition upgrade_hand_over :: "nat \<Rightarrow> upgrade_event \<Rightarrow> upgrade_sys \<Rightarrow> upgrade_sys option" where
  "upgrade_hand_over k ev s =
     (case ev of
        Attached (Inl e) \<Rightarrow> Some (fail_upgrade k e s)
      | Attached (Inr _) \<Rightarrow>
          (case py_finish_secure k (us_slot s) of
             (Inl e, slot) \<Rightarrow> Some (fail_upgrade k e (s\<lparr>us_slot := slot\<rparr>))
           | (Inr _, slot) \<Rightarrow>
               Some (set_upgrade k
                 ((us_upgrades s ! k)\<lparr>ug_pc := UpgradeReturned (Inr ()), ug_native := True\<rparr>)
                 (s\<lparr>us_slot := slot\<rparr>)))
      | _ \<Rightarrow> None)"

definition upgrade_poll :: "nat \<Rightarrow> upgrade_event \<Rightarrow> upgrade_sys \<Rightarrow> upgrade_sys option" where
  "upgrade_poll k ev s =
     (case ug_pc (us_upgrades s ! k) of
        UpgradeHandshake \<Rightarrow> upgrade_handshake k ev s
      | UpgradeHandOver \<Rightarrow> upgrade_hand_over k ev s
      | _ \<Rightarrow> None)"

definition upgrade_drop :: "nat \<Rightarrow> upgrade_sys \<Rightarrow> upgrade_sys option" where
  "upgrade_drop k s =
     (if ug_pc (us_upgrades s ! k) = UpgradeHandshake then Some (drop_upgrade k s) else None)"

section \<open>The Python side\<close>

text \<open>
  The link between a Python future and its Rust future is not in the sources; what is used of it is documented: a
  cancelled Python future drops the Rust future at some later time or discards its result, and runs its
  done-callbacks. These are \<open>deliver_result\<close>, \<open>cancel_future\<close> and the step that drops an upgrade.
  Dropping the native object cancels the token.
\<close>

definition drop_native :: "nat \<Rightarrow> upgrade_sys \<Rightarrow> upgrade_sys" where
  "drop_native k s = cancel_token k (set_upgrade k ((us_upgrades s ! k)\<lparr>ug_native := False\<rparr>) s)"

text \<open>The result of the Rust future reaches the Python future, which discards it when it is cancelled.\<close>

definition deliver_result :: "nat \<Rightarrow> upgrade_sys \<Rightarrow> upgrade_sys option" where
  "deliver_result k s =
     (let u = us_upgrades s ! k in
      case ug_pc u of
        UpgradeReturned r \<Rightarrow>
          (case ug_future u of
             FuturePending \<Rightarrow> Some (set_upgrade k (u\<lparr>ug_future := FutureResolved r\<rparr>) s)
           | FutureCancelled \<Rightarrow> if ug_native u then Some (drop_native k s) else None
           | _ \<Rightarrow> None)
      | _ \<Rightarrow> None)"

definition cancel_future :: "nat \<Rightarrow> upgrade_sys \<Rightarrow> upgrade_sys option" where
  "cancel_future k s =
     (if ug_future (us_upgrades s ! k) = FuturePending
      then Some (set_upgrade k ((us_upgrades s ! k)\<lparr>ug_future := FutureCancelled\<rparr>) s) else None)"

definition done_callback :: "nat \<Rightarrow> upgrade_sys \<Rightarrow> upgrade_sys option" where
  "done_callback k s =
     (let u = us_upgrades s ! k in
      if ug_observed u \<and> ug_future u = FutureCancelled then Some (cancel_token k s) else None)"

definition native_delivered :: "upgrade \<Rightarrow> bool" where
  "native_delivered u \<longleftrightarrow> ug_native u \<and> ug_future u = FutureResolved (Inr ())"

definition native_dropped :: "nat \<Rightarrow> upgrade_sys \<Rightarrow> upgrade_sys option" where
  "native_dropped k s = (if native_delivered (us_upgrades s ! k) then Some (drop_native k s) else None)"

text \<open>\<open>abort\<close>, and the synchronous part of \<open>close\<close>.\<close>

definition native_abort :: "nat \<Rightarrow> upgrade_sys \<Rightarrow> upgrade_sys option" where
  "native_abort k s = (if native_delivered (us_upgrades s ! k) then Some (cancel_token k s) else None)"

text \<open>
  Closing the inner connection, by the background task (whose weak reference can be upgraded while anybody holds
  the session) or by the future of a \<open>close\<close>: always after the token was cancelled.
\<close>

definition session_alive :: "nat \<Rightarrow> upgrade_sys \<Rightarrow> bool" where
  "session_alive k s \<longleftrightarrow>
     (let u = us_upgrades s ! k in
      ug_session u \<and> (ug_pc u = UpgradeHandOver \<or> ug_native u \<or> pc_slot (us_slot s) = SlotSecure k))"

definition close_session :: "nat \<Rightarrow> upgrade_sys \<Rightarrow> upgrade_sys option" where
  "close_session k s =
     (if token_cancelled k s \<and> session_alive k s
      then Some (set_upgrade k ((us_upgrades s ! k)\<lparr>ug_raw := RawClosed\<rparr>) s) else None)"

section \<open>Any interleaving\<close>

datatype upgrade_action =
  Establish handshake_call "py_err + unit" "py_err + unit"
| Observe nat "py_err + unit" "py_err + unit"
| PollUpgrade nat upgrade_event
| DropUpgrade nat
| DeliverResult nat
| CancelFuture nat
| DoneCallback nat
| DropNative nat
| AbortNative nat
| CloseSession nat
| CloseWrapper
| PlainStart
| PlainEnd
| SplitWrapper

definition on_upgrade :: "nat \<Rightarrow> (nat \<Rightarrow> upgrade_sys \<Rightarrow> upgrade_sys option) \<Rightarrow> upgrade_sys \<Rightarrow> upgrade_sys option" where
  "on_upgrade k f s = (if k < length (us_upgrades s) then f k s else None)"

fun upgrade_step :: "upgrade_sys \<Rightarrow> upgrade_action \<Rightarrow> upgrade_sys option" where
  "upgrade_step s (Establish call locals spawned) = Some (snd (establish call locals spawned s))"
| "upgrade_step s (Observe k callback added) =
     on_upgrade k (\<lambda>k s. Some (observe_cancellation k callback added s)) s"
| "upgrade_step s (PollUpgrade k ev) = on_upgrade k (\<lambda>k s. upgrade_poll k ev s) s"
| "upgrade_step s (DropUpgrade k) = on_upgrade k upgrade_drop s"
| "upgrade_step s (DeliverResult k) = on_upgrade k deliver_result s"
| "upgrade_step s (CancelFuture k) = on_upgrade k cancel_future s"
| "upgrade_step s (DoneCallback k) = on_upgrade k done_callback s"
| "upgrade_step s (DropNative k) = on_upgrade k native_dropped s"
| "upgrade_step s (AbortNative k) = on_upgrade k native_abort s"
| "upgrade_step s (CloseSession k) = on_upgrade k close_session s"
| "upgrade_step s CloseWrapper = Some (s\<lparr>us_slot := snd (py_close (us_slot s))\<rparr>)"
| "upgrade_step s PlainStart = Some (s\<lparr>us_slot := slot_step StartPlainOp (us_slot s)\<rparr>)"
| "upgrade_step s PlainEnd = Some (s\<lparr>us_slot := slot_step EndPlainOp (us_slot s)\<rparr>)"
| "upgrade_step s SplitWrapper = Some (s\<lparr>us_slot := snd (py_take_for_split (us_slot s))\<rparr>)"

fun upgrade_run :: "upgrade_sys \<Rightarrow> upgrade_action list \<Rightarrow> upgrade_sys option" where
  "upgrade_run s [] = Some s"
| "upgrade_run s (a # as) = (case upgrade_step s a of None \<Rightarrow> None | Some t \<Rightarrow> upgrade_run t as)"

definition upgrade_start :: "nat \<Rightarrow> upgrade_sys" where
  "upgrade_start raw = \<lparr>us_slot = py_from_rust raw, us_upgrades = []\<rparr>"

end
