(* ===== verification/Upgrade_Props.thy ===== *)
theory Upgrade_Props
  imports Py_Upgrade Handshake_Props
begin

text \<open>
  The life of a secure upgrade over every interleaving of \<open>Py_Upgrade\<close>: at most one upgrade ever begins on a
  wrapper, the slot, the token, the native object and the raw connection always agree, the slot moves exactly as
  in \<open>Py_Slot\<close>, and whatever Python lets go of is cleaned up.
\<close>

section \<open>The invariant\<close>

definition slot_of :: "upgrade_sys \<Rightarrow> connection_slot" where
  "slot_of s = pc_slot (us_slot s)"

definition raw_ok :: "raw_state \<Rightarrow> bool \<Rightarrow> bool" where
  "raw_ok raw cancelled \<longleftrightarrow> raw = RawOpen \<or> raw = RawClosed \<and> cancelled"

definition upgrade_ok :: "upgrade \<Rightarrow> connection_slot \<Rightarrow> bool \<Rightarrow> bool" where
  "upgrade_ok u slot cancelled \<longleftrightarrow>
     (case ug_pc u of
        UpgradeHandshake \<Rightarrow> \<not> ug_native u \<and> \<not> ug_session u \<and> ug_raw u = RawOpen \<and> slot = SlotUpgrading 0
      | UpgradeHandOver \<Rightarrow> \<not> ug_native u \<and> ug_session u \<and> raw_ok (ug_raw u) cancelled \<and> slot = SlotUpgrading 0
      | UpgradeReturned (Inl e) \<Rightarrow> cancelled \<and> \<not> ug_native u \<and> ug_raw u = RawDropped \<and> slot = SlotUpgrading 0
      | UpgradeReturned (Inr _) \<Rightarrow>
          ug_session u \<and> (ug_native u \<or> cancelled) \<and> raw_ok (ug_raw u) cancelled \<and> slot = SlotSecure 0
      | UpgradeDropped \<Rightarrow> cancelled \<and> \<not> ug_native u \<and> ug_raw u = RawDropped \<and> slot = SlotUpgrading 0)
     \<and> (\<forall>r. ug_future u = FutureResolved r \<longrightarrow> ug_pc u = UpgradeReturned r)
     \<and> (ug_future u = NoFuture \<longrightarrow> ug_pc u = UpgradeDropped)"

definition upgrade_inv :: "upgrade_sys \<Rightarrow> bool" where
  "upgrade_inv s \<longleftrightarrow> slot_inv (us_slot s)
     \<and> (case us_upgrades s of
          [] \<Rightarrow> pc_cancelled (us_slot s) = {} \<and> (slot_of s = SlotConsumed \<or> (\<exists>raw. slot_of s = SlotPlain raw))
        | [u] \<Rightarrow> upgrade_ok u (slot_of s) (token_cancelled 0 s)
        | _ \<Rightarrow> False)"

lemmas upgrade_fun_defs =
  drop_upgrade_def fail_upgrade_def cancel_token_def set_upgrade_def token_cancelled_def slot_of_def
  upgrade_poll_def upgrade_handshake_def upgrade_hand_over_def upgrade_drop_def drop_native_def deliver_result_def
  cancel_future_def done_callback_def native_delivered_def native_dropped_def native_abort_def session_alive_def
  close_session_def observe_cancellation_def on_upgrade_def Let_def

lemmas token_defs = py_cancel_def py_finish_secure_def

lemma slot_inv_cancel: "slot_inv s \<Longrightarrow> slot_inv (py_cancel k s)"
  using slot_inv_step [of s "CancelToken k"] by (simp add: slot_step_def)

text \<open>The state with one upgrade.\<close>

lemma upgrade_inv_single:
  "us_upgrades s = [u] \<Longrightarrow>
     upgrade_inv s \<longleftrightarrow> slot_inv (us_slot s) \<and> upgrade_ok u (slot_of s) (token_cancelled 0 s)"
  by (simp add: upgrade_inv_def)

lemma upgrade_inv_nth:
  assumes "upgrade_inv s" and "k < length (us_upgrades s)"
  obtains u where "k = 0" "us_upgrades s = [u]" "slot_inv (us_slot s)" "upgrade_ok u (slot_of s) (token_cancelled 0 s)"
  using assms by (auto simp: upgrade_inv_def split: list.splits)

section \<open>The slot moves as in its own theory\<close>

lemma slot_run_one: "slot_step a s = slot_run [a] s"
  by (simp add: slot_run_def)

lemma slot_run_two: "slot_step b (slot_step a s) = slot_run [a, b] s"
  by (simp add: slot_run_def)

lemma slot_run_none: "s = slot_run [] s"
  by (simp add: slot_run_def)

definition slot_moves :: "py_connection \<Rightarrow> py_connection \<Rightarrow> bool" where
  "slot_moves s t \<longleftrightarrow> (\<exists>as. t = slot_run as s)"

lemma slot_moves_refl [simp]: "slot_moves s s"
  using slot_run_none slot_moves_def by blast

lemma slot_moves_step: "slot_moves s (slot_step a s)"
  using slot_run_one slot_moves_def by blast

lemma slot_moves_trans: "slot_moves s t \<Longrightarrow> slot_moves t u \<Longrightarrow> slot_moves s u"
proof -
  have app: "slot_run bs (slot_run as s) = slot_run (as @ bs) s" for as bs by (simp add: slot_run_def)
  show "slot_moves s t \<Longrightarrow> slot_moves t u \<Longrightarrow> slot_moves s u" unfolding slot_moves_def using app by blast
qed

lemma slot_moves_cancel [simp]: "slot_moves s (py_cancel k s)"
  using slot_moves_step [of s "CancelToken k"] by (simp add: slot_step_def)

lemma slot_moves_begin: "slot_moves s (snd (py_begin_secure k s))"
  using slot_moves_step [of s "BeginSecure k"] by (simp add: slot_step_def)

lemma slot_moves_split: "slot_moves s (snd (py_take_for_split s))"
  using slot_moves_step [of s SplitConn] by (simp add: slot_step_def)

lemma slot_moves_close: "slot_moves s (snd (py_close s))"
  using slot_moves_step [of s CloseConn] by (simp add: slot_step_def)

lemma slot_moves_finish:
  "slot_inv s \<Longrightarrow> pc_slot s = SlotUpgrading k \<Longrightarrow> slot_moves s (snd (py_finish_secure k s))"
  using slot_moves_step [of s "FinishSecure k"] by (simp add: slot_step_def slot_inv_def)

lemma slot_moves_inv: "slot_moves s t \<Longrightarrow> slot_inv s \<Longrightarrow> slot_inv t"
  unfolding slot_moves_def using slot_inv_run by blast

lemma establish_slot: "slot_moves (us_slot s) (us_slot (snd (establish call locals spawned s)))"
proof -
  let ?k = "length (us_upgrades s)"
  obtain r slot where rs: "py_begin_secure ?k (us_slot s) = (r, slot)" by fastforce
  with slot_moves_begin [of "us_slot s" ?k] have b: "slot_moves (us_slot s) slot" by simp
  have "slot_moves (us_slot s) (py_cancel ?k slot)" using slot_moves_trans [OF b slot_moves_cancel] .
  with b rs show ?thesis by (auto simp: establish_def upgrade_fun_defs split: sum.splits)
qed

lemma poll_slot:
  assumes "upgrade_inv s" and "k < length (us_upgrades s)" and "upgrade_poll k ev s = Some t"
  shows "slot_moves (us_slot s) (us_slot t)"
proof -
  obtain u where u: "k = 0" "us_upgrades s = [u]" "slot_inv (us_slot s)" "upgrade_ok u (slot_of s) (token_cancelled 0 s)"
    using upgrade_inv_nth [OF assms(1,2)] by blast
  show ?thesis
  proof (cases "ug_pc u")
    case UpgradeHandOver
    with u have "pc_slot (us_slot s) = SlotUpgrading 0" by (simp add: upgrade_ok_def slot_of_def)
    with u(3) have f: "slot_moves (us_slot s) (snd (py_finish_secure 0 (us_slot s)))" by (rule slot_moves_finish)
    then have "slot_moves (us_slot s) (py_cancel 0 (snd (py_finish_secure 0 (us_slot s))))"
      using slot_moves_trans slot_moves_cancel by blast
    with f UpgradeHandOver u(1,2) assms(3) show ?thesis
      by (auto simp: upgrade_poll_def upgrade_hand_over_def fail_upgrade_def cancel_token_def set_upgrade_def
          split: upgrade_event.splits sum.splits prod.splits)
  qed (use u(1,2) assms(3) in
      \<open>auto simp: upgrade_fun_defs split: upgrade_event.splits sum.splits if_splits\<close>)
qed

lemma upgrade_step_slot:
  assumes "upgrade_inv s" and "upgrade_step s a = Some t"
  shows "slot_moves (us_slot s) (us_slot t)"
proof (cases a)
  case (PollUpgrade k ev)
  with assms poll_slot show ?thesis by (auto simp: on_upgrade_def split: if_splits)
qed (use assms(2) establish_slot slot_moves_close slot_moves_split slot_moves_step in
    \<open>auto simp: upgrade_fun_defs split: sum.splits if_splits upgrade_pc.splits py_future.splits\<close>)

section \<open>Every step keeps the invariant\<close>

lemma begin_secure_result:
  "py_begin_secure k s = (r, t) \<Longrightarrow>
     (case r of
        Inr raw \<Rightarrow> pc_slot s = SlotPlain raw \<and> pc_slot t = SlotUpgrading k \<and> pc_cancelled t = pc_cancelled s
      | Inl e \<Rightarrow> t = s)"
  by (cases "pc_slot s") (auto simp: py_begin_secure_def py_take_plain_def split: if_splits)

lemma begin_secure_left:
  "upgrade_inv s \<Longrightarrow> us_upgrades s \<noteq> [] \<Longrightarrow> \<exists>e. py_begin_secure k (us_slot s) = (Inl e, us_slot s)"
  by (auto simp: upgrade_inv_def upgrade_ok_def slot_of_def py_begin_secure_def py_take_plain_def
      split: list.splits upgrade_pc.splits sum.splits)

lemma establish_inv: "upgrade_inv s \<Longrightarrow> upgrade_inv (snd (establish call locals spawned s))"
proof -
  assume inv: "upgrade_inv s"
  then have si: "slot_inv (us_slot (snd (establish call locals spawned s)))"
    using establish_slot slot_moves_inv upgrade_inv_def by blast
  show ?thesis
  proof (cases "us_upgrades s = []")
    case False
    from begin_secure_left [OF inv this] obtain e where
      "py_begin_secure (length (us_upgrades s)) (us_slot s) = (Inl e, us_slot s)" by blast
    then show ?thesis using inv by (simp add: establish_def split: sum.split)
  next
    case True
    obtain r slot where rs: "py_begin_secure 0 (us_slot s) = (r, slot)" by fastforce
    from begin_secure_result [OF rs] inv True si rs show ?thesis
      by (auto simp: establish_def upgrade_inv_def upgrade_ok_def upgrade_fun_defs token_defs new_upgrade_def
          split: sum.splits)
  qed
qed

lemma poll_inv:
  assumes "upgrade_inv s" and "k < length (us_upgrades s)" and "upgrade_poll k ev s = Some t"
  shows "upgrade_inv t"
proof -
  obtain u where u: "k = 0" "us_upgrades s = [u]" "slot_inv (us_slot s)" "upgrade_ok u (slot_of s) (token_cancelled 0 s)"
    using upgrade_inv_nth [OF assms(1,2)] by blast
  have si: "slot_inv (us_slot t)" using poll_slot [OF assms] u(3) slot_moves_inv by blast
  show ?thesis
  proof (cases "ug_pc u")
    case UpgradeHandshake
    with u si assms(3) show ?thesis
      by (auto simp: upgrade_inv_def upgrade_ok_def upgrade_fun_defs token_defs raw_ok_def
          split: upgrade_event.splits sum.splits if_splits)
  next
    case UpgradeHandOver
    with u si assms(3) show ?thesis
      by (auto simp: upgrade_inv_def upgrade_ok_def upgrade_fun_defs token_defs raw_ok_def
          split: upgrade_event.splits sum.splits if_splits)
  qed (use u assms(3) in \<open>simp_all add: upgrade_poll_def\<close>)
qed

text \<open>A step that changes one upgrade and possibly cancels its token.\<close>

lemma upgrade_inv_change:
  assumes "upgrade_inv s" and "us_upgrades s = [u]" and "us_upgrades t = [v]"
    and "us_slot t = us_slot s \<or> us_slot t = py_cancel 0 (us_slot s)"
    and "upgrade_ok u (slot_of s) (token_cancelled 0 s) \<Longrightarrow> upgrade_ok v (slot_of s) (token_cancelled 0 t)"
  shows "upgrade_inv t"
proof -
  have "slot_inv (us_slot t)" using assms(1,4) slot_inv_cancel unfolding upgrade_inv_def by auto
  moreover have "slot_of t = slot_of s" using assms(4) by (auto simp: slot_of_def py_cancel_def)
  ultimately show ?thesis using assms by (simp add: upgrade_inv_single)
qed

lemma upgrade_ok_cancel: "upgrade_ok u slot c \<Longrightarrow> upgrade_ok u slot True"
  by (auto simp: upgrade_ok_def raw_ok_def split: upgrade_pc.splits sum.splits)

lemma wrapper_inv:
  assumes "upgrade_inv s" and "a \<in> {StartPlainOp, EndPlainOp, SplitConn, CloseConn}"
  shows "upgrade_inv (s\<lparr>us_slot := slot_step a (us_slot s)\<rparr>)"
proof (cases "us_upgrades s")
  case Nil
  with assms slot_inv_step [of "us_slot s" a] show ?thesis
    by (cases "pc_slot (us_slot s)"; cases "pc_refs (us_slot s) = 0")
      (auto simp: upgrade_inv_def slot_of_def slot_defs)
next
  case (Cons u us)
  with assms(1) have u: "us_upgrades s = [u]" "upgrade_ok u (slot_of s) (token_cancelled 0 s)" "slot_inv (us_slot s)"
    by (auto simp: upgrade_inv_def split: list.splits)
  then have "slot_of s = SlotUpgrading 0 \<or> slot_of s = SlotSecure 0"
    by (auto simp: upgrade_ok_def split: upgrade_pc.splits sum.splits)
  with assms(2) have "slot_step a (us_slot s) = us_slot s \<or> slot_step a (us_slot s) = py_cancel 0 (us_slot s)
      \<or> slot_step a (us_slot s) = (us_slot s)\<lparr>pc_refs := pc_refs (us_slot s) - 1\<rparr>"
    by (auto simp: slot_of_def slot_defs)
  then have "slot_of (s\<lparr>us_slot := slot_step a (us_slot s)\<rparr>) = slot_of s
      \<and> (token_cancelled 0 s \<longrightarrow> token_cancelled 0 (s\<lparr>us_slot := slot_step a (us_slot s)\<rparr>))"
    by (auto simp: slot_of_def token_cancelled_def py_cancel_def)
  with u slot_inv_step [of "us_slot s" a] upgrade_ok_cancel [OF u(2)] show ?thesis
    by (cases "token_cancelled 0 s"; cases "token_cancelled 0 (s\<lparr>us_slot := slot_step a (us_slot s)\<rparr>)")
      (simp_all add: upgrade_inv_def)
qed

lemma wrapper_step:
  "snd (py_close s) = slot_step CloseConn s" "snd (py_take_for_split s) = slot_step SplitConn s"
  by (simp_all add: slot_step_def)

lemma upgrade_inv_step:
  assumes "upgrade_inv s" and "upgrade_step s a = Some t"
  shows "upgrade_inv t"
proof (cases "\<exists>k. a \<in> {DropUpgrade k, DeliverResult k, CancelFuture k, DoneCallback k, DropNative k, AbortNative k, CloseSession k}
    \<or> (\<exists>c r. a = Observe k c r)")
  case True
  then obtain k where k: "a \<in> {DropUpgrade k, DeliverResult k, CancelFuture k, DoneCallback k, DropNative k, AbortNative k, CloseSession k}
    \<or> (\<exists>c r. a = Observe k c r)" by blast
  with assms(2) have "k < length (us_upgrades s)" by (auto simp: on_upgrade_def split: if_splits)
  then obtain u where u: "k = 0" "us_upgrades s = [u]" "upgrade_ok u (slot_of s) (token_cancelled 0 s)"
    using upgrade_inv_nth [OF assms(1)] by blast
  obtain v where v: "us_upgrades t = [v]" "us_slot t = us_slot s \<or> us_slot t = py_cancel 0 (us_slot s)"
    "upgrade_ok v (slot_of s) (token_cancelled 0 t)"
    using k assms(2) u
    by (auto simp: upgrade_fun_defs py_cancel_def upgrade_ok_def raw_ok_def
        split: sum.splits if_splits upgrade_pc.splits py_future.splits)
  show ?thesis by (rule upgrade_inv_change [OF assms(1) u(2) v(1,2)]) (rule v(3))
next
  case False
  then show ?thesis
    using assms establish_inv poll_inv wrapper_inv
    by (cases a) (auto simp: on_upgrade_def wrapper_step split: if_splits)
qed

lemma upgrade_run_inv:
  "upgrade_inv s \<Longrightarrow> upgrade_run s as = Some t \<Longrightarrow> upgrade_inv t \<and> slot_moves (us_slot s) (us_slot t)"
proof (induction as arbitrary: s)
  case (Cons a as)
  from Cons.prems(2) obtain r where r: "upgrade_step s a = Some r" "upgrade_run r as = Some t"
    by (auto split: option.splits)
  from Cons.IH [OF upgrade_inv_step [OF Cons.prems(1) r(1)] r(2)]
    upgrade_step_slot [OF Cons.prems(1) r(1)] slot_moves_trans show ?case by blast
qed simp

lemma upgrade_inv_start: "upgrade_inv (upgrade_start raw)"
  by (simp add: upgrade_inv_def upgrade_start_def py_from_rust_def slot_inv_def slot_of_def)

section \<open>Cleaning up\<close>

text \<open>Python has let go of an upgrade when nothing can deliver its native object any more.\<close>

definition let_go :: "upgrade \<Rightarrow> bool" where
  "let_go u \<longleftrightarrow>
     (case ug_future u of
        NoFuture \<Rightarrow> True
      | FutureCancelled \<Rightarrow> True
      | FuturePending \<Rightarrow> False
      | FutureResolved (Inl e) \<Rightarrow> True
      | FutureResolved (Inr _) \<Rightarrow> \<not> ug_native u)"

text \<open>What the runtime still does by itself, for the upgrade \<open>u\<close> with its token cancelled or not.\<close>

definition clean_up :: "upgrade \<Rightarrow> bool \<Rightarrow> upgrade_action list" where
  "clean_up u cancelled =
     (case ug_pc u of
        UpgradeHandshake \<Rightarrow> if cancelled then [PollUpgrade 0 TokenSeen] else [DropUpgrade 0]
      | UpgradeHandOver \<Rightarrow>
          PollUpgrade 0 (Attached (Inr ())) # (if cancelled then [] else [DeliverResult 0, CloseSession 0])
      | UpgradeReturned (Inr _) \<Rightarrow> (if cancelled then [] else [DeliverResult 0]) @ [CloseSession 0]
      | _ \<Rightarrow> [])"

lemma clean_up_run:
  assumes "upgrade_inv s" and "us_upgrades s = [u]" and "token_cancelled 0 s \<or> let_go u"
  shows "\<exists>t v. upgrade_run s (clean_up u (token_cancelled 0 s)) = Some t \<and> us_upgrades t = [v]
    \<and> token_cancelled 0 t \<and> ug_raw v \<noteq> RawOpen"
proof -
  have ok: "upgrade_ok u (slot_of s) (token_cancelled 0 s)" using assms(1,2) upgrade_inv_single by blast
  show ?thesis
  proof (cases "ug_pc u")
    case UpgradeHandshake
    with ok assms(2,3) show ?thesis
      by (auto simp: clean_up_def upgrade_ok_def upgrade_fun_defs token_defs)
  next
    case UpgradeHandOver
    with ok assms(2,3) show ?thesis
      by (cases "ug_future u")
        (auto simp: clean_up_def upgrade_ok_def upgrade_fun_defs token_defs raw_ok_def let_go_def split: sum.splits)
  next
    case (UpgradeReturned r)
    with ok assms(2,3) show ?thesis
      by (cases "ug_future u"; cases r)
        (auto simp: clean_up_def upgrade_ok_def upgrade_fun_defs token_defs raw_ok_def let_go_def split: sum.splits)
  next
    case UpgradeDropped
    with ok assms(2) show ?thesis by (auto simp: clean_up_def upgrade_ok_def)
  qed
qed

section \<open>Properties\<close>


text \<open>C15: Nothing that Python lets go of stays connected: in every reachable state in which the token of an upgrade is cancelled
  (by \<open>close\<close>, \<open>abort\<close>, a cancelled future or a dropped object), or its future was cancelled before or after
  the Rust side finished, or it ended with an error, or the native object was dropped, the runtime alone (polling the
  upgrade, dropping its future, discarding its result, running the closing task) brings it within three steps to a
  state with the token cancelled and the raw connection closed or dropped.\<close>

theorem upgrade_not_leaked:
  assumes "upgrade_run (upgrade_start raw) as = Some s" and "k < length (us_upgrades s)"
    and "token_cancelled k s \<or> let_go (us_upgrades s ! k)"
  shows "\<exists>bs t. length bs \<le> 3 \<and> upgrade_run s bs = Some t \<and> token_cancelled k t
    \<and> ug_raw (us_upgrades t ! k) \<in> {RawClosed, RawDropped}
    \<and> set bs \<subseteq> {PollUpgrade k TokenSeen, PollUpgrade k (Attached (Inr ())), DropUpgrade k, DeliverResult k, CloseSession k}"
proof -
  from upgrade_run_inv [OF upgrade_inv_start assms(1)] have inv: "upgrade_inv s" by blast
  obtain u where u: "k = 0" "us_upgrades s = [u]" using upgrade_inv_nth [OF inv assms(2)] by blast
  from clean_up_run [OF inv u(2)] assms(3) u obtain t v where
    t: "upgrade_run s (clean_up u (token_cancelled 0 s)) = Some t" "us_upgrades t = [v]" "token_cancelled 0 t"
      "ug_raw v \<noteq> RawOpen" by auto
  have "ug_raw v \<in> {RawClosed, RawDropped}" using t(4) by (cases "ug_raw v") auto
  moreover have "length (clean_up u c) \<le> 3
      \<and> set (clean_up u c) \<subseteq> {PollUpgrade 0 TokenSeen, PollUpgrade 0 (Attached (Inr ())), DropUpgrade 0, DeliverResult 0, CloseSession 0}"
    for c by (auto simp: clean_up_def split: upgrade_pc.split sum.split)
  ultimately show ?thesis using t u(1) by (metis nth_Cons_0)
qed

text \<open>What a successful \<open>establish\<close> did, and which call of the core it made.\<close>

lemma establish_Inr:
  assumes "establish call locals spawned s = (Inr k, t)"
  shows "k = length (us_upgrades s) \<and> us_upgrades t = us_upgrades s @ [new_upgrade call]
    \<and> pc_slot (us_slot t) = SlotUpgrading k \<and> (\<exists>raw. pc_slot (us_slot s) = SlotPlain raw) \<and> pc_refs (us_slot s) = 0"
proof -
  obtain r slot where rs: "py_begin_secure (length (us_upgrades s)) (us_slot s) = (r, slot)" by fastforce
  then have "r = Inr raw \<Longrightarrow> pc_refs (us_slot s) = 0" for raw
    by (cases "pc_slot (us_slot s)") (auto simp: py_begin_secure_def py_take_plain_def split: if_splits)
  with assms rs begin_secure_result [OF rs] show ?thesis
    by (auto simp: establish_def Let_def split: sum.splits)
qed

lemma secure_client_Inr:
  "secure_client private peer locals spawned s = (Inr k, t) \<longleftrightarrow>
     length private = 32 \<and> length peer = 32 \<and> establish (ClientCall private peer) locals spawned s = (Inr k, t)"
  by (simp add: secure_client_def key32_def)

lemma secure_server_Inr:
  "secure_server peer private locals spawned s = (Inr k, t) \<longleftrightarrow>
     length private = 32 \<and> length peer = 32 \<and> establish (ServerCall peer private) locals spawned s = (Inr k, t)"
  by (auto simp: secure_server_def key32_def)

text \<open>C18: The keys that a Python program names are the keys of the session, on both sides and although the two calls of the core take
  them in opposite orders: an upgrade begins only with two keys of 32 bytes and on an idle plain connection; if its handshake
  returns a session, then a signature verified under exactly the peer key the program passed, over a message
  of the other side that covers the public key of exactly the private key it passed.\<close>

theorem python_upgrade_pins_peer:
  assumes "secure_client private peer locals spawned s = (Inr k, t)
      \<or> secure_server peer private locals spawned s = (Inr k, t)"
    and "handshake_of cr recv send ephemeral random (ug_call (us_upgrades t ! k)) w = (Ret ss, w')"
  shows "length private = 32 \<and> length peer = 32
    \<and> (\<exists>raw. pc_slot (us_slot s) = SlotPlain raw) \<and> pc_refs (us_slot s) = 0 \<and> pc_slot (us_slot t) = SlotUpgrading k
    \<and> (secure_client private peer locals spawned s = (Inr k, t) \<longrightarrow>
        (\<exists>own_nonce e n sig. verify_signature cr peer
           (server_signature_message (ephemeral_public cr ephemeral) (identity_public cr private) own_nonce e peer n) sig
           = Inr ()))
    \<and> (secure_server peer private locals spawned s = (Inr k, t) \<longrightarrow>
        (\<exists>e n sig. verify_signature cr peer
           (client_signature_message e peer n (identity_public cr private)) sig = Inr ()))"
proof -
  have client_side: "\<exists>own_nonce e n sig. verify_signature cr peer
      (server_signature_message (ephemeral_public cr ephemeral) (identity_public cr private) own_nonce e peer n) sig = Inr ()"
    if c: "secure_client private peer locals spawned s = (Inr k, t)"
  proof -
    from c have est: "establish (ClientCall private peer) locals spawned s = (Inr k, t)"
      by (simp add: secure_client_Inr)
    from establish_Inr [OF est] assms(2)
    have "client cr recv send ephemeral random private peer w = (Ret ss, w')"
      by (simp add: handshake_of_def new_upgrade_def)
    then show ?thesis by (rule client_RetE) (use client_accept_Inr in blast)
  qed
  have server_side: "\<exists>e n sig. verify_signature cr peer
      (client_signature_message e peer n (identity_public cr private)) sig = Inr ()"
    if c: "secure_server peer private locals spawned s = (Inr k, t)"
  proof -
    from c have est: "establish (ServerCall peer private) locals spawned s = (Inr k, t)"
      by (simp add: secure_server_Inr)
    from establish_Inr [OF est] assms(2)
    have "Handshake.server cr recv send ephemeral random peer private w = (Ret ss, w')"
      by (simp add: handshake_of_def new_upgrade_def)
    then obtain hello where "server_check cr (identity_public cr private) peer hello = Inr ()" by (rule server_RetE)
    then show ?thesis by (auto simp: server_check_def split: if_splits)
  qed
  obtain call where "length private = 32 \<and> length peer = 32 \<and> establish call locals spawned s = (Inr k, t)"
    using assms(1) secure_client_Inr secure_server_Inr by blast
  with establish_Inr [of call locals spawned s k t] client_side server_side show ?thesis by blast
qed

lemma python_upgrade_pins_peer_witness:
  "\<exists>t w ss w' sig n e m. secure_client (toy_keys 1) (identity_public toy (toy_keys 2)) (Inr ()) (Inr ()) (upgrade_start 7) = (Inr 0, t)
     \<and> handshake_of toy conn_receive conn_send (toy_keys 3) (Inr (toy_keys 5)) (ug_call (us_upgrades t ! 0)) w = (Ret ss, w')
     \<and> verify_signature toy (identity_public toy (toy_keys 2))
         (server_signature_message (ephemeral_public toy (toy_keys 3)) (identity_public toy (toy_keys 1))
            n e (identity_public toy (toy_keys 2)) m) sig = Inr ()"
proof -
  define t where "t = snd (secure_client (toy_keys 1) (identity_public toy (toy_keys 2)) (Inr ()) (Inr ()) (upgrade_start 7))"
  have len: "length (identity_public toy (toy_keys 2)) = 32" by (simp add: toy_def pad_def)
  have c: "secure_client (toy_keys 1) (identity_public toy (toy_keys 2)) (Inr ()) (Inr ()) (upgrade_start 7) = (Inr 0, t)"
    by (simp add: t_def secure_client_def key32_def len establish_def upgrade_start_def py_from_rust_def
        py_begin_secure_def py_take_plain_def)
  then have call: "ug_call (us_upgrades t ! 0) = ClientCall (toy_keys 1) (identity_public toy (toy_keys 2))"
    using establish_Inr [of "ClientCall (toy_keys 1) (identity_public toy (toy_keys 2))" "Inr ()" "Inr ()" "upgrade_start 7" 0 t]
    by (simp add: secure_client_Inr new_upgrade_def upgrade_start_def)
  from toy_handshake obtain w ss w' where
    "client toy conn_receive conn_send (toy_keys 3) (Inr (toy_keys 5)) (toy_keys 1)
      (identity_public toy (toy_keys 2)) w = (Ret ss, w')" by blast
  then have h: "handshake_of toy conn_receive conn_send (toy_keys 3) (Inr (toy_keys 5)) (ug_call (us_upgrades t ! 0)) w = (Ret ss, w')"
    by (simp add: handshake_of_def call)
  from python_upgrade_pins_peer [OF disjI1 [OF c] h] c h show ?thesis by blast
qed

section \<open>Concrete upgrades\<close>

text \<open>A close of the wrapper between the end of the handshake and the hand-over.\<close>

definition upgrade_demo :: "upgrade_action list" where
  "upgrade_demo = [Establish (ClientCall [] []) (Inr ()) (Inr ()), Observe 0 (Inr ()) (Inr ()),
     PollUpgrade 0 (HandshakeReturned (Inr ())), CloseWrapper, PollUpgrade 0 (Attached (Inr ()))]"

lemmas upgrade_eval =
  upgrade_start_def establish_def new_upgrade_def py_from_rust_def py_begin_secure_def
  py_take_plain_def py_close_def

definition ended_with_error :: "upgrade_sys \<Rightarrow> bool" where
  "ended_with_error s \<longleftrightarrow>
     (case us_upgrades s of
        [u] \<Rightarrow> (case ug_pc u of UpgradeReturned (Inl e) \<Rightarrow> True | _ \<Rightarrow> False)
      | _ \<Rightarrow> False)"

lemma upgrade_demo_result:
  "case upgrade_run (upgrade_start 7) upgrade_demo of None \<Rightarrow> False | Some s \<Rightarrow> ended_with_error s"
  by code_simp

lemma ended_with_errorE:
  assumes "ended_with_error s"
  obtains u e where "us_upgrades s = [u]" "ug_pc u = UpgradeReturned (Inl e)"
  using assms unfolding ended_with_error_def
  by (cases "us_upgrades s" rule: remdups_adj.cases)
    (simp_all split: upgrade_pc.splits sum.splits)


text \<open>A future that Python cancels when the Rust side has finished already.\<close>

definition discard_demo :: "upgrade_action list" where
  "discard_demo = [Establish (ServerCall [] []) (Inr ()) (Inr ()), Observe 0 (Inr ()) (Inr ()),
     PollUpgrade 0 (HandshakeReturned (Inr ())), CancelFuture 0, PollUpgrade 0 (Attached (Inr ()))]"

lemma discard_demo_run:
  "\<exists>s u. upgrade_run (upgrade_start 7) discard_demo = Some s \<and> us_upgrades s = [u] \<and> ug_raw u = RawOpen
     \<and> ug_future u = FutureCancelled"
  by (simp add: discard_demo_def upgrade_eval upgrade_fun_defs token_defs)

lemma upgrade_not_leaked_witness:
  "\<exists>s t bs. upgrade_run (upgrade_start 7) discard_demo = Some s \<and> ug_raw (us_upgrades s ! 0) = RawOpen
     \<and> upgrade_run s bs = Some t \<and> ug_raw (us_upgrades t ! 0) \<noteq> RawOpen"
proof -
  from discard_demo_run obtain s u where s: "upgrade_run (upgrade_start 7) discard_demo = Some s"
    "us_upgrades s = [u]" "ug_raw u = RawOpen" "ug_future u = FutureCancelled" by blast
  have len: "0 < length (us_upgrades s)" and go: "token_cancelled 0 s \<or> let_go (us_upgrades s ! 0)"
    using s by (simp_all add: let_go_def)
  from upgrade_not_leaked [OF s(1) len go] obtain bs t where "upgrade_run s bs = Some t"
    "ug_raw (us_upgrades t ! 0) \<in> {RawClosed, RawDropped}" by blast
  with s have "upgrade_run s bs = Some t \<and> ug_raw (us_upgrades t ! 0) \<noteq> RawOpen" by auto
  with s show ?thesis by auto
qed

end
