(* ===== verification/Py_Api.thy ===== *)
theory Py_Api
  imports Py_Slot
begin

text \<open>
  The synchronous and the server side of the Python binding (\<open>crates/taunicorn-python/src/lib.rs\<close>):
  \<open>PyEndpoint\<close>, the two info classes, \<open>PyServer\<close>, \<open>PyLocalTransport\<close>, connecting, splitting, and
  what a \<open>Connection\<close> says of itself, be it plain or secured (\<open>ConnectionHandle\<close>). The methods
  forward to the core; what they add is the argument checks, the exceptions, and the view of a secured connection
  as closed from the moment its session is cancelled.
\<close>

section \<open>Values\<close>

definition py_map_err :: "anyhow + 'a \<Rightarrow> py_err + 'a" where
  "py_map_err r = (case r of Inl e \<Rightarrow> Inl (to_py_err e) | Inr v \<Rightarrow> Inr v)"

lemma py_map_err_simps [simp]: "py_map_err (Inl e) = Inl (to_py_err e)" "py_map_err (Inr v) = Inr v"
  by (simp_all add: py_map_err_def)

lemma py_map_err_Inr_iff: "py_map_err r = Inr v \<longleftrightarrow> r = Inr v"
  by (cases r) simp_all

definition py_endpoint_new :: "string \<Rightarrow> py_err + endpoint" where
  "py_endpoint_new name = py_map_err (endpoint_new name)"

definition py_endpoint_name :: "endpoint \<Rightarrow> string" where
  "py_endpoint_name ep = endpoint_as_str ep"

definition py_endpoint_str :: "endpoint \<Rightarrow> string" where
  "py_endpoint_str ep = endpoint_as_str ep"

record py_connection_info =
  pci_id :: u64
  pci_local_endpoint :: "string option"
  pci_peer_endpoint :: "string option"
  pci_is_closed :: bool
  pci_is_read_shutdown :: bool
  pci_is_write_shutdown :: bool
  pci_peer_sent_eof :: bool

definition py_connection_info_from :: "connection_info \<Rightarrow> py_connection_info" where
  "py_connection_info_from info =
     \<lparr>pci_id = ci_id info,
      pci_local_endpoint = map_option endpoint_to_string (ci_local_endpoint info),
      pci_peer_endpoint = map_option endpoint_to_string (ci_peer_endpoint info),
      pci_is_closed = ci_is_closed info, pci_is_read_shutdown = ci_is_read_shutdown info,
      pci_is_write_shutdown = ci_is_write_shutdown info, pci_peer_sent_eof = ci_peer_sent_eof info\<rparr>"

record py_server_info =
  psi_local_endpoint :: string
  psi_is_stopped :: bool
  psi_is_paused :: bool

definition py_server_info_from :: "server_info \<Rightarrow> py_server_info" where
  "py_server_info_from info =
     \<lparr>psi_local_endpoint = endpoint_to_string (si_local_endpoint info),
      psi_is_stopped = si_is_stopped info, psi_is_paused = si_is_paused info\<rparr>"

section \<open>Servers\<close>

definition py_server_start where
  "py_server_start to_ns_name create arg =
     try_result (endpoint_from_py arg) (\<lambda>ep. py_map_err (server_start to_ns_name create ep))"

text \<open>\<open>mode\<close> is the extracted argument, or the exception of its conversion.\<close>

definition py_server_bind where
  "py_server_bind to_ns_name create name mode =
     try_result mode (\<lambda>parsed_mode. py_map_err (server_bind to_ns_name create name parsed_mode))"

definition py_server_bind_windows where
  "py_server_bind_windows to_ns_name to_wide deserialize create name mode =
     try_result mode (\<lambda>parsed_mode. py_map_err (server_bind_windows to_ns_name to_wide deserialize create name parsed_mode))"

lemma py_server_bind_platforms:
  "py_server_bind_windows to_ns_name to_wide deserialize create name mode = Inr sv \<Longrightarrow> server_wf sv"
  by (auto simp: py_server_bind_windows_def try_result_Inr_iff py_map_err_Inr_iff dest: server_bind_platforms(1))

definition local_transport_start where
  "local_transport_start to_ns_name create ep = server_start to_ns_name create ep"

definition py_transport_start where
  "py_transport_start to_ns_name create arg =
     try_result (endpoint_from_py arg) (\<lambda>ep. py_map_err (local_transport_start to_ns_name create ep))"

text \<open>The wrapper of a new connection; its raw value is named by the connection's id.\<close>

definition py_wrap :: "core \<Rightarrow> core \<times> py_connection" where
  "py_wrap c = (c, py_from_rust (unat (core_id c)))"

text \<open>
  The synchronous part of \<open>accept\<close> and \<open>accept_timeout\<close> says whether the future has a deadline; the first poll
  runs \<open>accept_start\<close>, and a finished core call gives the result of the future.
\<close>

definition py_accept :: "py_err + bool" where
  "py_accept = Inr False"

definition py_accept_timeout :: "('f \<Rightarrow> 'd option) \<Rightarrow> 'f \<Rightarrow> py_err + bool" where
  "py_accept_timeout try_from_secs_f64 timeout =
     try_result (duration_from_seconds try_from_secs_f64 timeout) (\<lambda>_. Inr True)"

definition py_accept_result :: "accept_pc \<Rightarrow> (py_err + core \<times> py_connection) option" where
  "py_accept_result p =
     (case p of
        AcceptDone r \<Rightarrow> Some (try_result (py_map_err r) (\<lambda>c. Inr (py_wrap c)))
      | _ \<Rightarrow> None)"

definition py_stop :: "server \<Rightarrow> (py_err + unit) \<times> server" where
  "py_stop sv = (case stop_now sv of (r, sv') \<Rightarrow> (py_map_err r, sv'))"

definition py_server_close :: "server \<Rightarrow> server" where
  "py_server_close sv = snd (stop_now sv)"

definition py_server_info_of :: "server \<Rightarrow> py_server_info" where
  "py_server_info_of sv = py_server_info_from (server_info_of sv)"

definition py_server_pause :: "server \<Rightarrow> server" where
  "py_server_pause sv = server_pause sv"

definition py_server_resume :: "server \<Rightarrow> server" where
  "py_server_resume sv = server_resume sv"

definition py_server_is_paused :: "server \<Rightarrow> bool" where
  "py_server_is_paused sv = s_paused (srv_state sv)"

definition py_server_is_stopped :: "server \<Rightarrow> bool" where
  "py_server_is_stopped sv = s_stopped (srv_state sv)"

definition py_server_is_closed :: "server \<Rightarrow> bool" where
  "py_server_is_closed sv = s_stopped (srv_state sv)"

definition py_server_is_started :: "server \<Rightarrow> bool" where
  "py_server_is_started sv \<longleftrightarrow> \<not> s_stopped (srv_state sv)"

definition py_server_is_accepting :: "server \<Rightarrow> bool" where
  "py_server_is_accepting sv = server_is_accepting sv"

definition py_server_name :: "server \<Rightarrow> string" where
  "py_server_name sv = endpoint_as_str (srv_endpoint sv)"

definition py_server_endpoint :: "server \<Rightarrow> endpoint" where
  "py_server_endpoint sv = srv_endpoint sv"

text \<open>The flags of a bound server agree with its snapshot, and a stop shows in all of them.\<close>

lemma server_flags_agree:
  assumes "server_wf sv"
  shows "psi_is_stopped (py_server_info_of sv) = py_server_is_stopped sv
    \<and> psi_is_paused (py_server_info_of sv) = py_server_is_paused sv
    \<and> psi_local_endpoint (py_server_info_of sv) = py_server_name sv
    \<and> (py_server_is_accepting sv \<longleftrightarrow> py_server_is_started sv \<and> \<not> py_server_is_paused sv)
    \<and> py_stop sv = (Inr (), py_server_close sv)
    \<and> py_server_is_stopped (py_server_close sv) \<and> py_server_is_closed (py_server_close sv)
    \<and> \<not> py_server_is_accepting (py_server_close sv) \<and> \<not> py_server_is_paused (py_server_close sv)
    \<and> py_server_name (py_server_close sv) = py_server_name sv"
  using assms
  by (auto simp: py_server_info_of_def py_server_info_from_def server_info_of_def endpoint_to_string_def
      py_server_name_def py_server_is_accepting_def server_is_accepting_def py_server_is_started_def
      py_server_is_stopped_def py_server_is_paused_def py_server_is_closed_def py_stop_def py_server_close_def
      stop_now_def ss_stop_def server_wf_def Let_def)

section \<open>Connecting and splitting\<close>

definition py_connected where
  "py_connected answer =
     map_option (\<lambda>(r, counter). (try_result (py_map_err r) (\<lambda>c. Inr (py_wrap c)), counter)) answer"

definition py_connect where
  "py_connect to_ns_name os arg counter =
     (case endpoint_from_py arg of
        Inl e \<Rightarrow> Some (Inl e, counter)
      | Inr ep \<Rightarrow> py_connected (connect to_ns_name os ep counter))"

definition py_connect_timeout where
  "py_connect_timeout try_from_secs_f64 to_ns_name os arg timeout counter =
     (case try_result (endpoint_from_py arg) (\<lambda>ep.
           try_result (duration_from_seconds try_from_secs_f64 timeout) (\<lambda>_. Inr ep)) of
        Inl e \<Rightarrow> Some (Inl e, counter)
      | Inr ep \<Rightarrow> py_connected (connect_timeout to_ns_name os ep counter))"

definition local_transport_connect where
  "local_transport_connect to_ns_name os ep counter = connect to_ns_name os ep counter"

definition py_transport_connect where
  "py_transport_connect to_ns_name os arg counter =
     (case endpoint_from_py arg of
        Inl e \<Rightarrow> Some (Inl e, counter)
      | Inr ep \<Rightarrow> py_connected (local_transport_connect to_ns_name os ep counter))"

definition py_into_split :: "py_connection \<Rightarrow> (py_err + nat \<times> nat) \<times> py_connection" where
  "py_into_split s =
     (case py_take_for_split s of
        (Inl e, s') \<Rightarrow> (Inl e, s')
      | (Inr raw, s') \<Rightarrow> (Inr (raw, raw), s'))"

section \<open>What a connection says of itself\<close>

text \<open>A handle with what it points to: the core, and for a session also whether its token is cancelled.\<close>

datatype handle_view = PlainView core | SecureView bool core

definition handle_core :: "handle_view \<Rightarrow> core" where
  "handle_core h = (case h of PlainView c \<Rightarrow> c | SecureView cancelled c \<Rightarrow> c)"

definition handle_is_closed :: "handle_view \<Rightarrow> bool" where
  "handle_is_closed h =
     (case h of
        PlainView c \<Rightarrow> c_closed (core_state c)
      | SecureView cancelled c \<Rightarrow> cancelled \<or> c_closed (core_state c))"

definition handle_is_started :: "handle_view \<Rightarrow> bool" where
  "handle_is_started h \<longleftrightarrow> \<not> handle_is_closed h"

definition handle_is_active :: "handle_view \<Rightarrow> bool" where
  "handle_is_active h \<longleftrightarrow> \<not> handle_is_closed h"

definition handle_is_paused :: "handle_view \<Rightarrow> bool" where
  "handle_is_paused h \<longleftrightarrow> c_paused (core_state (handle_core h))"

definition handle_is_available :: "handle_view \<Rightarrow> bool" where
  "handle_is_available h \<longleftrightarrow> \<not> handle_is_closed h \<and> \<not> handle_is_paused h"

definition handle_is_read_shutdown :: "handle_view \<Rightarrow> bool" where
  "handle_is_read_shutdown h \<longleftrightarrow> handle_is_closed h \<or> c_read_shutdown (core_state (handle_core h))"

definition handle_is_write_shutdown :: "handle_view \<Rightarrow> bool" where
  "handle_is_write_shutdown h \<longleftrightarrow> handle_is_closed h \<or> c_write_shutdown (core_state (handle_core h))"

definition handle_peer_sent_eof :: "handle_view \<Rightarrow> bool" where
  "handle_peer_sent_eof h \<longleftrightarrow> c_peer_sent_eof (core_state (handle_core h))"

definition handle_info :: "handle_view \<Rightarrow> connection_info" where
  "handle_info h =
     (let info = connection_info_of (handle_core h) in
      if handle_is_closed h
      then info\<lparr>ci_is_closed := True, ci_is_read_shutdown := True, ci_is_write_shutdown := True\<rparr>
      else info)"

definition handle_pause :: "handle_view \<Rightarrow> core" where
  "handle_pause h = core_pause (handle_core h)"

definition handle_resume :: "handle_view \<Rightarrow> core" where
  "handle_resume h = core_resume (handle_core h)"

text \<open>The methods of the wrapper ask the slot first.\<close>

definition view_of :: "py_connection \<Rightarrow> core \<Rightarrow> py_err + handle_view" where
  "view_of s c =
     try_result (py_connection_handle s) (\<lambda>h.
     Inr (case h of
            HandlePlain raw \<Rightarrow> PlainView c
          | HandleSecure t \<Rightarrow> SecureView (t \<in> pc_cancelled s) c))"

definition py_ask :: "(handle_view \<Rightarrow> 'a) \<Rightarrow> py_connection \<Rightarrow> core \<Rightarrow> py_err + 'a" where
  "py_ask f s c = try_result (view_of s c) (\<lambda>h. Inr (f h))"

definition py_is_closed where "py_is_closed = py_ask handle_is_closed"
definition py_is_read_shutdown where "py_is_read_shutdown = py_ask handle_is_read_shutdown"
definition py_is_write_shutdown where "py_is_write_shutdown = py_ask handle_is_write_shutdown"
definition py_peer_sent_eof where "py_peer_sent_eof = py_ask handle_peer_sent_eof"
definition py_is_started where "py_is_started = py_ask handle_is_started"
definition py_is_active where "py_is_active = py_ask handle_is_active"
definition py_is_available where "py_is_available = py_ask handle_is_available"
definition py_is_paused where "py_is_paused = py_ask handle_is_paused"
definition py_id where "py_id = py_ask (\<lambda>h. core_id (handle_core h))"
definition py_name where "py_name = py_ask (\<lambda>h. endpoint_as_str (core_endpoint (handle_core h)))"
definition py_endpoint where "py_endpoint = py_ask (\<lambda>h. core_endpoint (handle_core h))"
definition py_local_endpoint where
  "py_local_endpoint = py_ask (\<lambda>h. map_option endpoint_to_string (core_local (handle_core h)))"
definition py_peer_endpoint where
  "py_peer_endpoint = py_ask (\<lambda>h. map_option endpoint_to_string (core_peer (handle_core h)))"
definition py_info where "py_info = py_ask (\<lambda>h. py_connection_info_from (handle_info h))"

definition py_pause :: "py_connection \<Rightarrow> core \<Rightarrow> (py_err + unit) \<times> core" where
  "py_pause s c =
     (case view_of s c of Inl e \<Rightarrow> (Inl e, c) | Inr h \<Rightarrow> (Inr (), handle_pause h))"

definition py_resume :: "py_connection \<Rightarrow> core \<Rightarrow> (py_err + unit) \<times> core" where
  "py_resume s c =
     (case view_of s c of Inl e \<Rightarrow> (Inl e, c) | Inr h \<Rightarrow> (Inr (), handle_resume h))"

section \<open>What the flags promise\<close>

text \<open>Snapshot and single flags of one handle agree, and a closed one is closed in every respect.\<close>

lemma handle_flags_agree:
  assumes "core_wf (handle_core h)"
  shows "pci_is_closed (py_connection_info_from (handle_info h)) = handle_is_closed h
    \<and> pci_is_read_shutdown (py_connection_info_from (handle_info h)) = handle_is_read_shutdown h
    \<and> pci_is_write_shutdown (py_connection_info_from (handle_info h)) = handle_is_write_shutdown h
    \<and> pci_peer_sent_eof (py_connection_info_from (handle_info h)) = handle_peer_sent_eof h
    \<and> (handle_is_closed h \<longrightarrow> handle_is_read_shutdown h \<and> handle_is_write_shutdown h
         \<and> \<not> handle_is_started h \<and> \<not> handle_is_active h \<and> \<not> handle_is_available h)
    \<and> (\<not> handle_is_closed h \<longrightarrow> handle_info h = connection_info_of (handle_core h)
         \<and> (handle_is_available h \<longleftrightarrow> conn_is_available (handle_core h)))"
  using assms
  by (cases h)
    (auto simp: py_connection_info_from_def handle_info_def handle_is_closed_def handle_is_read_shutdown_def
      handle_is_write_shutdown_def handle_peer_sent_eof_def handle_is_started_def handle_is_active_def
      handle_is_available_def handle_is_paused_def handle_core_def connection_info_of_def core_wf_def
      conn_is_available_def conn_is_active_def Let_def)

lemmas view_defs = view_of_def py_ask_def py_is_closed_def py_is_write_shutdown_def py_is_read_shutdown_def

lemma closed_wrapper_closed:
  assumes "py_close s = (Inr (Some (HandleSecure t)), s')"
  shows "py_is_closed s' c = Inr True \<and> py_is_write_shutdown s' c = Inr True \<and> py_is_read_shutdown s' c = Inr True"
  using assms
  by (auto simp: py_close_def view_defs py_connection_handle_def py_cancel_def handle_is_closed_def
      handle_is_write_shutdown_def handle_is_read_shutdown_def split: connection_slot.splits)

text \<open>\<open>into_split\<close> hands the one raw value to both halves, or leaves the wrapper as it was.\<close>

lemma into_split_result:
  "py_into_split s = (r, s') \<Longrightarrow>
     (case r of
        Inl e \<Rightarrow> s' = s
      | Inr (reader, writer) \<Rightarrow> reader = writer \<and> pc_slot s = SlotPlain reader \<and> pc_refs s = 0
          \<and> pc_slot s' = SlotConsumed \<and> (\<exists>e. view_of s' c = Inl e))"
  by (cases "pc_slot s"; cases "pc_refs s = 0")
    (auto simp: py_into_split_def py_take_for_split_def py_take_plain_def view_of_def py_connection_handle_def)

text \<open>The wrapper's flags of a connection that is being upgraded are the error of the upgrade.\<close>

lemma upgrading_wrapper:
  "pc_slot s = SlotUpgrading t \<Longrightarrow> \<exists>e. view_of s c = Inl e \<and> fst e \<in> {PyConnectionError, PyRuntimeError}"
  by (auto simp: view_of_def py_connection_handle_def)

section \<open>Accepting\<close>

text \<open>What a finished accept of a bound server can have returned.\<close>

definition accept_outcome :: "endpoint \<Rightarrow> accept_pc \<Rightarrow> bool" where
  "accept_outcome ep p \<longleftrightarrow>
     (case p of
        AcceptDone (Inr c) \<Rightarrow>
          core_wf c \<and> conn_is_available c \<and> core_local c = Some ep \<and> core_peer c = None
      | AcceptDone (Inl e) \<Rightarrow>
          e \<in> {err_srv_paused, err_srv_stopped, err_srv_was_stopped, err_accept_timeout} \<or> is_io_error e
      | _ \<Rightarrow> True)"

lemma accept_start_outcome: "server_wf sv \<Longrightarrow> accept_outcome ep (accept_start timed sv)"
  by (auto simp: accept_start_def server_listener_def server_wf_def accept_outcome_def split: option.splits)

lemma accept_poll_outcome:
  "accept_poll p ev sv n = Some (q, m) \<Longrightarrow> accept_outcome (srv_endpoint sv) q"
  by (cases "(p, ev, sv, n)" rule: accept_poll.cases)
    (auto simp: accept_outcome_def from_accepted_def core_new_def next_socket_id_def core_wf_def
      conn_is_available_def conn_is_active_def conn_state_default_def split: sum.splits if_splits)

lemma accept_step_endpoint: "accept_step s a t \<Longrightarrow> srv_endpoint (as_server t) = srv_endpoint (as_server s)"
  by (erule accept_step.cases)
    (auto simp: stop_now_def server_pause_def server_resume_def ss_stop_def Let_def)

definition accepts_ok :: "accept_sys \<Rightarrow> bool" where
  "accepts_ok s \<longleftrightarrow> server_wf (as_server s) \<and> list_all (accept_outcome (srv_endpoint (as_server s))) (as_accepts s)"

lemma list_all_put: "list_all P xs \<Longrightarrow> P x \<Longrightarrow> list_all P (xs[i := x])"
  by (auto simp: list_all_iff dest: set_update_subset_insert [THEN subsetD])

lemma accepts_ok_step: "accept_step s a t \<Longrightarrow> accepts_ok s \<Longrightarrow> accepts_ok t"
proof -
  assume step: "accept_step s a t" and ok: "accepts_ok s"
  from step ok have "list_all (accept_outcome (srv_endpoint (as_server s))) (as_accepts t)"
  proof cases
    case (resume_accept i ev p n)
    with ok accept_poll_outcome [OF resume_accept(4)] show ?thesis by (simp add: accepts_ok_def list_all_put)
  next
    case (drop_accept i timed l)
    with ok show ?thesis by (simp add: accepts_ok_def list_all_put accept_outcome_def)
  qed (auto simp: accepts_ok_def accept_start_outcome)
  with accept_step_wf [OF step] accept_step_endpoint [OF step] ok show ?thesis by (simp add: accepts_ok_def)
qed

lemma accepts_ok_run:
  "accept_run s as t \<Longrightarrow> accepts_ok s \<Longrightarrow> accepts_ok t \<and> srv_endpoint (as_server t) = srv_endpoint (as_server s)"
proof (induction rule: accept_run.induct)
  case (run_cons s a t as u)
  with accepts_ok_step [OF run_cons(1)] accept_step_endpoint [OF run_cons(1)] show ?case by simp
qed simp

section \<open>Properties\<close>

lemma accept_error_texts:
  "to_py_err err_srv_paused = (PyBlockingIOError, ''socket server is paused'')"
  "to_py_err err_srv_stopped = (PyConnectionError, ''socket server is stopped'')"
  "to_py_err err_srv_was_stopped = (PyConnectionError, ''socket server was stopped'')"
  "to_py_err err_accept_timeout = (PyTimeoutError, ''socket accept timeout'')"
  by (simp_all add: to_py_err_def err_srv_paused_def err_srv_stopped_def err_srv_was_stopped_def err_accept_timeout_def)

text \<open>A Python accept on a bound server ends in exactly one of these ways, however many accepts run, are dropped and
  meet pauses and stops: with a plain connection wrapper around a fresh, open connection whose local endpoint is the server's; or with
  \<open>BlockingIOError\<close> for a paused server, \<open>ConnectionError\<close> for one that is or was stopped, \<open>TimeoutError\<close> at a
  deadline, or \<open>OSError\<close> for a failure of the listener, with the text of that error. Never another exception.\<close>

theorem python_accept_outcomes:
  assumes "py_server_bind to_ns_name create name mode = Inr sv"
    and "accept_run \<lparr>as_server = sv, as_accepts = [], as_counter = n\<rparr> as s" and "i < length (as_accepts s)"
    and "py_accept_result (as_accepts s ! i) = Some r"
  shows "(\<exists>c. r = Inr (c, py_from_rust (unat (core_id c))) \<and> core_wf c \<and> conn_is_available c
        \<and> core_local c = Some (Endpoint name) \<and> core_peer c = None)
    \<or> r \<in> {Inl (PyBlockingIOError, ''socket server is paused''), Inl (PyConnectionError, ''socket server is stopped''),
        Inl (PyConnectionError, ''socket server was stopped''), Inl (PyTimeoutError, ''socket accept timeout'')}
    \<or> (\<exists>text. r = Inl (PyOSError, text))"
proof -
  from assms(1) obtain m where "server_bind to_ns_name create name m = Inr sv"
    by (auto simp: py_server_bind_def try_result_Inr_iff py_map_err_Inr_iff)
  from server_wf_bind [OF this] this have "server_wf sv" and ep: "srv_endpoint sv = Endpoint name"
    by (auto simp: server_bind_Inr)
  then have "accepts_ok s \<and> srv_endpoint (as_server s) = Endpoint name"
    using accepts_ok_run [OF assms(2)] by (auto simp: accepts_ok_def)
  then have "list_all (accept_outcome (Endpoint name)) (as_accepts s)" by (auto simp: accepts_ok_def)
  with assms(3) have out: "accept_outcome (Endpoint name) (as_accepts s ! i)" by (simp add: list_all_length)
  from assms(4) obtain q where q: "as_accepts s ! i = AcceptDone q"
    "r = try_result (py_map_err q) (\<lambda>c. Inr (py_wrap c))"
    by (auto simp: py_accept_result_def split: accept_pc.splits)
  show ?thesis
  proof (cases q)
    case (Inr c)
    with out q show ?thesis by (simp add: accept_outcome_def py_wrap_def)
  next
    case (Inl e)
    with out q(1) have e: "e \<in> {err_srv_paused, err_srv_stopped, err_srv_was_stopped, err_accept_timeout} \<or> is_io_error e"
      by (simp add: accept_outcome_def)
    have r: "r = Inl (to_py_err e)" using q(2) Inl by simp
    have "\<exists>text. to_py_err e = (PyOSError, text)" if "is_io_error e" using that by (simp add: to_py_err_def)
    with e r accept_error_texts show ?thesis by auto
  qed
qed

lemma python_accept_outcomes_witness:
  "\<exists>sv s r. py_server_bind (Inr :: string \<Rightarrow> string + string) (\<lambda>name mode. Inr 3) ''demo'' (Inr None) = Inr sv
     \<and> accept_run \<lparr>as_server = sv, as_accepts = [], as_counter = 1\<rparr> [PauseServer, StartAccept False] s
     \<and> py_accept_result (as_accepts s ! 0) = Some r \<and> (\<forall>text. r \<noteq> Inl (PyRuntimeError, text))"
proof -
  define sv where "sv = \<lparr>srv_inner = Some 3, srv_poisoned = False, srv_endpoint = Endpoint ''demo'',
    srv_state = server_state_default, srv_stop_token = False\<rparr>"
  have bind: "py_server_bind (Inr :: string \<Rightarrow> string + string) (\<lambda>name mode. Inr 3) ''demo'' (Inr None) = Inr sv"
    by (simp add: py_server_bind_def server_bind_def endpoint_new_def get_async_socket_name_def sv_def)
  note run = accept_run.run_cons [OF accept_step.pause_server
      accept_run.run_cons [OF accept_step.start_accept accept_run.run_nil],
      of "\<lparr>as_server = sv, as_accepts = [], as_counter = 1\<rparr>" False]
  obtain s where s: "accept_run \<lparr>as_server = sv, as_accepts = [], as_counter = 1\<rparr> [PauseServer, StartAccept False] s"
    "0 < length (as_accepts s)" "py_accept_result (as_accepts s ! 0) = Some (Inl (to_py_err err_srv_paused))"
    by (rule that [OF run])
      (simp_all add: py_accept_result_def accept_start_def server_pause_def ss_pause_def sv_def server_state_default_def)
  from python_accept_outcomes [OF bind s] have
    "\<forall>text. (Inl (to_py_err err_srv_paused) :: py_err + core \<times> py_connection) \<noteq> Inl (PyRuntimeError, text)"
    by auto
  with bind s(1,3) show ?thesis by (intro exI conjI)
qed

end
