(* ===== verification/Py_Repr.thy ===== *)
theory Py_Repr
  imports Py_Api "HOL-Library.AList"
begin

text \<open>
  What the Python classes print of themselves, the version text and the names of the module
  (\<open>crates/taunicorn-python/src/lib.rs\<close>: the \<open>__repr__\<close> methods, \<open>get_taunicorn_version\<close>, \<open>_taunicorn\<close>;
  \<open>security.rs\<close>: \<open>register\<close>). The texts use Rust's \<open>{}\<close> of numbers and booleans and its
  \<open>{:?}\<close> of strings, which quotes and escapes. A model string is a list of 8-bit characters; which of those beyond
  ASCII are printed as they are is the argument \<open>printable\<close>.
\<close>

section \<open>Rust's formatting\<close>

definition show_bool :: "bool \<Rightarrow> string" where
  "show_bool b = (if b then ''true'' else ''false'')"

definition show_u64 :: "u64 \<Rightarrow> string" where
  "show_u64 n = decimal (unat n)"

definition hex_digit :: "nat \<Rightarrow> char" where
  "hex_digit d = (if d < 10 then char_of (48 + d) else char_of (87 + d))"

definition show_hex :: "nat \<Rightarrow> string" where
  "show_hex n = (if n < 16 then [hex_digit n] else [hex_digit (n div 16), hex_digit (n mod 16)])"

text \<open>\<open>char::escape_debug\<close> as \<open>Debug for str\<close> uses it: the single quote stays, a double quote is escaped.\<close>

definition debug_char :: "(char \<Rightarrow> bool) \<Rightarrow> char \<Rightarrow> string" where
  "debug_char printable c =
     (let n = of_char c :: nat in
      if c = CHR 0x00 then [CHR 0x5C, CHR ''0'']
      else if c = CHR 0x09 then [CHR 0x5C, CHR ''t'']
      else if c = CHR 0x0A then [CHR 0x5C, CHR ''n'']
      else if c = CHR 0x0D then [CHR 0x5C, CHR ''r'']
      else if c = CHR 0x22 \<or> c = CHR 0x5C then [CHR 0x5C, c]
      else if 32 \<le> n \<and> n < 127 \<or> 127 < n \<and> printable c then [c]
      else [CHR 0x5C, CHR ''u'', CHR ''{''] @ show_hex n @ [CHR ''}''])"

definition debug_str :: "(char \<Rightarrow> bool) \<Rightarrow> string \<Rightarrow> string" where
  "debug_str printable s = [CHR 0x22] @ concat (map (debug_char printable) s) @ [CHR 0x22]"

definition debug_option :: "(char \<Rightarrow> bool) \<Rightarrow> string option \<Rightarrow> string" where
  "debug_option printable x =
     (case x of None \<Rightarrow> ''None'' | Some s \<Rightarrow> ''Some('' @ debug_str printable s @ '')'')"

section \<open>The texts\<close>

definition repr_endpoint :: "(char \<Rightarrow> bool) \<Rightarrow> endpoint \<Rightarrow> string" where
  "repr_endpoint printable ep = ''Endpoint('' @ debug_str printable (endpoint_as_str ep) @ '')''"

definition repr_connection_info :: "(char \<Rightarrow> bool) \<Rightarrow> py_connection_info \<Rightarrow> string" where
  "repr_connection_info printable info =
     ''ConnectionInfo(id='' @ show_u64 (pci_id info)
     @ '', local_endpoint='' @ debug_option printable (pci_local_endpoint info)
     @ '', peer_endpoint='' @ debug_option printable (pci_peer_endpoint info)
     @ '', closed='' @ show_bool (pci_is_closed info)
     @ '', read_shutdown='' @ show_bool (pci_is_read_shutdown info)
     @ '', write_shutdown='' @ show_bool (pci_is_write_shutdown info)
     @ '', peer_sent_eof='' @ show_bool (pci_peer_sent_eof info) @ '')''"

definition repr_server_info :: "(char \<Rightarrow> bool) \<Rightarrow> py_server_info \<Rightarrow> string" where
  "repr_server_info printable info =
     ''ServerInfo(local_endpoint='' @ debug_str printable (psi_local_endpoint info)
     @ '', stopped='' @ show_bool (psi_is_stopped info) @ '', paused='' @ show_bool (psi_is_paused info) @ '')''"

definition repr_server :: "(char \<Rightarrow> bool) \<Rightarrow> server \<Rightarrow> string" where
  "repr_server printable sv =
     ''Server(name='' @ debug_str printable (py_server_name sv)
     @ '', started='' @ show_bool (py_server_is_started sv) @ '', paused='' @ show_bool (py_server_is_paused sv)
     @ '', stopped='' @ show_bool (py_server_is_stopped sv) @ '', accepting='' @ show_bool (py_server_is_accepting sv)
     @ '')''"

text \<open>A connection that is being upgraded or was split has a text of its own instead of an exception.\<close>

definition repr_connection :: "(char \<Rightarrow> bool) \<Rightarrow> py_connection \<Rightarrow> core \<Rightarrow> string" where
  "repr_connection printable s c =
     (case view_of s c of
        Inr h \<Rightarrow>
          ''Connection(id='' @ show_u64 (core_id (handle_core h))
          @ '', name='' @ debug_str printable (endpoint_as_str (core_endpoint (handle_core h)))
          @ '', closed='' @ show_bool (handle_is_closed h) @ '', paused='' @ show_bool (handle_is_paused h)
          @ '', read_shutdown='' @ show_bool (handle_is_read_shutdown h)
          @ '', write_shutdown='' @ show_bool (handle_is_write_shutdown h)
          @ '', at_eof='' @ show_bool (handle_peer_sent_eof h) @ '')''
      | Inl _ \<Rightarrow> ''Connection(unavailable_during_or_after_ownership_transfer=True)'')"

text \<open>The halves of a split connection share its core.\<close>

definition py_read_half_id :: "core \<Rightarrow> u64" where "py_read_half_id c = read_half_id c"

definition py_read_half_info :: "core \<Rightarrow> py_connection_info" where
  "py_read_half_info c = py_connection_info_from (read_half_info c)"

definition py_write_half_id :: "core \<Rightarrow> u64" where "py_write_half_id c = write_half_id c"

definition py_write_half_info :: "core \<Rightarrow> py_connection_info" where
  "py_write_half_info c = py_connection_info_from (write_half_info c)"

definition repr_read_half :: "core \<Rightarrow> string" where
  "repr_read_half c = ''ReadHalf(id='' @ show_u64 (py_read_half_id c) @ '')''"

definition repr_write_half :: "core \<Rightarrow> string" where
  "repr_write_half c = ''WriteHalf(id='' @ show_u64 (py_write_half_id c) @ '')''"

section \<open>The version\<close>

text \<open>\<open>str::replace\<close> for a non-empty pattern.\<close>

function str_replace :: "string \<Rightarrow> string \<Rightarrow> string \<Rightarrow> string" where
  "str_replace p r s =
     (case s of
        [] \<Rightarrow> []
      | c # cs \<Rightarrow>
          if p \<noteq> [] \<and> take (length p) s = p then r @ str_replace p r (drop (length p) s)
          else c # str_replace p r cs)"
  by pat_completeness auto
termination by (relation "measure (\<lambda>(p, r, s). length s)") auto

declare str_replace.simps [simp del]

definition get_taunicorn_version :: "string \<Rightarrow> string" where
  "get_taunicorn_version version = str_replace ''-beta'' ''b'' (str_replace ''-alpha'' ''a'' version)"

section \<open>The module\<close>

text \<open>What a name of the module stands for. A class is named by its Rust type.\<close>

datatype module_item = VersionItem string | ClassItem string | ExceptionItem string | FunctionItem string

type_synonym module_dict = "(string \<times> module_item) list"

definition module_add :: "string \<Rightarrow> module_item \<Rightarrow> module_dict \<Rightarrow> module_dict" where
  "module_add name item m = AList.update name item m"

definition module_getattr :: "string \<Rightarrow> module_dict \<Rightarrow> string + module_item" where
  "module_getattr name m = (case map_of m name of None \<Rightarrow> Inl name | Some item \<Rightarrow> Inr item)"

definition add_class :: "string \<Rightarrow> string \<Rightarrow> module_dict \<Rightarrow> module_dict" where
  "add_class name ty m = module_add name (ClassItem ty) m"

definition register_security :: "module_dict \<Rightarrow> module_dict" where
  "register_security m =
     (let m = add_class ''SecureConnection'' ''PySecureConnection'' m;
          m = module_add ''generate_identity_private_key'' (FunctionItem ''generate_identity_private_key'') m in
      module_add ''identity_public_key'' (FunctionItem ''identity_public_key'') m)"

definition taunicorn_module :: "string \<Rightarrow> string + module_dict" where
  "taunicorn_module version =
     (let m = module_add ''__version__'' (VersionItem (get_taunicorn_version version)) [];
          m = add_class ''BoundedQueue'' ''BoundedQueue'' m;
          m = add_class ''UnboundedQueue'' ''UnboundedQueue'' m;
          m = module_add ''QueueClosed'' (ExceptionItem ''QueueClosed'') m;
          m = module_add ''QueueFull'' (ExceptionItem ''QueueFull'') m;
          m = module_add ''QueueEmpty'' (ExceptionItem ''QueueEmpty'') m;
          m = module_add ''QueueBusy'' (ExceptionItem ''QueueBusy'') m;
          m = module_add ''RustPanic'' (ExceptionItem ''RustPanic'') m;
          m = module_add ''BoundedQeue'' (ClassItem ''BoundedQueue'') m;
          m = module_add ''UnoundedQeue'' (ClassItem ''UnboundedQueue'') m;
          m = add_class ''Endpoint'' ''PyEndpoint'' m;
          m = add_class ''ConnectionInfo'' ''PyConnectionInfo'' m;
          m = add_class ''ServerInfo'' ''PyServerInfo'' m;
          m = add_class ''Server'' ''PyServer'' m;
          m = add_class ''Connection'' ''PyConnection'' m;
          m = add_class ''ReadHalf'' ''PyReadHalf'' m;
          m = add_class ''WriteHalf'' ''PyWriteHalf'' m;
          m = add_class ''LocalTransport'' ''PyLocalTransport'' m;
          m = register_security m in
      try_result (module_getattr ''Server'' m) (\<lambda>server.
      let m = module_add ''Listener'' server m in
      try_result (module_getattr ''Connection'' m) (\<lambda>connection.
      let m = module_add ''Stream'' connection m in
      try_result (module_getattr ''Connection'' m) (\<lambda>connection.
      Inr (module_add ''Client'' connection m)))))"

section \<open>Reading the texts back\<close>

definition unhex_digit :: "char \<Rightarrow> nat" where
  "unhex_digit c = (let n = of_char c in if n < 58 then n - 48 else n - 87)"

definition read_hex :: "string \<Rightarrow> nat" where
  "read_hex ds = foldl (\<lambda>a c. 16 * a + unhex_digit c) 0 ds"

definition read_debug_char :: "string \<Rightarrow> (char \<times> string) option" where
  "read_debug_char s =
     (case s of
        [] \<Rightarrow> None
      | c # rest \<Rightarrow>
          if c \<noteq> CHR 0x5C then Some (c, rest)
          else
            (case rest of
               [] \<Rightarrow> None
             | e # rest' \<Rightarrow>
                 if e = CHR ''0'' then Some (CHR 0x00, rest')
                 else if e = CHR ''t'' then Some (CHR 0x09, rest')
                 else if e = CHR ''n'' then Some (CHR 0x0A, rest')
                 else if e = CHR ''r'' then Some (CHR 0x0D, rest')
                 else if e = CHR ''u''
                 then (let h = takeWhile (\<lambda>d. d \<noteq> CHR ''}'') (drop 1 rest') in
                       Some (char_of (read_hex h), drop (length h + 2) rest'))
                 else Some (e, rest')))"

lemma read_debug_char_length: "read_debug_char s = Some (c, rest) \<Longrightarrow> length rest < length s"
  by (auto simp: read_debug_char_def Let_def split: list.splits if_splits)

function read_debug_body :: "string \<Rightarrow> (string \<times> string) option" where
  "read_debug_body s =
     (case s of
        [] \<Rightarrow> None
      | c # cs \<Rightarrow>
          if c = CHR 0x22 then Some ([], cs)
          else (case read_debug_char s of
                  None \<Rightarrow> None
                | Some (d, rest) \<Rightarrow> map_option (\<lambda>(ds, r). (d # ds, r)) (read_debug_body rest)))"
  by pat_completeness auto
termination by (relation "measure length") (auto dest: read_debug_char_length)

declare read_debug_body.simps [simp del]

definition read_debug_str :: "string \<Rightarrow> (string \<times> string) option" where
  "read_debug_str s = (case s of [] \<Rightarrow> None | c # cs \<Rightarrow> if c = CHR 0x22 then read_debug_body cs else None)"

lemma char_code_less: "of_char c < (256 :: nat)"
  by (metis char_of_nat of_char_mod_256 mod_less_divisor zero_less_numeral)

lemma hex_digit_code: "d < 16 \<Longrightarrow> of_char (hex_digit d) = (if d < 10 then 48 + d else 87 + d :: nat)"
  by (simp add: hex_digit_def)

lemma hex_digit_table:
  assumes "d < 16"
  shows "unhex_digit (hex_digit d) = d" "CHR ''}'' \<noteq> hex_digit d"
proof -
  show "unhex_digit (hex_digit d) = d" using assms by (simp add: unhex_digit_def hex_digit_code Let_def)
  have "of_char (CHR ''}'') \<noteq> (of_char (hex_digit d) :: nat)" using assms by (simp add: hex_digit_code)
  then show "CHR ''}'' \<noteq> hex_digit d" by metis
qed

lemma hex_table: "n < 256 \<Longrightarrow> read_hex (show_hex n) = n \<and> CHR ''}'' \<notin> set (show_hex n)"
  by (auto simp: show_hex_def read_hex_def hex_digit_table)

lemma takeWhile_brace: "CHR ''}'' \<notin> set h \<Longrightarrow> takeWhile (\<lambda>d. d \<noteq> CHR ''}'') (h @ CHR ''}'' # x) = h"
  by (induction h) auto

lemma read_debug_char: "read_debug_char (debug_char printable c @ x) = Some (c, x)"
proof -
  note hex = hex_table [OF char_code_less, of c] takeWhile_brace [of "show_hex (of_char c)" x]
  show ?thesis
    using hex by (auto simp: debug_char_def read_debug_char_def Let_def)
qed

lemma debug_char_first: "\<exists>d ds. debug_char printable c = d # ds \<and> d \<noteq> CHR 0x22"
  by (auto simp: debug_char_def Let_def)

lemma read_debug_body: "read_debug_body (concat (map (debug_char printable) s) @ CHR 0x22 # x) = Some (s, x)"
proof (induction s)
  case Nil
  then show ?case by (simp add: read_debug_body.simps)
next
  case (Cons c s)
  from debug_char_first obtain d ds where d: "debug_char printable c = d # ds" "d \<noteq> CHR 0x22" by blast
  let ?rest = "concat (map (debug_char printable) s) @ CHR 0x22 # x"
  have "read_debug_char (d # ds @ ?rest) = Some (c, ?rest)" using read_debug_char [of printable c ?rest] d(1) by simp
  with d Cons.IH show ?case by (subst read_debug_body.simps) simp
qed

lemma read_debug_str: "read_debug_str (debug_str printable s @ x) = Some (s, x)"
  by (simp add: read_debug_str_def debug_str_def read_debug_body)

section \<open>Each text determines its value\<close>

lemma debug_str_append: "debug_str p s @ x = debug_str p t @ y \<longleftrightarrow> s = t \<and> x = y"
  by (metis Pair_inject option.inject read_debug_str)

lemma debug_str_inj: "debug_str p s = debug_str p t \<longleftrightarrow> s = t"
  using debug_str_append [of p s "[]" t "[]"] by simp

lemma debug_option_append: "debug_option p s @ x = debug_option p t @ y \<longleftrightarrow> s = t \<and> x = y"
  by (cases s; cases t) (auto simp: debug_option_def debug_str_append)

lemma show_bool_append: "show_bool b @ x = show_bool c @ y \<longleftrightarrow> b = c \<and> x = y"
  by (auto simp: show_bool_def)

lemma show_bool_inj: "show_bool b = show_bool c \<longleftrightarrow> b = c"
  by (auto simp: show_bool_def)

definition read_decimal :: "string \<Rightarrow> nat" where
  "read_decimal ds = foldl (\<lambda>a c. 10 * a + (of_char c - 48)) 0 ds"

lemma digit_code: "d < 10 \<Longrightarrow> of_char (digit d) = (48 + d :: nat)"
  by (simp add: digit_def)

lemma read_decimal: "read_decimal (decimal n) = n"
proof (induction n rule: decimal.induct)
  case (1 n)
  show ?case
  proof (cases "n < 10")
    case True
    then show ?thesis by (simp add: decimal.simps [of n] read_decimal_def digit_code)
  next
    case False
    then have "decimal n = decimal (n div 10) @ [digit (n mod 10)]" by (subst decimal.simps) simp
    with 1 [OF False] show ?thesis by (simp add: read_decimal_def digit_code)
  qed
qed

lemma decimal_takeWhile: "takeWhile (\<lambda>c. c \<in> digits) (decimal n @ c # x) = decimal n" if "c \<notin> digits"
  using that decimal_digits [of n] by (subst takeWhile_append2) auto

lemma show_u64_append:
  assumes "c \<notin> digits"
  shows "show_u64 n @ c # x = show_u64 m @ c # y \<longleftrightarrow> n = m \<and> x = y"
proof
  assume eq: "show_u64 n @ c # x = show_u64 m @ c # y"
  then have "decimal (unat n) = decimal (unat m)"
    using decimal_takeWhile [OF assms] unfolding show_u64_def by metis
  then have "unat n = unat m" by (metis read_decimal)
  then have "n = m" by (rule unsigned_word_eqI)
  with eq show "n = m \<and> x = y" by simp
qed simp

lemmas repr_append =
  debug_str_append debug_option_append show_bool_append show_u64_append [of "CHR '',''"] show_u64_append [of "CHR '')''"]

section \<open>Properties\<close>

text \<open>C36: The texts are unambiguous: Rust's quoting can be read back whatever follows it, and two endpoints, two connection
  infos or two server infos print the same text only if they are equal, so that no endpoint name can counterfeit
  another field; this holds whichever characters beyond ASCII count as printable.\<close>

theorem repr_unambiguous:
  "read_debug_str (debug_str printable s @ rest) = Some (s, rest)
   \<and> (repr_endpoint printable ep = repr_endpoint printable ep' \<longleftrightarrow> ep = ep')
   \<and> (repr_connection_info printable i = repr_connection_info printable i' \<longleftrightarrow> i = i')
   \<and> (repr_server_info printable j = repr_server_info printable j' \<longleftrightarrow> j = j')"
proof -
  have d: "CHR '','' \<notin> digits" "CHR '')'' \<notin> digits" by (simp_all add: digits_def)
  have ep: "ep = ep'" if "repr_endpoint printable ep = repr_endpoint printable ep'"
    using that by (cases ep; cases ep') (simp add: repr_endpoint_def endpoint_as_str_def debug_str_inj)
  have i: "i = i'" if "repr_connection_info printable i = repr_connection_info printable i'"
    using that unfolding repr_connection_info_def
    by (cases i; cases i') (simp add: repr_append d show_bool_inj)
  have j: "j = j'" if "repr_server_info printable j = repr_server_info printable j'"
    using that unfolding repr_server_info_def
    by (cases j; cases j') (simp add: repr_append show_bool_inj)
  show ?thesis using read_debug_str ep i j by blast
qed

lemma str_replace_skip: "CHR ''-'' \<notin> set a \<Longrightarrow> str_replace (CHR ''-'' # p) r (a @ s) = a @ str_replace (CHR ''-'' # p) r s"
  by (induction a) (auto simp: str_replace.simps [of "CHR ''-'' # p" r "x # xs" for x xs])

lemma str_replace_none: "CHR ''-'' \<notin> set a \<Longrightarrow> str_replace (CHR ''-'' # p) r a = a"
  using str_replace_skip [of a p r "[]"] by (simp add: str_replace.simps [of _ _ "[]"])

text \<open>The version text: a release is kept, a Rust pre-release becomes the Python one.\<close>

lemma version_text:
  assumes "CHR ''-'' \<notin> set a" and "CHR ''-'' \<notin> set b"
  shows "get_taunicorn_version a = a"
    "get_taunicorn_version (a @ ''-alpha'' @ b) = a @ ''a'' @ b"
    "get_taunicorn_version (a @ ''-beta'' @ b) = a @ ''b'' @ b"
proof -
  have hit: "str_replace (CHR ''-'' # p) r ((CHR ''-'' # p) @ s) = r @ str_replace (CHR ''-'' # p) r s" for p r s
    by (subst str_replace.simps) simp
  have miss: "str_replace ''-alpha'' ''a'' (''-beta'' @ b) = ''-beta'' @ str_replace ''-alpha'' ''a'' b"
    by (simp add: str_replace.simps [of "''-alpha''" "''a''" "x # xs" for x xs])
  note defs = get_taunicorn_version_def str_replace_none [OF assms(1)] str_replace_none [OF assms(2)]
  have skip: "str_replace (CHR ''-'' # p) r (a @ s) = a @ str_replace (CHR ''-'' # p) r s" for p r s
    by (rule str_replace_skip [OF assms(1)])
  have ab: "CHR ''-'' \<notin> set (a @ ''a'' @ b)" using assms by simp
  show "get_taunicorn_version a = a" by (simp add: defs)
  show "get_taunicorn_version (a @ ''-alpha'' @ b) = a @ ''a'' @ b"
    using hit [of "''alpha''" "''a''" b] str_replace_none [OF ab] unfolding get_taunicorn_version_def skip
    by (simp add: str_replace_none [OF assms(2)])
  show "get_taunicorn_version (a @ ''-beta'' @ b) = a @ ''b'' @ b"
    using hit [of "''eta''" "''b''"] hit [of "''beta''" "''b''" b]
    unfolding get_taunicorn_version_def skip miss by (simp add: str_replace_none [OF assms(2)])
qed

lemma map_of_module_add [simp]: "map_of (module_add n item m) = (map_of m)(n \<mapsto> item)"
  by (simp add: module_add_def update_conv')

lemma distinct_module_add [simp]: "distinct (map fst m) \<Longrightarrow> distinct (map fst (module_add n item m))"
  by (simp add: module_add_def distinct_update)

lemma module_getattr_known: "map_of m n = Some item \<Longrightarrow> module_getattr n m = Inr item"
  by (simp add: module_getattr_def)

text \<open>Importing the module succeeds, every public name is defined, and the names kept for compatibility are
  the very classes they stand for.\<close>

theorem module_names:
  "\<exists>m. taunicorn_module version = Inr m \<and> distinct (map fst m)
    \<and> map_of m ''__version__'' = Some (VersionItem (get_taunicorn_version version))
    \<and> map_of m ''Listener'' = map_of m ''Server'' \<and> map_of m ''Server'' = Some (ClassItem ''PyServer'')
    \<and> map_of m ''Stream'' = map_of m ''Connection'' \<and> map_of m ''Client'' = map_of m ''Connection''
    \<and> map_of m ''Connection'' = Some (ClassItem ''PyConnection'')
    \<and> map_of m ''BoundedQeue'' = map_of m ''BoundedQueue'' \<and> map_of m ''UnoundedQeue'' = map_of m ''UnboundedQueue''
    \<and> list_all (\<lambda>n. map_of m n \<noteq> None)
        [''BoundedQueue'', ''UnboundedQueue'', ''QueueClosed'', ''QueueFull'', ''QueueEmpty'', ''QueueBusy'', ''RustPanic'',
         ''Endpoint'', ''ConnectionInfo'', ''ServerInfo'', ''ReadHalf'', ''WriteHalf'', ''LocalTransport'', ''SecureConnection'',
         ''generate_identity_private_key'', ''identity_public_key'']"
  by (simp add: taunicorn_module_def add_class_def register_security_def Let_def module_getattr_known)

end
