(* ===== verification/Conn_Progress.thy ===== *)
theory Conn_Progress
  imports Transport_Props
begin

text \<open>
  Typing and termination of the calls on a connection. An \<open>async fn\<close> of Rust is typed: a receive
  only ever waits as a receive and returns a \<open>ReceiveResult\<close>; \<open>pc_fits\<close> and \<open>reply_ok\<close> state
  this for the suspended and the finished calls, with the bounds their documentation gives. The budget of a call
  bounds how often it can be resumed, so no schedule keeps a call running for ever, and a call that is
  not finished is never stuck for good.
\<close>

section \<open>Typing\<close>

text \<open>What a successful call may return.\<close>

fun reply_ok :: "operation \<Rightarrow> reply \<Rightarrow> bool" where
  "reply_ok (Receive buffer) (VReceive (Data n) b) \<longleftrightarrow>
     n \<le> length buffer \<and> (buffer \<noteq> [] \<longrightarrow> 0 < n) \<and> length b = length buffer \<and> drop n b = drop n buffer"
| "reply_ok (Receive buffer) (VReceive EndOfStream b) \<longleftrightarrow> b = buffer"
| "reply_ok (WriteOnce data) (VUsize n) \<longleftrightarrow> n \<le> length data \<and> (data \<noteq> [] \<longrightarrow> 0 < n)"
| "reply_ok (Receive buffer) v \<longleftrightarrow> False"
| "reply_ok (WriteOnce data) v \<longleftrightarrow> False"
| "reply_ok oper v \<longleftrightarrow> v = VUnit"

text \<open>Where a call may be suspended: in its own awaits, with its own data.\<close>

fun pc_fits :: "operation \<Rightarrow> pc \<Rightarrow> bool" where
  "pc_fits oper (Finished (Inr v)) \<longleftrightarrow> reply_ok oper v"
| "pc_fits oper (Finished (Inl e)) \<longleftrightarrow> True"
| "pc_fits oper Dropped \<longleftrightarrow> True"
| "pc_fits oper (ReceiveGate buffer) \<longleftrightarrow> oper = Receive buffer \<and> buffer \<noteq> []"
| "pc_fits oper (ReceiveIo buffer h) \<longleftrightarrow> oper = Receive buffer \<and> buffer \<noteq> []"
| "pc_fits oper (WriteGate data) \<longleftrightarrow> oper = WriteOnce data \<and> data \<noteq> []"
| "pc_fits oper (WriteIo data h) \<longleftrightarrow> oper = WriteOnce data \<and> data \<noteq> []"
| "pc_fits oper (SendGate data) \<longleftrightarrow> oper = Send data \<and> data \<noteq> []"
| "pc_fits oper (SendIo data written h) \<longleftrightarrow> oper = Send data \<and> written < length data"
| "pc_fits oper (TimedGate data) \<longleftrightarrow> oper = SendTimeout data \<and> data \<noteq> []"
| "pc_fits oper (TimedIo data written h) \<longleftrightarrow> oper = SendTimeout data \<and> written < length data"
| "pc_fits oper FlushGate \<longleftrightarrow> oper = Flush"
| "pc_fits oper (FlushIo h) \<longleftrightarrow> oper = Flush"
| "pc_fits oper ShutdownGate \<longleftrightarrow> oper = ShutdownWrite"
| "pc_fits oper (ShutdownIo h) \<longleftrightarrow> oper = ShutdownWrite"
| "pc_fits oper (CloseGate h) \<longleftrightarrow> oper = Close"
| "pc_fits oper (CloseIo h) \<longleftrightarrow> oper = Close"

lemma start_fits: "start oper c = (p, c') \<Longrightarrow> pc_fits oper p"
  by (cases oper) (auto simp: start_defs Let_def split: poll_splits)

lemma poll_fits:
  assumes "poll p ev c = Some (p', c')" and "pc_fits oper p"
  shows "pc_fits oper p'"
  using assms by (cases p) (auto simp: poll_defs Let_def split: poll_splits)

lemma drop_fits: "drop_future p c = (p', c') \<Longrightarrow> pc_fits oper p \<Longrightarrow> pc_fits oper p'"
  by (auto simp: drop_future_def split: if_splits)

definition tasks_fit :: "sys \<Rightarrow> bool" where
  "tasks_fit s \<longleftrightarrow> list_all (\<lambda>(oper, p). pc_fits oper p) (sys_tasks s)"

lemma list_all_update: "list_all P xs \<Longrightarrow> P x \<Longrightarrow> list_all P (xs[i := x])"
  by (cases "i < length xs") (auto simp: list_all_length nth_list_update)

lemma tasks_fit_nth: "tasks_fit s \<Longrightarrow> i < length (sys_tasks s) \<Longrightarrow> sys_tasks s ! i = (oper, p) \<Longrightarrow> pc_fits oper p"
  by (fastforce simp: tasks_fit_def list_all_length)

lemma tasks_fit_step:
  assumes "sys_step s a = Some t" and fit: "tasks_fit s"
  shows "tasks_fit t"
proof (cases a)
  case (Spawn oper)
  obtain p c where "start oper (sys_core s) = (p, c)" by fastforce
  with assms Spawn start_fits [OF this] show ?thesis by (auto simp: tasks_fit_def)
next
  case (Resume i ev)
  with assms(1) have "resume_task i ev s = Some t" by simp
  then show ?thesis
    by (rule resume_taskE)
      (use fit in \<open>auto simp: tasks_fit_def intro!: list_all_update dest: poll_fits [OF _ tasks_fit_nth [OF fit]]\<close>)
next
  case (DropTask i)
  with assms(1) have "drop_task i s = Some t" by simp
  then show ?thesis
    by (rule drop_taskE)
      (use fit in \<open>auto simp: tasks_fit_def intro!: list_all_update dest: drop_fits [OF _ tasks_fit_nth [OF fit]]\<close>)
qed (use assms in \<open>auto simp: tasks_fit_def\<close>)

lemma reachable_fit: "reachable s \<Longrightarrow> tasks_fit s"
  by (induction rule: reachable.induct) (auto simp: sys_init_def tasks_fit_def [of "\<lparr>sys_core = _, sys_tasks = [], sys_log = _\<rparr>"] intro: tasks_fit_step)

section \<open>Budgets\<close>

text \<open>How often a suspended call can be resumed at most: every resumption passes an await or writes a byte.\<close>

fun budget :: "pc \<Rightarrow> nat" where
  "budget (Finished r) = 0"
| "budget Dropped = 0"
| "budget (SendGate data) = length data + 2"
| "budget (SendIo data written h) = length data - written + 1"
| "budget (TimedGate data) = length data + 2"
| "budget (TimedIo data written h) = length data - written + 1"
| "budget (ReceiveGate buffer) = 2"
| "budget (WriteGate data) = 2"
| "budget FlushGate = 2"
| "budget ShutdownGate = 2"
| "budget (CloseGate h) = 2"
| "budget p = 1"

fun call_budget :: "operation \<Rightarrow> nat" where
  "call_budget (Send data) = length data + 2"
| "call_budget (SendTimeout data) = length data + 2"
| "call_budget ShutdownRead = 0"
| "call_budget oper = 2"

definition sys_budget :: "sys \<Rightarrow> nat" where
  "sys_budget s = sum_list (map (\<lambda>x. budget (snd x)) (sys_tasks s))"

fun action_budget :: "action \<Rightarrow> nat" where
  "action_budget (Spawn oper) = call_budget oper"
| "action_budget a = 0"

fun is_resume :: "action \<Rightarrow> bool" where
  "is_resume (Resume i ev) = True"
| "is_resume a = False"

lemma poll_budget: "poll p ev c = Some (p', c') \<Longrightarrow> budget p' < budget p"
  by (cases p) (auto simp: poll_defs Let_def split: poll_splits)

lemma start_budget: "start oper c = (p, c') \<Longrightarrow> budget p \<le> call_budget oper"
  by (cases oper) (auto simp: start_defs Let_def split: poll_splits)

lemma drop_budget: "drop_future p c = (p', c') \<Longrightarrow> budget p' \<le> budget p"
  by (auto simp: drop_future_def split: if_splits)

lemma sum_list_update_le:
  fixes f :: "'a \<Rightarrow> nat"
  assumes "i < length xs" and "f y + k \<le> f (xs ! i)"
  shows "sum_list (map f (xs[i := y])) + k \<le> sum_list (map f xs)"
  using assms
proof (induction xs arbitrary: i)
  case (Cons x xs)
  then show ?case by (cases i) auto
qed simp

lemma step_budget:
  assumes "sys_step s a = Some t"
  shows "sys_budget t + (if is_resume a then 1 else 0) \<le> sys_budget s + action_budget a"
proof (cases a)
  case (Spawn oper)
  obtain p c where "start oper (sys_core s) = (p, c)" by fastforce
  with assms Spawn start_budget [OF this] show ?thesis by (auto simp: sys_budget_def)
next
  case (Resume i ev)
  with assms have "resume_task i ev s = Some t" by simp
  then show ?thesis
  proof (rule resume_taskE)
    fix oper p p' c'
    assume i: "i < length (sys_tasks s)" "sys_tasks s ! i = (oper, p)"
      and po: "poll p ev (sys_core s) = Some (p', c')"
      and t: "t = \<lparr>sys_core = c', sys_tasks = (sys_tasks s)[i := (oper, p')],
              sys_log = sys_log s @ map (Pair i) (written_by p ev)\<rparr>"
    from poll_budget [OF po] show ?thesis
      using sum_list_update_le [of i "sys_tasks s" "\<lambda>x. budget (snd x)" "(oper, p')" 1] i t Resume
      by (simp add: sys_budget_def)
  qed
next
  case (DropTask i)
  with assms have "drop_task i s = Some t" by simp
  then show ?thesis
  proof (rule drop_taskE)
    fix oper p p' c'
    assume i: "i < length (sys_tasks s)" "sys_tasks s ! i = (oper, p)"
      and d: "drop_future p (sys_core s) = (p', c')"
      and t: "t = s\<lparr>sys_core := c', sys_tasks := (sys_tasks s)[i := (oper, p')]\<rparr>"
    from drop_budget [OF d] show ?thesis
      using sum_list_update_le [of i "sys_tasks s" "\<lambda>x. budget (snd x)" "(oper, p')" 0] i t DropTask
      by (simp add: sys_budget_def)
  qed
qed (use assms in \<open>auto simp: sys_budget_def\<close>)

lemma run_budget:
  "sys_run s as = Some t \<Longrightarrow>
     sys_budget t + length (filter is_resume as) \<le> sys_budget s + sum_list (map action_budget as)"
proof (induction s as rule: sys_run.induct)
  case (2 s a as)
  then obtain u where u: "sys_step s a = Some u" "sys_run u as = Some t" by (auto split: option.splits)
  with 2 step_budget [OF u(1)] show ?case by auto
qed simp

section \<open>Progress\<close>

text \<open>The event that ends the await of a call that owns its gate, whatever the peer does.\<close>

fun own_event :: "pc \<Rightarrow> event" where
  "own_event (ReceiveIo buffer h) = ReadDone (Inr [])"
| "own_event (FlushIo h) = FlushDone (Inr ())"
| "own_event (ShutdownIo h) = ShutdownDone (Inr ())"
| "own_event (CloseIo h) = ShutdownDone (Inr ())"
| "own_event p = WriteDone (Inr 0)"

lemma holder_poll: "holds_read p \<or> holds_write p \<Longrightarrow> \<exists>r. poll p (own_event p) c = Some r"
  by (cases p) (auto simp: poll_defs)

lemma waiter_poll:
  assumes "\<not> is_done p" and "\<not> holds_read p" and "\<not> holds_write p"
  shows "(\<not> core_read_gate c \<and> \<not> core_write_gate c \<longrightarrow> (\<exists>r. poll p GateAcquired c = Some r))"
  using assms by (cases p) (auto simp: poll_defs)

lemma not_stuck:
  assumes core: "core_inv s" and "\<not> all_done s"
  shows "\<exists>i ev t. sys_step s (Resume i ev) = Some t"
proof -
  have run: "\<exists>t. sys_step s (Resume i ev) = Some t"
    if "i < length (sys_tasks s)" "poll (task_pc s i) ev (sys_core s) = Some r" for i ev r
    using that by (cases r; cases "sys_tasks s ! i") (auto simp: resume_task_def task_pc_def)
  show ?thesis
  proof (cases "\<exists>i < length (sys_tasks s). holds_read (task_pc s i) \<or> holds_write (task_pc s i)")
    case True
    then show ?thesis using holder_poll run by blast
  next
    case False
    with core have "\<not> core_read_gate (sys_core s)" "\<not> core_write_gate (sys_core s)"
      by (auto simp: core_inv_def gate_inv_def task_pc_def)
    with assms(2) False waiter_poll run show ?thesis unfolding all_done_def by blast
  qed
qed

lemma budget_done: "is_done p \<longleftrightarrow> budget p = 0"
  by (cases p) auto

lemma all_done_budget: "all_done s \<longleftrightarrow> sys_budget s = 0"
  by (simp add: all_done_def sys_budget_def task_pc_def budget_done all_set_conv_all_nth)

lemma can_finish:
  assumes "reachable s"
  shows "\<exists>bs u. list_all is_resume bs \<and> sys_run s bs = Some u \<and> all_done u"
  using assms
proof (induction "sys_budget s" arbitrary: s rule: less_induct)
  case less
  show ?case
  proof (cases "all_done s")
    case True
    then show ?thesis by (intro exI [of _ "[]"] exI [of _ s]) simp
  next
    case False
    from not_stuck [OF reachable_core_inv [OF less.prems] False] obtain i ev t
      where t: "sys_step s (Resume i ev) = Some t" by blast
    from step_budget [OF t] have "sys_budget t < sys_budget s" by simp
    from less.hyps [OF this reachable.step [OF less.prems t]] obtain bs u
      where "list_all is_resume bs" "sys_run t bs = Some u" "all_done u" by blast
    with t show ?thesis by (intro exI [of _ "Resume i ev # bs"] exI [of _ u]) simp
  qed
qed

section \<open>Properties\<close>

text \<open>C32: Calls are well typed in every interleaving: a suspended call waits in its own awaits with its own data
  and never past its end, and what a successful call returns is what its signature and documentation say: a
  receive at least one and at most as many bytes as its buffer has room for, leaving the rest of the buffer as it
  was, or the end of stream; a single write between one and all bytes of its data; every other call the
  unit.\<close>

theorem calls_well_typed:
  assumes "reachable s" and "i < length (sys_tasks s)"
  shows "pc_fits (task_op s i) (task_pc s i)
    \<and> (\<forall>v. task_pc s i = Finished (Inr v) \<longrightarrow> reply_ok (task_op s i) v)"
proof -
  obtain oper p where p: "sys_tasks s ! i = (oper, p)" by fastforce
  with tasks_fit_nth [OF reachable_fit [OF assms(1)] assms(2) p] show ?thesis
    by (auto simp: task_op_def task_pc_def)
qed

text \<open>C19: Every call terminates: a system of calls can be resumed at most as often as the budgets of its pending calls
  add up to (two awaits, and one resumption for each byte of a complete send), whatever the schedule, the peer
  and the OS do; where that ends nothing is pending, a system with a pending call always has one that can be
  resumed, and so from every reachable state all calls can be brought to their end.\<close>

theorem calls_terminate:
  assumes "reachable s" and "sys_run s as = Some t"
  shows "length (filter is_resume as) + sys_budget t \<le> sys_budget s + sum_list (map action_budget as)
    \<and> (all_done t \<longleftrightarrow> sys_budget t = 0)
    \<and> (\<not> all_done t \<longrightarrow> (\<exists>i ev u. sys_step t (Resume i ev) = Some u))
    \<and> (\<exists>bs u. list_all is_resume bs \<and> sys_run t bs = Some u \<and> all_done u)"
proof -
  have t: "reachable t" using reachable_run [OF assms(2,1)] .
  show ?thesis
    using run_budget [OF assms(2)] all_done_budget not_stuck [OF reachable_core_inv [OF t]] can_finish [OF t]
    by auto
qed

text \<open>A send of three bytes that the OS takes in two pieces, next to a receive.\<close>

definition progress_demo :: "action list" where
  "progress_demo = [Spawn (Send [1, 2, 3]), Spawn (Receive [0, 0]), Resume 0 GateAcquired, Resume 1 GateAcquired,
     Resume 0 (WriteDone (Inr 1)), Resume 1 (ReadDone (Inr [7])), Resume 0 (WriteDone (Inr 2))]"

lemma progress_demo_run:
  "\<exists>s. sys_run demo_sys progress_demo = Some s \<and> length (sys_tasks s) = 2
     \<and> task_op s 1 = Receive [0, 0] \<and> task_pc s 1 = Finished (Inr (VReceive (Data 1) [7, 0]))"
  by (simp add: progress_demo_def demo_eval start_defs poll_defs gate_defs)

lemma calls_well_typed_witness:
  "\<exists>s. sys_run demo_sys progress_demo = Some s \<and> reply_ok (Receive [0, 0]) (VReceive (Data 1) [7, 0])"
proof -
  from progress_demo_run obtain s where s: "sys_run demo_sys progress_demo = Some s"
    "length (sys_tasks s) = 2" "task_op s 1 = Receive [0, 0]"
    "task_pc s 1 = Finished (Inr (VReceive (Data 1) [7, 0]))" by blast
  from calls_well_typed [OF demo_reachable [OF s(1)], of 1] s show ?thesis by simp
qed

lemma calls_terminate_witness:
  "\<exists>s. sys_run demo_sys progress_demo = Some s \<and> length (filter is_resume progress_demo) + sys_budget s \<le> 7
     \<and> (all_done s \<longleftrightarrow> sys_budget s = 0)"
proof -
  from progress_demo_run obtain s where s: "sys_run demo_sys progress_demo = Some s" by blast
  have r: "reachable demo_sys" unfolding demo_sys_def by (rule reachable.initial)
  have b: "sys_budget demo_sys = 0" "sum_list (map action_budget progress_demo) = 7"
    by (simp_all add: sys_budget_def demo_sys_def sys_init_def progress_demo_def)
  from calls_terminate [OF r s] s show ?thesis unfolding b by auto
qed

end
