(* ===== verification/Py_Calls.thy ===== *)
theory Py_Calls
  imports Py_Slot Conn_Progress
begin

text \<open>
  The asynchronous methods of the Python \<open>Connection\<close>, \<open>ReadHalf\<close> and \<open>WriteHalf\<close>
  (\<open>crates/taunicorn-python/src/lib.rs\<close>). A method returns a Python future around one call of the core;
  cancelling it drops the Rust future. Writing calls arm a guard that, unless the call returned \<open>Ok\<close>, spawns
  a task that closes the connection (or shuts the sending half down), so that nobody retries a buffer
  of which a prefix may be on the wire. The system here runs any number of such futures and guard tasks on the
  concurrent core of \<open>Conn_Tasks\<close>.
\<close>

section \<open>Futures and guards\<close>

datatype drop_guard = NoGuard | CloseUnlessCompleted | ShutdownWriteUnlessCompleted

datatype py_value = PyBytes bytes | PyInt nat | PyNone

text \<open>A call knows the core task that runs it; a call cancelled before its first poll never had one.\<close>

datatype call_state =
  CallCreated
| CallRunning nat
| CallResolved "nat option" "py_err + py_value"
| CallCancelled "nat option"

record py_call =
  call_op :: operation
  call_guard :: drop_guard
  call_timed :: bool
  call_state :: call_state

text \<open>The task that a dropped guard spawns.\<close>

fun guard_drop :: "drop_guard \<Rightarrow> operation list" where
  "guard_drop NoGuard = []"
| "guard_drop CloseUnlessCompleted = [Close]"
| "guard_drop ShutdownWriteUnlessCompleted = [ShutdownWrite]"

fun py_reply :: "reply \<Rightarrow> py_value" where
  "py_reply (VReceive (Data n) buffer) = PyBytes (take n buffer)"
| "py_reply (VReceive EndOfStream buffer) = PyBytes []"
| "py_reply (VUsize n) = PyInt n"
| "py_reply VUnit = PyNone"

definition new_call :: "operation \<Rightarrow> drop_guard \<Rightarrow> py_call" where
  "new_call oper guard =
     \<lparr>call_op = oper, call_guard = guard, call_timed = False, call_state = CallCreated\<rparr>"

section \<open>The methods\<close>

text \<open>
  The synchronous part of each method: the connection has to be plain, a timeout has to be a duration. A read
  uses a fresh zeroed buffer. The duration itself is not kept: a deadline is an event.
\<close>

definition py_receive :: "py_connection \<Rightarrow> nat \<Rightarrow> py_err + py_call" where
  "py_receive s max_bytes =
     try_result (py_plain_connection s) (\<lambda>_. Inr (new_call (Receive (replicate max_bytes 0)) NoGuard))"

definition py_read_timeout :: "('f \<Rightarrow> 'd option) \<Rightarrow> py_connection \<Rightarrow> nat \<Rightarrow> 'f \<Rightarrow> py_err + py_call" where
  "py_read_timeout try_from_secs_f64 s max_bytes timeout =
     try_result (py_plain_connection s) (\<lambda>_.
     try_result (duration_from_seconds try_from_secs_f64 timeout) (\<lambda>_.
     Inr ((new_call (Receive (replicate max_bytes 0)) NoGuard)\<lparr>call_timed := True\<rparr>)))"

definition py_send :: "py_connection \<Rightarrow> bytes \<Rightarrow> py_err + py_call" where
  "py_send s data =
     try_result (py_plain_connection s) (\<lambda>_. Inr (new_call (Send data) CloseUnlessCompleted))"

definition py_write :: "py_connection \<Rightarrow> bytes \<Rightarrow> py_err + py_call" where
  "py_write s data =
     try_result (py_plain_connection s) (\<lambda>_. Inr (new_call (WriteOnce data) CloseUnlessCompleted))"

definition py_write_bytes :: "py_connection \<Rightarrow> bytes \<Rightarrow> py_err + py_call" where
  "py_write_bytes s data = py_write s data"

definition py_write_all :: "py_connection \<Rightarrow> bytes \<Rightarrow> py_err + py_call" where
  "py_write_all s data = py_send s data"

definition py_write_all_bytes :: "py_connection \<Rightarrow> bytes \<Rightarrow> py_err + py_call" where
  "py_write_all_bytes s data = py_send s data"

definition py_write_all_timeout :: "('f \<Rightarrow> 'd option) \<Rightarrow> py_connection \<Rightarrow> bytes \<Rightarrow> 'f \<Rightarrow> py_err + py_call" where
  "py_write_all_timeout try_from_secs_f64 s data timeout =
     try_result (py_plain_connection s) (\<lambda>_.
     try_result (duration_from_seconds try_from_secs_f64 timeout) (\<lambda>_.
     Inr (new_call (SendTimeout data) CloseUnlessCompleted)))"

definition py_flush :: "py_connection \<Rightarrow> py_err + py_call" where
  "py_flush s = try_result (py_plain_connection s) (\<lambda>_. Inr (new_call Flush NoGuard))"

definition py_shutdown_read :: "py_connection \<Rightarrow> py_err + py_call" where
  "py_shutdown_read s = try_result (py_plain_connection s) (\<lambda>_. Inr (new_call ShutdownRead NoGuard))"

definition py_shutdown_write :: "py_connection \<Rightarrow> py_err + py_call" where
  "py_shutdown_write s =
     try_result (py_plain_connection s) (\<lambda>_. Inr (new_call ShutdownWrite CloseUnlessCompleted))"

text \<open>What the future of \<open>close\<close> runs on the core, for the target that \<open>py_close\<close> found.\<close>

definition py_close_call :: "connection_handle option \<Rightarrow> py_call option" where
  "py_close_call target =
     (case target of
        None \<Rightarrow> None
      | Some (HandlePlain raw) \<Rightarrow> Some (new_call Close CloseUnlessCompleted)
      | Some (HandleSecure t) \<Rightarrow> Some (new_call Close NoGuard))"

definition half_receive :: "nat \<Rightarrow> py_call" where
  "half_receive max_bytes = new_call (Receive (replicate max_bytes 0)) NoGuard"

definition half_shutdown_read :: py_call where
  "half_shutdown_read = new_call ShutdownRead NoGuard"

definition half_send :: "bytes \<Rightarrow> py_call" where
  "half_send data = new_call (Send data) ShutdownWriteUnlessCompleted"

definition half_write :: "bytes \<Rightarrow> py_call" where
  "half_write data = new_call (WriteOnce data) ShutdownWriteUnlessCompleted"

definition half_flush :: py_call where
  "half_flush = new_call Flush NoGuard"

definition half_shutdown_write :: py_call where
  "half_shutdown_write = new_call ShutdownWrite ShutdownWriteUnlessCompleted"

section \<open>Any number of futures on one connection\<close>

text \<open>
  \<open>pys_spawned\<close> are the guard tasks that the runtime has not polled yet, \<open>pys_background\<close> the core tasks
  of those it has; nobody can cancel them.
\<close>

record py_sys =
  pys_sys :: sys
  pys_calls :: "py_call list"
  pys_spawned :: "operation list"
  pys_background :: "nat list"

definition set_call :: "nat \<Rightarrow> call_state \<Rightarrow> py_sys \<Rightarrow> py_sys" where
  "set_call i st s = s\<lparr>pys_calls := (pys_calls s)[i := (pys_calls s ! i)\<lparr>call_state := st\<rparr>]\<rparr>"

definition spawn_guard :: "nat \<Rightarrow> py_sys \<Rightarrow> py_sys" where
  "spawn_guard i s = s\<lparr>pys_spawned := pys_spawned s @ guard_drop (call_guard (pys_calls s ! i))\<rparr>"

text \<open>After the core task of call \<open>i\<close> was polled: its result, if there is one, and the guard.\<close>

definition call_polled :: "nat \<Rightarrow> nat \<Rightarrow> py_sys \<Rightarrow> py_sys" where
  "call_polled i k s =
     (case task_pc (pys_sys s) k of
        Finished (Inr v) \<Rightarrow> set_call i (CallResolved (Some k) (Inr (py_reply v))) s
      | Finished (Inl e) \<Rightarrow> spawn_guard i (set_call i (CallResolved (Some k) (Inl (to_py_err e))) s)
      | _ \<Rightarrow> set_call i (CallRunning k) s)"

text \<open>The first poll; a read of nothing never reaches the core.\<close>

definition call_first_poll :: "nat \<Rightarrow> py_sys \<Rightarrow> py_sys option" where
  "call_first_poll i s =
     (if call_state (pys_calls s ! i) = CallCreated
      then
        (if call_op (pys_calls s ! i) = Receive []
         then Some (set_call i (CallResolved None (Inr (PyBytes []))) s)
         else
           (case sys_step (pys_sys s) (Spawn (call_op (pys_calls s ! i))) of
              None \<Rightarrow> None
            | Some t \<Rightarrow> Some (call_polled i (length (sys_tasks (pys_sys s))) (s\<lparr>pys_sys := t\<rparr>))))
      else None)"

definition call_resume :: "nat \<Rightarrow> event \<Rightarrow> py_sys \<Rightarrow> py_sys option" where
  "call_resume i ev s =
     (case call_state (pys_calls s ! i) of
        CallRunning k \<Rightarrow>
          (case sys_step (pys_sys s) (Resume k ev) of
             None \<Rightarrow> None
           | Some t \<Rightarrow> Some (call_polled i k (s\<lparr>pys_sys := t\<rparr>)))
      | _ \<Rightarrow> None)"

text \<open>The deadline that \<open>read_timeout\<close> puts around its read: the read is dropped.\<close>

definition call_deadline :: "nat \<Rightarrow> py_sys \<Rightarrow> py_sys option" where
  "call_deadline i s =
     (case call_state (pys_calls s ! i) of
        CallRunning k \<Rightarrow>
          if call_timed (pys_calls s ! i)
          then (case sys_step (pys_sys s) (DropTask k) of
                  None \<Rightarrow> None
                | Some t \<Rightarrow>
                    Some (spawn_guard i
                      (set_call i (CallResolved (Some k) (Inl (to_py_err err_read_timeout))) (s\<lparr>pys_sys := t\<rparr>))))
          else None
      | _ \<Rightarrow> None)"

text \<open>Cancelling the Python future drops the Rust future: first the core call, then the guard it armed.\<close>

definition call_cancel :: "nat \<Rightarrow> py_sys \<Rightarrow> py_sys option" where
  "call_cancel i s =
     (case call_state (pys_calls s ! i) of
        CallCreated \<Rightarrow> Some (set_call i (CallCancelled None) s)
      | CallRunning k \<Rightarrow>
          (case sys_step (pys_sys s) (DropTask k) of
             None \<Rightarrow> None
           | Some t \<Rightarrow> Some (spawn_guard i (set_call i (CallCancelled (Some k)) (s\<lparr>pys_sys := t\<rparr>))))
      | _ \<Rightarrow> None)"

definition guard_start :: "nat \<Rightarrow> py_sys \<Rightarrow> py_sys option" where
  "guard_start j s =
     (if j < length (pys_spawned s)
      then (case sys_step (pys_sys s) (Spawn (pys_spawned s ! j)) of
              None \<Rightarrow> None
            | Some t \<Rightarrow>
                Some (s\<lparr>pys_sys := t,
                        pys_spawned := take j (pys_spawned s) @ drop (Suc j) (pys_spawned s),
                        pys_background := pys_background s @ [length (sys_tasks (pys_sys s))]\<rparr>))
      else None)"

definition guard_resume :: "nat \<Rightarrow> event \<Rightarrow> py_sys \<Rightarrow> py_sys option" where
  "guard_resume k ev s =
     (if k \<in> set (pys_background s)
      then map_option (\<lambda>t. s\<lparr>pys_sys := t\<rparr>) (sys_step (pys_sys s) (Resume k ev))
      else None)"

datatype py_action =
  PyCall py_call
| PyPoll nat
| PyWake nat event
| PyDeadline nat
| PyCancel nat
| GuardStart nat
| GuardWake nat event
| PyPause
| PyResume

fun py_step :: "py_sys \<Rightarrow> py_action \<Rightarrow> py_sys option" where
  "py_step s (PyCall c) = Some (s\<lparr>pys_calls := pys_calls s @ [c\<lparr>call_state := CallCreated\<rparr>]\<rparr>)"
| "py_step s (PyPoll i) = (if i < length (pys_calls s) then call_first_poll i s else None)"
| "py_step s (PyWake i ev) = (if i < length (pys_calls s) then call_resume i ev s else None)"
| "py_step s (PyDeadline i) = (if i < length (pys_calls s) then call_deadline i s else None)"
| "py_step s (PyCancel i) = (if i < length (pys_calls s) then call_cancel i s else None)"
| "py_step s (GuardStart j) = guard_start j s"
| "py_step s (GuardWake k ev) = guard_resume k ev s"
| "py_step s PyPause = map_option (\<lambda>t. s\<lparr>pys_sys := t\<rparr>) (sys_step (pys_sys s) PauseConn)"
| "py_step s PyResume = map_option (\<lambda>t. s\<lparr>pys_sys := t\<rparr>) (sys_step (pys_sys s) ResumeConn)"

fun py_run :: "py_sys \<Rightarrow> py_action list \<Rightarrow> py_sys option" where
  "py_run s [] = Some s"
| "py_run s (a # as) = (case py_step s a of None \<Rightarrow> None | Some t \<Rightarrow> py_run t as)"

definition py_start :: "sys \<Rightarrow> py_sys" where
  "py_start s = \<lparr>pys_sys = s, pys_calls = [], pys_spawned = [], pys_background = []\<rparr>"

end
