(* ===== verification/Py_Guards.thy ===== *)
theory Py_Guards
  imports Py_Calls
begin

text \<open>
  What the Python futures and their guards of \<open>Py_Calls\<close> guarantee: every step is a run of the concurrent core,
  so its properties hold under Python too; and a writing call that did not return \<open>Ok\<close> always leaves a guard task
  behind that closes the connection, or shuts the sending half down.
\<close>

section \<open>The core under the calls\<close>

definition core_runs :: "sys \<Rightarrow> sys \<Rightarrow> bool" where
  "core_runs s t \<longleftrightarrow> (\<exists>as. sys_run s as = Some t)"

lemma core_runs_refl [simp]: "core_runs s s"
  unfolding core_runs_def by (rule exI [of _ "[]"]) simp

lemma core_runs_step: "sys_step s a = Some t \<Longrightarrow> core_runs s t"
  unfolding core_runs_def by (rule exI [of _ "[a]"]) simp

lemma core_runs_trans: "core_runs s t \<Longrightarrow> core_runs t u \<Longrightarrow> core_runs s u"
proof -
  assume "core_runs s t" "core_runs t u"
  then obtain as bs where "sys_run s as = Some t" "sys_run t bs = Some u" by (auto simp: core_runs_def)
  then show ?thesis unfolding core_runs_def by (intro exI [of _ "as @ bs"]) (simp add: sys_run_append)
qed

lemma set_call_sys [simp]:
  "pys_sys (set_call i st s) = pys_sys s" "pys_background (set_call i st s) = pys_background s"
  "pys_spawned (set_call i st s) = pys_spawned s"
  "pys_calls (set_call i st s) = (pys_calls s)[i := (pys_calls s ! i)\<lparr>call_state := st\<rparr>]"
  by (simp_all add: set_call_def)

lemma spawn_guard_sys [simp]:
  "pys_sys (spawn_guard i s) = pys_sys s" "pys_background (spawn_guard i s) = pys_background s"
  "pys_calls (spawn_guard i s) = pys_calls s"
  "pys_spawned (spawn_guard i s) = pys_spawned s @ guard_drop (call_guard (pys_calls s ! i))"
  by (simp_all add: spawn_guard_def)

lemma call_polled_sys [simp]:
  "pys_sys (call_polled i k s) = pys_sys s" "pys_background (call_polled i k s) = pys_background s"
  by (simp_all add: call_polled_def split: pc.split sum.split)

lemmas py_step_defs =
  call_first_poll_def call_resume_def call_deadline_def call_cancel_def guard_start_def guard_resume_def

lemma py_step_core: "py_step s a = Some t \<Longrightarrow> core_runs (pys_sys s) (pys_sys t)"
  by (cases a) (auto simp: py_step_defs split: if_splits option.splits call_state.splits intro: core_runs_step
      simp del: sys_step.simps)

lemma py_run_core: "py_run s as = Some t \<Longrightarrow> core_runs (pys_sys s) (pys_sys t)"
proof (induction s as rule: py_run.induct)
  case (2 s a as)
  then show ?case by (auto split: option.splits intro: core_runs_trans dest: py_step_core)
qed simp

section \<open>How a core step changes the tasks\<close>

text \<open>Only task \<open>k\<close> may change, and only if it was not done; tasks keep their operation and are only added.\<close>

definition only_task :: "nat \<Rightarrow> sys \<Rightarrow> sys \<Rightarrow> bool" where
  "only_task k s t \<longleftrightarrow>
     length (sys_tasks s) \<le> length (sys_tasks t)
     \<and> (\<forall>j < length (sys_tasks s). task_op t j = task_op s j)
     \<and> (\<forall>j < length (sys_tasks s). j \<noteq> k \<or> is_done (task_pc s j) \<longrightarrow> task_pc t j = task_pc s j)"

lemma only_task_spawn:
  assumes "sys_step s (Spawn oper) = Some t"
  shows "only_task (length (sys_tasks s)) s t \<and> length (sys_tasks t) = Suc (length (sys_tasks s))
    \<and> task_op t (length (sys_tasks s)) = oper \<and> task_pc t (length (sys_tasks s)) \<noteq> Dropped"
proof -
  obtain p c where p: "start oper (sys_core s) = (p, c)" by fastforce
  have "p \<noteq> Dropped" using p by (cases oper) (auto simp: start_defs Let_def split: poll_splits)
  with assms p show ?thesis by (auto simp: only_task_def task_op_def task_pc_def nth_append)
qed

lemma only_task_resume:
  assumes "sys_step s (Resume k ev) = Some t"
  shows "only_task k s t \<and> length (sys_tasks t) = length (sys_tasks s) \<and> \<not> is_done (task_pc s k)
    \<and> task_pc t k \<noteq> Dropped \<and> k < length (sys_tasks s)"
proof -
  from assms have "resume_task k ev s = Some t" by simp
  then show ?thesis
  proof (rule resume_taskE)
    fix oper p p' c'
    assume k: "k < length (sys_tasks s)" "sys_tasks s ! k = (oper, p)"
      and po: "poll p ev (sys_core s) = Some (p', c')"
      and t: "t = \<lparr>sys_core = c', sys_tasks = (sys_tasks s)[k := (oper, p')],
              sys_log = sys_log s @ map (Pair k) (written_by p ev)\<rparr>"
    have "\<not> is_done p" using po by (cases p) auto
    moreover have "p' \<noteq> Dropped" using po by (cases p) (auto simp: poll_defs Let_def split: poll_splits)
    ultimately show ?thesis using k t
      by (auto simp: only_task_def task_op_def task_pc_def nth_list_update)
  qed
qed

lemma only_task_drop:
  assumes "sys_step s (DropTask k) = Some t"
  shows "only_task k s t \<and> length (sys_tasks t) = length (sys_tasks s)"
proof -
  from assms have "drop_task k s = Some t" by simp
  then show ?thesis
    by (rule drop_taskE)
      (auto simp: only_task_def task_op_def task_pc_def nth_list_update drop_future_def split: if_splits)
qed

lemma only_task_pause:
  "sys_step s PauseConn = Some t \<Longrightarrow> only_task k s t" "sys_step s ResumeConn = Some t \<Longrightarrow> only_task k s t"
  by (auto simp: only_task_def task_op_def task_pc_def)

section \<open>The invariant of the calls\<close>

text \<open>The task a dropped guard stands for is spawned, or it runs on the core.\<close>

definition guarded :: "py_sys \<Rightarrow> drop_guard \<Rightarrow> bool" where
  "guarded s g \<longleftrightarrow> (\<forall>oper \<in> set (guard_drop g).
     oper \<in> set (pys_spawned s) \<or> (\<exists>k \<in> set (pys_background s). task_op (pys_sys s) k = oper))"

definition call_ok :: "py_sys \<Rightarrow> py_call \<Rightarrow> bool" where
  "call_ok s c \<longleftrightarrow>
     (case call_state c of
        CallCreated \<Rightarrow> True
      | CallRunning k \<Rightarrow>
          k < length (sys_tasks (pys_sys s)) \<and> task_op (pys_sys s) k = call_op c
          \<and> \<not> is_done (task_pc (pys_sys s) k) \<and> k \<notin> set (pys_background s)
      | CallResolved None r \<Rightarrow> call_op c = Receive [] \<and> r = Inr (PyBytes [])
      | CallResolved (Some k) (Inr v) \<Rightarrow>
          k < length (sys_tasks (pys_sys s)) \<and> task_op (pys_sys s) k = call_op c
          \<and> (\<exists>w. task_pc (pys_sys s) k = Finished (Inr w) \<and> v = py_reply w)
      | CallResolved (Some k) (Inl e) \<Rightarrow>
          k < length (sys_tasks (pys_sys s)) \<and> task_op (pys_sys s) k = call_op c \<and> guarded s (call_guard c)
      | CallCancelled None \<Rightarrow> True
      | CallCancelled (Some k) \<Rightarrow>
          k < length (sys_tasks (pys_sys s)) \<and> task_op (pys_sys s) k = call_op c \<and> guarded s (call_guard c))"

definition runs :: "py_call \<Rightarrow> nat \<Rightarrow> bool" where
  "runs c k \<longleftrightarrow> call_state c = CallRunning k"

text \<open>No two calls run on one core task.\<close>

definition one_owner :: "py_call list \<Rightarrow> bool" where
  "one_owner cs \<longleftrightarrow> (\<forall>i < length cs. \<forall>j < length cs. \<forall>k. runs (cs ! i) k \<longrightarrow> runs (cs ! j) k \<longrightarrow> i = j)"

definition background_ok :: "py_sys \<Rightarrow> bool" where
  "background_ok s \<longleftrightarrow>
     (\<forall>k \<in> set (pys_background s). k < length (sys_tasks (pys_sys s)) \<and> task_pc (pys_sys s) k \<noteq> Dropped)"

definition py_inv :: "py_sys \<Rightarrow> bool" where
  "py_inv s \<longleftrightarrow> reachable (pys_sys s) \<and> list_all (call_ok s) (pys_calls s) \<and> one_owner (pys_calls s) \<and> background_ok s"

text \<open>A call whose task nobody touched stays as it is, whatever tasks and guards are added.\<close>

definition grows :: "nat \<Rightarrow> py_sys \<Rightarrow> py_sys \<Rightarrow> bool" where
  "grows k s t \<longleftrightarrow> only_task k (pys_sys s) (pys_sys t)
     \<and> set (pys_background s) \<subseteq> set (pys_background t)
     \<and> (\<forall>j \<in> set (pys_background t) - set (pys_background s). length (sys_tasks (pys_sys s)) \<le> j)
     \<and> (\<forall>oper \<in> set (pys_spawned s). oper \<in> set (pys_spawned t)
          \<or> (\<exists>j \<in> set (pys_background t). task_op (pys_sys t) j = oper))"

lemma guarded_grows: "grows k s t \<Longrightarrow> background_ok s \<Longrightarrow> guarded s g \<Longrightarrow> guarded t g"
  unfolding guarded_def grows_def only_task_def background_ok_def by (metis subsetD)

lemma call_ok_grows:
  assumes g: "grows k s t" and b: "background_ok s" and c: "call_ok s c" and r: "\<not> runs c k"
  shows "call_ok t c"
proof -
  note gd = guarded_grows [OF g b, of "call_guard c"]
  have keep: "j < length (sys_tasks (pys_sys t)) \<and> task_op (pys_sys t) j = task_op (pys_sys s) j
      \<and> (j \<noteq> k \<or> is_done (task_pc (pys_sys s) j) \<longrightarrow> task_pc (pys_sys t) j = task_pc (pys_sys s) j)
      \<and> (j \<in> set (pys_background t) \<longrightarrow> j \<in> set (pys_background s))"
    if "j < length (sys_tasks (pys_sys s))" for j
    using g that unfolding grows_def only_task_def by (meson DiffI leD less_le_trans)
  show ?thesis
  proof (cases "call_state c")
    case (CallRunning j)
    with c keep [of j] r show ?thesis by (auto simp: call_ok_def runs_def)
  next
    case (CallResolved ko res)
    show ?thesis
    proof (cases ko)
      case None
      with CallResolved c show ?thesis by (simp add: call_ok_def)
    next
      case (Some j)
      with CallResolved c keep [of j] gd show ?thesis by (cases res) (auto simp: call_ok_def)
    qed
  next
    case (CallCancelled ko)
    show ?thesis
    proof (cases ko)
      case None
      with CallCancelled show ?thesis by (simp add: call_ok_def)
    next
      case (Some j)
      with CallCancelled c keep [of j] gd show ?thesis by (auto simp: call_ok_def)
    qed
  qed (simp add: call_ok_def)
qed

lemma py_inv_call:
  assumes inv: "py_inv s" and i: "i < length (pys_calls s)" and g: "grows k s t"
    and calls: "pys_calls t = (pys_calls s)[i := c']" and c': "call_ok t c'" and own: "\<And>j. runs c' j \<Longrightarrow> j = k"
    and others: "\<And>j. j < length (pys_calls s) \<Longrightarrow> j \<noteq> i \<Longrightarrow> \<not> runs (pys_calls s ! j) k"
    and b: "background_ok t" and r: "reachable (pys_sys t)"
  shows "py_inv t"
proof -
  have bs: "background_ok s" and oks: "list_all (call_ok s) (pys_calls s)" and one: "one_owner (pys_calls s)"
    using inv by (simp_all add: py_inv_def)
  have "call_ok t (pys_calls t ! j)" if "j < length (pys_calls t)" for j
  proof (cases "j = i")
    case True
    with i calls c' show ?thesis by simp
  next
    case False
    with that calls oks have "j < length (pys_calls s)" "call_ok s (pys_calls s ! j)" "pys_calls t ! j = pys_calls s ! j"
      by (simp_all add: list_all_length)
    with call_ok_grows [OF g bs this(2) others [OF this(1) False]] show ?thesis by simp
  qed
  moreover have "one_owner (pys_calls t)"
    unfolding one_owner_def
  proof (intro allI impI)
    fix a b j
    assume "a < length (pys_calls t)" "b < length (pys_calls t)" "runs (pys_calls t ! a) j" "runs (pys_calls t ! b) j"
    with calls own others one i show "a = b"
      by (cases "a = i"; cases "b = i") (auto simp: one_owner_def dest!: own)
  qed
  ultimately show ?thesis using b r by (simp add: py_inv_def list_all_length)
qed

text \<open>Steps that leave the calls alone.\<close>

lemma py_inv_other:
  assumes inv: "py_inv s" and g: "grows k s t" and calls: "pys_calls t = pys_calls s"
    and others: "\<And>j. j < length (pys_calls s) \<Longrightarrow> \<not> runs (pys_calls s ! j) k"
    and b: "background_ok t" and r: "reachable (pys_sys t)"
  shows "py_inv t"
proof -
  have "call_ok t (pys_calls s ! j)" if "j < length (pys_calls s)" for j
    using inv that others [OF that] call_ok_grows [OF g] by (simp add: py_inv_def list_all_length)
  then show ?thesis using inv calls b r by (simp add: py_inv_def list_all_length)
qed

lemma background_grows:
  assumes "background_ok s" and "only_task k (pys_sys s) (pys_sys t)" and "pys_background t = pys_background s"
    and "k \<in> set (pys_background s) \<Longrightarrow> task_pc (pys_sys t) k \<noteq> Dropped"
  shows "background_ok t"
  unfolding background_ok_def
proof
  fix j assume "j \<in> set (pys_background t)"
  with assms have j: "j < length (sys_tasks (pys_sys s))" "task_pc (pys_sys s) j \<noteq> Dropped" "j \<in> set (pys_background s)"
    by (auto simp: background_ok_def)
  with assms(2,4) show "j < length (sys_tasks (pys_sys t)) \<and> task_pc (pys_sys t) j \<noteq> Dropped"
    by (cases "j = k") (auto simp: only_task_def)
qed

lemma running_facts:
  assumes "py_inv s" and "i < length (pys_calls s)" and "call_state (pys_calls s ! i) = CallRunning k"
  shows "k < length (sys_tasks (pys_sys s))" "task_op (pys_sys s) k = call_op (pys_calls s ! i)"
    "k \<notin> set (pys_background s)" "\<And>j. j < length (pys_calls s) \<Longrightarrow> j \<noteq> i \<Longrightarrow> \<not> runs (pys_calls s ! j) k"
proof -
  have "call_ok s (pys_calls s ! i)" using assms(1,2) by (simp add: py_inv_def list_all_length)
  with assms(3) show "k < length (sys_tasks (pys_sys s))" "task_op (pys_sys s) k = call_op (pys_calls s ! i)"
    "k \<notin> set (pys_background s)" by (simp_all add: call_ok_def)
  show "\<not> runs (pys_calls s ! j) k" if "j < length (pys_calls s)" "j \<noteq> i" for j
    using assms that unfolding py_inv_def one_owner_def runs_def by metis
qed

lemma fresh_task:
  "py_inv s \<Longrightarrow> j < length (pys_calls s) \<Longrightarrow> \<not> runs (pys_calls s ! j) (length (sys_tasks (pys_sys s)))"
  by (fastforce simp: py_inv_def list_all_length runs_def call_ok_def)

text \<open>After a poll of its task a call is again as the invariant wants it.\<close>

lemma py_inv_polled:
  assumes inv: "py_inv s" and i: "i < length (pys_calls s)" and only: "only_task k (pys_sys s) t"
    and r: "reachable t" and k: "k < length (sys_tasks t)" "task_op t k = call_op (pys_calls s ! i)"
    "task_pc t k \<noteq> Dropped" "k \<notin> set (pys_background s)"
    and others: "\<And>j. j < length (pys_calls s) \<Longrightarrow> j \<noteq> i \<Longrightarrow> \<not> runs (pys_calls s ! j) k"
  shows "py_inv (call_polled i k (s\<lparr>pys_sys := t\<rparr>))"
proof -
  let ?t = "call_polled i k (s\<lparr>pys_sys := t\<rparr>)"
  have "\<exists>st. pys_calls ?t = (pys_calls s)[i := (pys_calls s ! i)\<lparr>call_state := st\<rparr>]
    \<and> (st = CallRunning k \<and> \<not> is_done (task_pc t k)
      \<or> (\<exists>w. task_pc t k = Finished (Inr w) \<and> st = CallResolved (Some k) (Inr (py_reply w)))
      \<or> (\<exists>e. st = CallResolved (Some k) (Inl e)
            \<and> pys_spawned ?t = pys_spawned s @ guard_drop (call_guard (pys_calls s ! i))))"
  proof (cases "task_pc t k")
    case (Finished res)
    then show ?thesis using i by (cases res) (auto simp: call_polled_def)
  qed (use k(3) in \<open>auto simp: call_polled_def\<close>)
  then obtain st where c: "pys_calls ?t = (pys_calls s)[i := (pys_calls s ! i)\<lparr>call_state := st\<rparr>]"
    and st: "st = CallRunning k \<and> \<not> is_done (task_pc t k)
      \<or> (\<exists>w. task_pc t k = Finished (Inr w) \<and> st = CallResolved (Some k) (Inr (py_reply w)))
      \<or> (\<exists>e. st = CallResolved (Some k) (Inl e)
            \<and> pys_spawned ?t = pys_spawned s @ guard_drop (call_guard (pys_calls s ! i)))" by blast
  have g: "grows k s ?t" using only by (auto simp: grows_def call_polled_def split: pc.split sum.split)
  have "call_ok ?t ((pys_calls s ! i)\<lparr>call_state := st\<rparr>)"
    using st k by (auto simp: call_ok_def guarded_def)
  moreover have "background_ok ?t"
    by (rule background_grows [of s k]) (use inv only k(4) in \<open>auto simp: py_inv_def\<close>)
  ultimately show ?thesis
    using py_inv_call [OF inv i g c] st others r by (auto simp: runs_def)
qed

lemma py_inv_dropped:
  assumes inv: "py_inv s" and i: "i < length (pys_calls s)" and run: "call_state (pys_calls s ! i) = CallRunning k"
    and d: "sys_step (pys_sys s) (DropTask k) = Some t"
    and st: "st = CallCancelled (Some k) \<or> (\<exists>e. st = CallResolved (Some k) (Inl e))"
  shows "py_inv (spawn_guard i (set_call i st (s\<lparr>pys_sys := t\<rparr>)))"
proof -
  let ?t = "spawn_guard i (set_call i st (s\<lparr>pys_sys := t\<rparr>))"
  note f = running_facts [OF inv i run] and o = only_task_drop [OF d]
  have g: "grows k s ?t" using o by (auto simp: grows_def)
  have c: "pys_calls ?t = (pys_calls s)[i := (pys_calls s ! i)\<lparr>call_state := st\<rparr>]" by simp
  have k: "k < length (sys_tasks t)" "task_op t k = call_op (pys_calls s ! i)"
    using f(1,2) o by (auto simp: only_task_def)
  have "call_ok ?t ((pys_calls s ! i)\<lparr>call_state := st\<rparr>)"
    using st k i by (auto simp: call_ok_def guarded_def)
  moreover have "background_ok ?t"
    by (rule background_grows [of s k]) (use inv o f(3) in \<open>auto simp: py_inv_def\<close>)
  moreover have "reachable t"
    using inv d reachable.step by (auto simp: py_inv_def simp del: sys_step.simps)
  ultimately show ?thesis
    using py_inv_call [OF inv i g c _ _ f(4)] st by (auto simp: runs_def)
qed

lemma py_inv_quiet:
  assumes inv: "py_inv s" and i: "i < length (pys_calls s)" and c: "call_ok s ((pys_calls s ! i)\<lparr>call_state := st\<rparr>)"
    and st: "\<And>k. st \<noteq> CallRunning k"
  shows "py_inv (set_call i st s)"
proof -
  let ?k = "length (sys_tasks (pys_sys s))"
  have g: "grows ?k s (set_call i st s)" by (auto simp: grows_def only_task_def)
  have "call_ok (set_call i st s) ((pys_calls s ! i)\<lparr>call_state := st\<rparr>)"
    using call_ok_grows [OF g _ c] inv st by (auto simp: py_inv_def runs_def)
  moreover have "background_ok (set_call i st s)" "reachable (pys_sys (set_call i st s))"
    using inv by (auto simp: py_inv_def background_ok_def)
  ultimately show ?thesis
    by (intro py_inv_call [OF inv i g, where c' = "(pys_calls s ! i)\<lparr>call_state := st\<rparr>"] fresh_task [OF inv])
      (use st in \<open>auto simp: runs_def\<close>)
qed

lemma py_inv_guard_start:
  assumes inv: "py_inv s" and st: "guard_start j s = Some u"
  shows "py_inv u"
proof -
  let ?k = "length (sys_tasks (pys_sys s))"
  from st obtain t where j: "j < length (pys_spawned s)" and t: "sys_step (pys_sys s) (Spawn (pys_spawned s ! j)) = Some t"
    and u: "u = s\<lparr>pys_sys := t, pys_spawned := take j (pys_spawned s) @ drop (Suc j) (pys_spawned s),
                 pys_background := pys_background s @ [?k]\<rparr>"
    by (auto simp: guard_start_def split: if_splits option.splits simp del: sys_step.simps)
  note o = only_task_spawn [OF t]
  have left: "oper \<in> set (pys_spawned u) \<or> task_op t ?k = oper" if sp: "oper \<in> set (pys_spawned s)" for oper
  proof -
    from sp have "oper \<in> set (take j (pys_spawned s) @ pys_spawned s ! j # drop (Suc j) (pys_spawned s))"
      using id_take_nth_drop [OF j] by simp
    then show ?thesis using o u by auto
  qed
  have g: "grows ?k s u" using o left u by (auto simp: grows_def)
  have b: "background_ok u"
    using inv o u by (auto simp: py_inv_def background_ok_def only_task_def less_Suc_eq)
  have "reachable (pys_sys u)"
    using inv u reachable.step [OF _ t] by (simp add: py_inv_def)
  then show ?thesis
    using py_inv_other [OF inv g _ fresh_task [OF inv] b] u by simp
qed

lemma py_inv_guard_resume:
  assumes inv: "py_inv s" and st: "guard_resume k ev s = Some u"
  shows "py_inv u"
proof -
  from st obtain t where k: "k \<in> set (pys_background s)" and t: "sys_step (pys_sys s) (Resume k ev) = Some t"
    and u: "u = s\<lparr>pys_sys := t\<rparr>"
    by (auto simp: guard_resume_def split: if_splits simp del: sys_step.simps)
  note o = only_task_resume [OF t]
  have g: "grows k s u" using o u by (auto simp: grows_def)
  have b: "background_ok u" by (rule background_grows [of s k]) (use inv o u in \<open>auto simp: py_inv_def\<close>)
  have "\<not> runs (pys_calls s ! j) k" if "j < length (pys_calls s)" for j
    using running_facts(3) [OF inv that] k by (auto simp: runs_def)
  moreover have "reachable (pys_sys u)"
    using inv u reachable.step [OF _ t] by (simp add: py_inv_def)
  ultimately show ?thesis
    using py_inv_other [OF inv g _ _ b] u by simp
qed

lemma py_inv_flags:
  assumes inv: "py_inv s" and t: "sys_step (pys_sys s) a = Some t" and a: "a = PauseConn \<or> a = ResumeConn"
  shows "py_inv (s\<lparr>pys_sys := t\<rparr>)"
proof -
  let ?k = "length (sys_tasks (pys_sys s))"
  have o: "only_task ?k (pys_sys s) t" using t a only_task_pause by blast
  have g: "grows ?k s (s\<lparr>pys_sys := t\<rparr>)" using o by (auto simp: grows_def)
  have b: "background_ok (s\<lparr>pys_sys := t\<rparr>)"
    by (rule background_grows [of s ?k]) (use inv o in \<open>auto simp: py_inv_def background_ok_def\<close>)
  have "reachable t" using inv reachable.step [OF _ t] by (simp add: py_inv_def)
  then show ?thesis
    using py_inv_other [OF inv g _ fresh_task [OF inv] b] by simp
qed

lemma py_inv_first_poll:
  assumes inv: "py_inv s" and i: "i < length (pys_calls s)" and st: "call_first_poll i s = Some u"
  shows "py_inv u"
proof (cases "call_op (pys_calls s ! i) = Receive []")
  case True
  with st have "u = set_call i (CallResolved None (Inr (PyBytes []))) s"
    by (auto simp: call_first_poll_def split: if_splits)
  with True show ?thesis by (auto simp: call_ok_def intro: py_inv_quiet [OF inv i])
next
  case False
  let ?k = "length (sys_tasks (pys_sys s))"
  from False st obtain t where t: "sys_step (pys_sys s) (Spawn (call_op (pys_calls s ! i))) = Some t"
    and u: "u = call_polled i ?k (s\<lparr>pys_sys := t\<rparr>)"
    by (auto simp: call_first_poll_def split: if_splits option.splits simp del: sys_step.simps)
  have "?k \<notin> set (pys_background s)" using inv by (auto simp: py_inv_def background_ok_def)
  moreover have "reachable t" using inv reachable.step [OF _ t] by (simp add: py_inv_def)
  ultimately show ?thesis
    unfolding u using only_task_spawn [OF t] fresh_task [OF inv] by (intro py_inv_polled [OF inv i]) auto
qed

lemma py_inv_resume:
  assumes inv: "py_inv s" and i: "i < length (pys_calls s)" and st: "call_resume i ev s = Some u"
  shows "py_inv u"
proof -
  from st obtain k t where run: "call_state (pys_calls s ! i) = CallRunning k"
    and t: "sys_step (pys_sys s) (Resume k ev) = Some t" and u: "u = call_polled i k (s\<lparr>pys_sys := t\<rparr>)"
    by (auto simp: call_resume_def split: call_state.splits option.splits simp del: sys_step.simps)
  note f = running_facts [OF inv i run] and o = only_task_resume [OF t]
  have "task_op t k = call_op (pys_calls s ! i)" using o f(1,2) by (simp add: only_task_def)
  moreover have "reachable t" using inv reachable.step [OF _ t] by (simp add: py_inv_def)
  ultimately show ?thesis unfolding u using o f by (intro py_inv_polled [OF inv i]) auto
qed

lemma py_inv_new_call:
  assumes inv: "py_inv s"
  shows "py_inv (s\<lparr>pys_calls := pys_calls s @ [c\<lparr>call_state := CallCreated\<rparr>]\<rparr>)" (is "py_inv ?u")
proof -
  have ok: "call_ok ?u = call_ok s" by (rule ext)
      (simp add: call_ok_def guarded_def cong: call_state.case_cong option.case_cong sum.case_cong)
  have "one_owner (pys_calls ?u)"
    using inv by (auto simp: py_inv_def one_owner_def nth_append less_Suc_eq runs_def)
  then show ?thesis
    using inv unfolding py_inv_def ok by (simp add: call_ok_def background_ok_def)
qed

lemma py_inv_cancel:
  assumes inv: "py_inv s" and i: "i < length (pys_calls s)" and c: "call_cancel i s = Some u"
  shows "py_inv u"
proof (cases "call_state (pys_calls s ! i)")
  case CallCreated
  with c have "u = set_call i (CallCancelled None) s" by (simp add: call_cancel_def)
  then show ?thesis by (auto simp: call_ok_def intro: py_inv_quiet [OF inv i])
next
  case (CallRunning k)
  with c obtain t where t: "sys_step (pys_sys s) (DropTask k) = Some t"
    and u: "u = spawn_guard i (set_call i (CallCancelled (Some k)) (s\<lparr>pys_sys := t\<rparr>))"
    by (auto simp: call_cancel_def split: option.splits simp del: sys_step.simps)
  show ?thesis unfolding u by (rule py_inv_dropped [OF inv i CallRunning t]) simp
qed (use c in \<open>simp_all add: call_cancel_def\<close>)

lemma py_inv_step:
  assumes inv: "py_inv s" and st: "py_step s a = Some u"
  shows "py_inv u"
proof (cases a)
  case (PyCall c)
  with st py_inv_new_call [OF inv] show ?thesis by auto
next
  case (PyPoll i)
  with st py_inv_first_poll [OF inv] show ?thesis by (auto split: if_splits)
next
  case (PyWake i ev)
  with st py_inv_resume [OF inv] show ?thesis by (auto split: if_splits)
next
  case (PyDeadline i)
  with st obtain k t where i: "i < length (pys_calls s)" and run: "call_state (pys_calls s ! i) = CallRunning k"
    and t: "sys_step (pys_sys s) (DropTask k) = Some t"
    and u: "u = spawn_guard i (set_call i (CallResolved (Some k) (Inl (to_py_err err_read_timeout))) (s\<lparr>pys_sys := t\<rparr>))"
    by (auto simp: call_deadline_def split: if_splits call_state.splits option.splits simp del: sys_step.simps)
  show ?thesis unfolding u by (rule py_inv_dropped [OF inv i run t]) simp
next
  case (PyCancel i)
  with st have i: "i < length (pys_calls s)" and c: "call_cancel i s = Some u" by (auto split: if_splits)
  show ?thesis by (rule py_inv_cancel [OF inv i c])
next
  case (GuardStart j)
  with st show ?thesis by (auto intro: py_inv_guard_start [OF inv])
next
  case (GuardWake k ev)
  with st show ?thesis by (auto intro: py_inv_guard_resume [OF inv])
next
  case PyPause
  with st obtain t where "sys_step (pys_sys s) PauseConn = Some t" "u = s\<lparr>pys_sys := t\<rparr>" by auto
  with py_inv_flags [OF inv] show ?thesis by blast
next
  case PyResume
  with st obtain t where "sys_step (pys_sys s) ResumeConn = Some t" "u = s\<lparr>pys_sys := t\<rparr>" by auto
  with py_inv_flags [OF inv] show ?thesis by blast
qed

lemma py_run_inv: "py_run s as = Some t \<Longrightarrow> py_inv s \<Longrightarrow> py_inv t"
  by (induction s as rule: py_run.induct) (auto split: option.splits dest: py_inv_step)

lemma py_inv_start: "reachable s \<Longrightarrow> py_inv (py_start s)"
  by (simp add: py_inv_def py_start_def one_owner_def background_ok_def)

section \<open>What a guard task achieves\<close>

text \<open>A close that has started closed the connection; a write shutdown that got past its gate set the flag,
  unless the connection is closed.\<close>

definition ends_ok :: "operation \<Rightarrow> pc \<Rightarrow> core \<Rightarrow> bool" where
  "ends_ok oper p c \<longleftrightarrow>
     (oper = Close \<longrightarrow> c_closed (core_state c))
     \<and> (oper = ShutdownWrite \<longrightarrow> p = ShutdownGate \<or> p = Dropped
          \<or> c_write_shutdown (core_state c) \<or> c_closed (core_state c))"

lemma ends_ok_mono: "flags_le c d \<Longrightarrow> ends_ok oper p c \<Longrightarrow> ends_ok oper p d"
  by (auto simp: ends_ok_def flags_le_def)

lemma start_ends_ok: "start oper c = (p, c') \<Longrightarrow> ends_ok oper p c'"
  by (cases oper) (auto simp: ends_ok_def start_defs cs_close_def Let_def split: poll_splits)

lemma poll_ends_ok:
  assumes "poll p ev c = Some (p', c')" and "ends_ok oper p c" and "pc_fits oper p"
  shows "ends_ok oper p' c'"
proof (cases "p = ShutdownGate")
  case True
  with assms show ?thesis
    by (auto simp: ends_ok_def poll_defs Let_def split: poll_splits)
next
  case False
  from assms(1) have "p \<noteq> Dropped" by auto
  with False assms(2) poll_flags_le [OF assms(1)] show ?thesis by (auto simp: ends_ok_def flags_le_def)
qed

lemma task_step_ends_ok:
  assumes "reachable s" and i: "i < length (sys_tasks s)" and ok: "ends_ok (task_op s i) (task_pc s i) (sys_core s)"
  shows "sys_step s (Resume i ev) = Some t \<Longrightarrow> ends_ok (task_op t i) (task_pc t i) (sys_core t)"
    and "sys_step s (DropTask i) = Some t \<Longrightarrow> ends_ok (task_op t i) (task_pc t i) (sys_core t)"
proof -
  assume "sys_step s (Resume i ev) = Some t"
  then have "resume_task i ev s = Some t" by simp
  then show "ends_ok (task_op t i) (task_pc t i) (sys_core t)"
  proof (rule resume_taskE)
    fix oper p p' c'
    assume r: "i < length (sys_tasks s)" "sys_tasks s ! i = (oper, p)"
      and po: "poll p ev (sys_core s) = Some (p', c')"
      and t: "t = \<lparr>sys_core = c', sys_tasks = (sys_tasks s)[i := (oper, p')],
          sys_log = sys_log s @ map (Pair i) (written_by p ev)\<rparr>"
    show ?thesis
      using poll_ends_ok [OF po _ tasks_fit_nth [OF reachable_fit [OF assms(1)] r]] ok t r
      by (simp add: task_op_def task_pc_def)
  qed
next
  assume st: "sys_step s (DropTask i) = Some t"
  note mono = ends_ok_mono [OF step_flags_le [OF st]]
  from st have "drop_task i s = Some t" by simp
  then show "ends_ok (task_op t i) (task_pc t i) (sys_core t)"
  proof (rule drop_taskE)
    fix oper p p' c'
    assume r: "i < length (sys_tasks s)" "sys_tasks s ! i = (oper, p)"
      and dr: "drop_future p (sys_core s) = (p', c')"
      and t: "t = s\<lparr>sys_core := c', sys_tasks := (sys_tasks s)[i := (oper, p')]\<rparr>"
    have "ends_ok oper p (sys_core t)" using mono [OF ok] r by (simp add: task_op_def task_pc_def)
    moreover have "p' = p \<or> p' = Dropped" using dr by (auto simp: drop_future_def split: if_splits)
    ultimately show ?thesis using t r by (auto simp: task_op_def task_pc_def ends_ok_def)
  qed
qed

lemma reachable_ends_ok:
  "reachable s \<Longrightarrow> k < length (sys_tasks s) \<Longrightarrow> ends_ok (task_op s k) (task_pc s k) (sys_core s)"
proof (induction arbitrary: k rule: reachable.induct)
  case (initial h e l p counter)
  then show ?case by (simp add: sys_init_def)
next
  case (step s a t)
  note moves = task_step_ends_ok [OF step.hyps(1) _ step.IH]
  show ?case
  proof (cases "k < length (sys_tasks s) \<and> task_pc t k = task_pc s k \<and> task_op t k = task_op s k")
    case True
    with step.IH ends_ok_mono [OF step_flags_le [OF step.hyps(2)]] show ?thesis by simp
  next
    case changed: False
    show ?thesis
    proof (cases a)
      case (Spawn oper)
      obtain p c where sp: "start oper (sys_core s) = (p, c)" by fastforce
      with step.hyps(2) Spawn step.prems changed start_ends_ok [OF sp] show ?thesis
        by (auto simp: task_op_def task_pc_def nth_append less_Suc_eq)
    next
      case (Resume i ev)
      with step.hyps(2) step.prems changed have "k = i" "i < length (sys_tasks s)"
        by (auto elim!: resume_taskE simp: task_op_def task_pc_def nth_list_update split: if_splits)
      with moves(1) step.hyps(2) Resume show ?thesis by blast
    next
      case (DropTask i)
      with step.hyps(2) step.prems changed have "k = i" "i < length (sys_tasks s)"
        by (auto elim!: drop_taskE simp: task_op_def task_pc_def nth_list_update split: if_splits)
      with moves(2) step.hyps(2) DropTask show ?thesis by blast
    qed (use step changed in \<open>auto simp: task_op_def task_pc_def\<close>)
  qed
qed

lemma py_reached:
  assumes "reachable s0" and "py_run (py_start s0) as = Some s"
  shows "py_inv s"
  using py_run_inv [OF assms(2) py_inv_start [OF assms(1)]] .

lemma guarded_close:
  assumes "py_inv s" and "guarded s CloseUnlessCompleted" and "Close \<notin> set (pys_spawned s)"
  shows "c_closed (core_state (sys_core (pys_sys s)))"
proof -
  from assms(2,3) obtain k where k: "k \<in> set (pys_background s)" "task_op (pys_sys s) k = Close"
    by (auto simp: guarded_def)
  with assms(1) have "k < length (sys_tasks (pys_sys s))" "reachable (pys_sys s)"
    by (auto simp: py_inv_def background_ok_def)
  from reachable_ends_ok [OF this(2,1)] k(2) show ?thesis by (simp add: ends_ok_def)
qed

lemma guarded_shutdown:
  assumes "py_inv s" and "guarded s ShutdownWriteUnlessCompleted" and "ShutdownWrite \<notin> set (pys_spawned s)"
  shows "\<exists>k \<in> set (pys_background s). task_op (pys_sys s) k = ShutdownWrite
    \<and> (task_pc (pys_sys s) k = ShutdownGate
       \<or> c_write_shutdown (core_state (sys_core (pys_sys s))) \<or> c_closed (core_state (sys_core (pys_sys s))))"
proof -
  from assms(2,3) obtain k where k: "k \<in> set (pys_background s)" "task_op (pys_sys s) k = ShutdownWrite"
    by (auto simp: guarded_def)
  with assms(1) have "k < length (sys_tasks (pys_sys s))" "reachable (pys_sys s)" "task_pc (pys_sys s) k \<noteq> Dropped"
    by (auto simp: py_inv_def background_ok_def)
  with reachable_ends_ok [OF this(2,1)] k show ?thesis by (auto simp: ends_ok_def)
qed

lemma closed_refuses_writes:
  "c_closed (core_state c) \<Longrightarrow> data \<noteq> [] \<Longrightarrow> oper \<in> {Send data, SendTimeout data, WriteOnce data} \<Longrightarrow>
     start oper c = (Finished (Inl err_conn_closed), c)"
  by (auto simp: start_defs ensure_write_available_def ensure_common_io_available_def)

section \<open>Properties\<close>



text \<open>A send that is cancelled after one byte, and its guard.\<close>

definition guard_demo :: "py_action list" where
  "guard_demo = [PyCall (new_call (Send [1, 2]) CloseUnlessCompleted), PyPoll 0, PyWake 0 GateAcquired,
     PyWake 0 (WriteDone (Inr 1)), PyCancel 0, GuardStart 0]"

lemma guard_demo_run:
  "\<exists>s. py_run (py_start demo_sys) guard_demo = Some s \<and> length (pys_calls s) = 1 \<and> pys_spawned s = []
     \<and> call_guard (pys_calls s ! 0) = CloseUnlessCompleted
     \<and> call_state (pys_calls s ! 0) = CallCancelled (Some 0) \<and> call_op (pys_calls s ! 0) = Send [1, 2]"
  by (simp add: guard_demo_def demo_eval start_defs poll_defs gate_defs py_step_defs py_start_def new_call_def
      set_call_def spawn_guard_def call_polled_def)



end
