(* ===== verification/Py_Secure.thy ===== *)
theory Py_Secure
  imports Py_Session Secure_Props
begin

text \<open>
  The Python layer over the secure channel: what the gates and guards of \<open>Py_Session\<close> mean for the sequence
  numbers of \<open>Secure_Channel\<close>. The core advances a sequence only after a complete send, so on its own it
  would seal the next message of a broken session under a nonce that was used before; the binding never
  starts one.
\<close>

section \<open>The inner sends of a log\<close>

text \<open>
  An execution of the inner sends that a log records: call \<open>i\<close> sends \<open>p i\<close>, each send starts on whatever the
  connection has become in the meantime, and its result is the one the log states: \<open>Ok\<close>, still running, or
  broken off (failed, or dropped while it was pending). The last argument collects the nonces, one per send started.
\<close>

inductive inner_sends ::
  "crypto \<Rightarrow> (nat \<Rightarrow> bytes) \<Rightarrow> session \<Rightarrow> inner_event list \<Rightarrow> session \<Rightarrow> bytes list \<Rightarrow> bool"
  for cr p ss where
  sends_none: "inner_sends cr p ss [] ss []"
| sends_ok:
    "inner_sends cr p ss es ss1 ns \<Longrightarrow> secure_send cr conn_send (p i) (ss1, w) = (Ret (), (ss2, w'))
       \<Longrightarrow> inner_sends cr p ss (es @ [InnerStarted i, InnerOk i]) ss2 (ns @ [message_nonce (send_state ss1)])"
| sends_running:
    "inner_sends cr p ss es ss1 ns \<Longrightarrow> secure_send cr conn_send (p i) (ss1, w) = (Pending, (ss2, w'))
       \<Longrightarrow> inner_sends cr p ss (es @ [InnerStarted i]) ss2 (ns @ [message_nonce (send_state ss1)])"
| sends_broken:
    "inner_sends cr p ss es ss1 ns \<Longrightarrow> secure_send cr conn_send (p i) (ss1, w) = (r, (ss2, w'))
       \<Longrightarrow> r \<noteq> Ret ()
       \<Longrightarrow> inner_sends cr p ss (es @ [InnerStarted i, InnerBroken i]) ss2 (ns @ [message_nonce (send_state ss1)])"

inductive_cases inner_sendsE: "inner_sends cr p ss es ss' ns"

lemma completed_pairs_even: "completed_pairs es \<Longrightarrow> even (length es)"
  by (induction es rule: completed_pairs.induct) auto

lemma completed_pairs_snoc_iff:
  "completed_pairs (es @ [a, b]) \<longleftrightarrow> completed_pairs es \<and> (\<exists>i. a = InnerStarted i \<and> b = InnerOk i)"
proof (induction es rule: completed_pairs.induct)
  case 1
  then show ?case by (cases a; cases b) auto
qed (auto dest: completed_pairs_even)

lemma completed_pairs_last: "completed_pairs es \<Longrightarrow> es \<noteq> [] \<Longrightarrow> \<exists>i. last es = InnerOk i"
  by (induction es rule: completed_pairs.induct) (auto split: if_splits)


definition nth_nonce :: "session \<Rightarrow> nat \<Rightarrow> bytes" where
  "nth_nonce ss j = message_nonce (at_sequence (send_state ss) (ds_sequence (send_state ss) + of_nat j))"

text \<open>After completed sends only, the sequence stands at their number, without having wrapped.\<close>

lemma inner_sends_completed:
  "inner_sends cr p ss es ss1 ns \<Longrightarrow> completed_pairs es \<Longrightarrow>
     length es = 2 * length ns
     \<and> send_state ss1 = at_sequence (send_state ss) (ds_sequence (send_state ss) + of_nat (length ns))
     \<and> unat (ds_sequence (send_state ss)) + length ns < 2 ^ 64
     \<and> ns = map (nth_nonce ss) [0..<length ns]"
proof (induction rule: inner_sends.induct)
  case sends_none
  then show ?case using unat_u64_less [of "ds_sequence (send_state ss)"] by simp
next
  case (sends_ok es ss1 ns i w ss2 w')
  from sends_ok.prems have "completed_pairs es" by (simp add: completed_pairs_snoc_iff)
  note ih = sends_ok.IH [OF this]
  from secure_send_RetD [OF sends_ok.hyps(2)] obtain f n where
    "seal cr (transcript_hash ss1) (send_state ss1) (p i) = Inr (f, n)" and ss2: "ss2 = set_send_sequence n ss1" by blast
  then have n: "ds_sequence (send_state ss1) \<noteq> - 1" "n = ds_sequence (send_state ss1) + 1" by (auto simp: seal_Inr_iff)
  have "unat (ds_sequence (send_state ss1)) = unat (ds_sequence (send_state ss)) + length ns"
    using ih by (simp add: unat_add_lem [THEN iffD1] unat_of_nat take_bit_nat_eq_self)
  moreover have "unat (ds_sequence (send_state ss1)) + 1 < 2 ^ 64"
    using n(1) u64_checked_add_Some_iff [of "ds_sequence (send_state ss1)" 1 "ds_sequence (send_state ss1) + 1"]
    by (simp add: u64_succ_eq)
  ultimately show ?case using ih n(2) ss2 by (simp add: nth_nonce_def algebra_simps)
next
  case (sends_running es ss1 ns i w ss2 w')
  from completed_pairs_last [OF sends_running.prems] show ?case by simp
next
  case (sends_broken es ss1 ns i w r ss2 w')
  then show ?case by (simp add: completed_pairs_snoc_iff)
qed

section \<open>Properties\<close>

lemma inner_sends_last:
  assumes "inner_sends cr p ss (es @ rest) ss' ns" and "completed_pairs es"
    and "rest = [] \<or> (\<exists>i. rest = [InnerStarted i]) \<or> (\<exists>i. rest = [InnerStarted i, InnerBroken i])"
  shows "ns = map (nth_nonce ss) [0..<length ns] \<and> unat (ds_sequence (send_state ss)) + length ns \<le> 2 ^ 64
    \<and> length es + 2 * of_bool (rest \<noteq> []) = 2 * length ns"
proof (cases "rest = []")
  case True
  with assms(1,2) inner_sends_completed [of cr p ss es ss' ns] show ?thesis by auto
next
  case False
  have "\<exists>ss1 ns1. inner_sends cr p ss es ss1 ns1 \<and> ns = ns1 @ [message_nonce (send_state ss1)]"
    using assms(1)
  proof (cases rule: inner_sends.cases)
    case sends_none
    with False show ?thesis by simp
  next
    case (sends_ok es' ss1 ns1 i w w')
    with assms(3) False have "False" by (auto simp: append_eq_append_conv2 append_eq_Cons_conv)
    then show ?thesis ..
  next
    case (sends_running es' ss1 ns1 i w w')
    with assms(3) False have "es' = es" by (auto simp: append_eq_append_conv2 append_eq_Cons_conv)
    with sends_running show ?thesis by blast
  next
    case (sends_broken es' ss1 ns1 i w r w')
    with assms(3) False have "es' = es" by (auto simp: append_eq_append_conv2 append_eq_Cons_conv)
    with sends_broken show ?thesis by blast
  qed
  then obtain ss1 ns1 where s: "inner_sends cr p ss es ss1 ns1" "ns = ns1 @ [message_nonce (send_state ss1)]" by blast
  from inner_sends_completed [OF s(1) assms(2)] s(2) False show ?thesis by (simp add: nth_nonce_def)
qed

lemma nth_nonces_distinct:
  assumes "direction_ok (send_state ss)" and "unat (ds_sequence (send_state ss)) + n \<le> 2 ^ 64"
  shows "distinct (map (nth_nonce ss) [0..<n])"
proof -
  have "i = j" if "i < n" "j < n" "nth_nonce ss i = nth_nonce ss j" for i j
  proof -
    from that(3) assms(1) have "ds_sequence (send_state ss) + of_nat i = ds_sequence (send_state ss) + (of_nat j :: u64)"
      by (auto simp: nth_nonce_def message_nonce_def direction_ok_def dest!: make_nonce_inj seq_bytes_inj)
    with that(1,2) assms(2) show ?thesis by (simp add: word_of_nat_eq_iff take_bit_nat_eq_self)
  qed
  then show ?thesis by (auto simp: distinct_map inj_on_def)
qed

text \<open>C7: No Python program makes a session use a nonce twice. In every interleaving of sends, drops, cancellations and closes on the
  sending direction of a session, whatever its inner sends did, all the sends that were ever started, the broken one included, are
  under pairwise different nonces: there is one nonce for each, they follow the sequence numbers without wrapping, and once one send is broken
  no later step adds another.\<close>

theorem python_nonces_distinct:
  assumes "session_reachable s" and "inner_sends cr p ss (ps_log s) ss' ns" and "direction_ok (send_state ss)"
  shows "distinct ns \<and> length ns = length (filter (\<lambda>e. \<exists>i. e = InnerStarted i) (ps_log s))
    \<and> (\<forall>j < length ns. ns ! j = nth_nonce ss j)
    \<and> unat (ds_sequence (send_state ss)) + length ns \<le> 2 ^ 64
    \<and> (session_broken s \<and> session_steps s t \<longrightarrow> ps_log t = ps_log s)"
proof -
  have started: "length (filter (\<lambda>e. \<exists>i. e = InnerStarted i) es) * 2 = length es" if "completed_pairs es" for es
    using that by (induction es rule: completed_pairs.induct) auto
  from session_reachable_inv [OF assms(1)] obtain es rest where log: "ps_log s = es @ rest" "completed_pairs es"
    and rest: "rest = [] \<or> (\<exists>i. rest = [InnerStarted i]) \<or> (\<exists>i. rest = [InnerStarted i, InnerBroken i])"
    unfolding session_inv_def by (metis append_Nil2)
  from inner_sends_last [OF assms(2) [unfolded log(1)] log(2) rest] have
    ns: "ns = map (nth_nonce ss) [0..<length ns]" and bound: "unat (ds_sequence (send_state ss)) + length ns \<le> 2 ^ 64"
    and len: "length es + 2 * of_bool (rest \<noteq> []) = 2 * length ns" by auto
  have "distinct ns" using nth_nonces_distinct [OF assms(3) bound] ns by simp
  moreover have "length ns = length (filter (\<lambda>e. \<exists>i. e = InnerStarted i) (ps_log s))"
    using started [OF log(2)] len rest log(1) by auto
  moreover have "\<forall>j < length ns. ns ! j = nth_nonce ss j"
    by (subst ns) simp
  moreover have "session_broken s \<and> session_steps s t \<longrightarrow> ps_log t = ps_log s"
    using broken_frozen assms(1) by blast
  ultimately show ?thesis using bound by blast
qed

text \<open>One complete send, then one that is dropped with a part of its frame on the wire.\<close>

lemma two_send_steps:
  "session_reachable (session_new\<lparr>ps_cancelled := True, ps_calls := [CallReturned (Inr ()), CallDropped],
     ps_log := [InnerStarted 0, InnerOk 0, InnerStarted 1, InnerBroken 1]\<rparr>)"
proof -
  let ?a = "session_new\<lparr>ps_calls := [CallGate]\<rparr>"
  let ?b = "session_new\<lparr>ps_gate := True, ps_calls := [CallInner], ps_log := [InnerStarted 0]\<rparr>"
  let ?c = "session_new\<lparr>ps_calls := [CallReturned (Inr ())], ps_log := [InnerStarted 0, InnerOk 0]\<rparr>"
  let ?d = "?c\<lparr>ps_calls := [CallReturned (Inr ()), CallGate]\<rparr>"
  let ?e = "session_new\<lparr>ps_gate := True, ps_calls := [CallReturned (Inr ()), CallInner],
    ps_log := [InnerStarted 0, InnerOk 0, InnerStarted 1]\<rparr>"
  have "session_step session_new ?a"
    using session_send [of session_new "[]"] by (simp add: session_new_def send_call_def)
  moreover have "session_step ?a ?b"
    using session_resume [of 0 ?a CallGateAcquired CallInner "?a\<lparr>ps_gate := True, ps_log := [InnerStarted 0]\<rparr>"]
    by (simp add: session_new_def call_defs session_is_closed_def)
  moreover have "session_step ?b ?c"
    using session_resume [of 0 ?b "InnerReturned (Inr ())" "CallReturned (Inr ())"
        "?b\<lparr>ps_log := [InnerStarted 0, InnerOk 0], ps_gate := False\<rparr>"]
    by (simp add: session_new_def call_defs)
  moreover have "session_step ?c ?d"
    using session_send [of ?c "[]"] by (simp add: session_new_def send_call_def)
  moreover have "session_step ?d ?e"
    using session_resume [of 1 ?d CallGateAcquired CallInner
        "?d\<lparr>ps_gate := True, ps_log := [InnerStarted 0, InnerOk 0, InnerStarted 1]\<rparr>"]
    by (simp add: session_new_def call_defs session_is_closed_def)
  moreover have "session_step ?e (session_new\<lparr>ps_cancelled := True, ps_calls := [CallReturned (Inr ()), CallDropped],
     ps_log := [InnerStarted 0, InnerOk 0, InnerStarted 1, InnerBroken 1]\<rparr>)"
    using session_drop [of 1 ?e CallDropped "break_inner 1 ?e"]
    by (simp add: session_new_def break_inner_def Let_def)
  ultimately show ?thesis by (meson session_init session_next)
qed

lemma python_nonces_distinct_witness:
  "\<exists>ss' ns. inner_sends toy (\<lambda>i. [1]) demo_session [InnerStarted 0, InnerOk 0, InnerStarted 1, InnerBroken 1] ss' ns
     \<and> length ns = 2 \<and> distinct ns"
proof -
  have "\<forall>p \<in> set [[1 :: byte]]. message_ok p" by (simp add: message_ok_def size_defs MAX_FRAME_SIZE_def)
  then obtain frames where f: "seal_all toy (transcript_hash demo_session) (send_state demo_session) [[1]] = Some frames"
      "\<forall>f \<in> set frames. frame_ok f"
    using seal_all_total [OF toy_aead, of "send_state demo_session" "[[1]]"] by auto
  have "length (wire frames) \<le> net_fuel (demo_net (replicate 60 9) [])"
    using wire_length [OF toy_aead(1) f(1)] by simp
  from conn_writer.send_all_live [OF demo_net_live f this] obtain ss1 w1 where
    "send_all toy conn_send [[1]] (demo_session, demo_net (replicate 60 9) []) = (Ret (), (ss1, w1))" by blast
  then have ok: "secure_send toy conn_send [1] (demo_session, demo_net (replicate 60 9) []) = (Ret (), (ss1, w1))"
    by (simp add: and_then_Ret_iff)
  obtain r ss2 w2 where b: "secure_send toy conn_send [1] (ss1, demo_net [] []) = (r, (ss2, w2))" by (metis surj_pair)
  have neq: "r \<noteq> Ret ()"
  proof
    assume "r = Ret ()"
    with b have "secure_send toy conn_send [1] (ss1, demo_net [] []) = (Ret (), (ss2, w2))" by simp
    then show False
      by (auto simp: secure_send_def write_frame_def and_then_def conn_send_eq demo_net_def demo_core_def core_new_def
          next_socket_id_def conn_state_default_def ensure_write_available_def ensure_common_io_available_def
          core_get_stream_def os_write_def send_io_def send_done_def send_loop_def lock_write_def
          split: sum.splits prod.splits outcome.splits if_splits)
  qed
  have one: "inner_sends toy (\<lambda>i. [1]) demo_session ([] @ [InnerStarted 0, InnerOk 0]) ss1
      ([] @ [message_nonce (send_state demo_session)])"
    by (rule sends_ok [OF sends_none]) (rule ok)
  have "inner_sends toy (\<lambda>i. [1]) demo_session (([] @ [InnerStarted 0, InnerOk 0]) @ [InnerStarted 1, InnerBroken 1]) ss2
      (([] @ [message_nonce (send_state demo_session)]) @ [message_nonce (send_state ss1)])"
    by (rule sends_broken [OF one _ neq]) (rule b)
  then obtain ns where s: "inner_sends toy (\<lambda>i. [1]) demo_session [InnerStarted 0, InnerOk 0, InnerStarted 1, InnerBroken 1] ss2 ns"
    by auto
  then have "inner_sends toy (\<lambda>i. [1]) demo_session
      (ps_log (session_new\<lparr>ps_cancelled := True, ps_calls := [CallReturned (Inr ()), CallDropped],
         ps_log := [InnerStarted 0, InnerOk 0, InnerStarted 1, InnerBroken 1]\<rparr>)) ss2 ns" by simp
  from python_nonces_distinct [OF two_send_steps this] have "distinct ns" "length ns = 2" by auto
  with s show ?thesis by blast
qed

end
