(* ===== verification/Py_Duplex.thy ===== *)
theory Py_Duplex
  imports Py_Upgrade
begin

text \<open>
  A whole Python \<open>SecureConnection\<close> at work (\<open>crates/taunicorn-python/src/security.rs\<close>:
  \<open>SecureSession\<close>, its waiter, \<open>observe_cancellation\<close>, and the methods of \<open>PySecureConnection\<close>). Both directions run
  at once, each behind its own gate; they share one cancellation token and one connection. Every call is a Rust
  future with a Python future over it, and the session object is shared by the native object, the wrapper's
  slot and every future that is alive. The calls themselves are those of \<open>Py_Session\<close>: the steps below run them on
  the view that a direction has of the session.
\<close>

section \<open>State\<close>

datatype session_direction = DirSend | DirReceive

text \<open>\<open>sc_observed\<close>: the done-callback was added to the Python future.\<close>

record session_call =
  sc_pc :: call_pc
  sc_future :: py_future
  sc_observed :: bool

record session_side =
  sd_gate :: bool
  sd_calls :: "session_call list"
  sd_log :: "inner_event list"

text \<open>
  \<open>sn_native\<close>: the native object is alive; \<open>sn_wrapper\<close>: the slot of its \<open>Connection\<close> holds the session;
  \<open>sn_closers\<close>: the futures of \<open>close\<close> that have not run; \<open>sn_waiter\<close>: the background task of the session waits.
\<close>

record secure_session =
  sn_cancelled :: bool
  sn_raw :: raw_state
  sn_send :: session_side
  sn_receive :: session_side
  sn_native :: bool
  sn_wrapper :: bool
  sn_closers :: nat
  sn_waiter :: bool

definition side_new :: session_side where
  "side_new = \<lparr>sd_gate = False, sd_calls = [], sd_log = []\<rparr>"

definition secure_session_new :: secure_session where
  "secure_session_new =
     \<lparr>sn_cancelled = False, sn_raw = RawOpen, sn_send = side_new, sn_receive = side_new,
      sn_native = True, sn_wrapper = True, sn_closers = 0, sn_waiter = True\<rparr>"

definition side :: "session_direction \<Rightarrow> secure_session \<Rightarrow> session_side" where
  "side d s = (case d of DirSend \<Rightarrow> sn_send s | DirReceive \<Rightarrow> sn_receive s)"

definition set_side :: "session_direction \<Rightarrow> session_side \<Rightarrow> secure_session \<Rightarrow> secure_session" where
  "set_side d x s = (case d of DirSend \<Rightarrow> s\<lparr>sn_send := x\<rparr> | DirReceive \<Rightarrow> s\<lparr>sn_receive := x\<rparr>)"

definition the_call :: "session_direction \<Rightarrow> nat \<Rightarrow> secure_session \<Rightarrow> session_call" where
  "the_call d i s = sd_calls (side d s) ! i"

definition set_session_call :: "session_direction \<Rightarrow> nat \<Rightarrow> session_call \<Rightarrow> secure_session \<Rightarrow> secure_session" where
  "set_session_call d i c s = set_side d ((side d s)\<lparr>sd_calls := (sd_calls (side d s))[i := c]\<rparr>) s"

definition cancel_session :: "secure_session \<Rightarrow> secure_session" where
  "cancel_session s = s\<lparr>sn_cancelled := True\<rparr>"

text \<open>What one direction sees of the session, and the session after a step on that view.\<close>

definition session_view :: "session_direction \<Rightarrow> secure_session \<Rightarrow> py_session" where
  "session_view d s =
     \<lparr>ps_cancelled = sn_cancelled s, ps_conn_closed = (sn_raw s \<noteq> RawOpen), ps_gate = sd_gate (side d s),
      ps_calls = map sc_pc (sd_calls (side d s)), ps_log = sd_log (side d s)\<rparr>"

definition session_put ::
  "session_direction \<Rightarrow> nat \<Rightarrow> call_pc \<Rightarrow> py_session \<Rightarrow> secure_session \<Rightarrow> secure_session" where
  "session_put d i p v s =
     set_side d
       ((side d s)\<lparr>sd_gate := ps_gate v, sd_log := ps_log v,
                   sd_calls := (sd_calls (side d s))[i := (the_call d i s)\<lparr>sc_pc := p\<rparr>]\<rparr>)
       (s\<lparr>sn_cancelled := ps_cancelled v\<rparr>)"

definition sn_is_closed :: "secure_session \<Rightarrow> bool" where
  "sn_is_closed s \<longleftrightarrow> sn_cancelled s \<or> sn_raw s \<noteq> RawOpen"

section \<open>Who holds the session\<close>

fun pc_finished :: "call_pc \<Rightarrow> bool" where
  "pc_finished (CallReturned r) = True"
| "pc_finished CallDropped = True"
| "pc_finished _ = False"

definition session_held :: "secure_session \<Rightarrow> bool" where
  "session_held s \<longleftrightarrow>
     sn_native s \<or> sn_wrapper s \<or> 0 < sn_closers s
     \<or> (\<exists>c \<in> set (sd_calls (sn_send s)). \<not> pc_finished (sc_pc c))
     \<or> (\<exists>c \<in> set (sd_calls (sn_receive s)). \<not> pc_finished (sc_pc c))"

text \<open>
  \<open>Drop for SecureSession\<close>, when its last holder lets go: the token is cancelled, then the fields go, the
  connection with them.
\<close>

definition release_session :: "secure_session \<Rightarrow> secure_session" where
  "release_session s =
     (if session_held s then s
      else (cancel_session s)\<lparr>sn_raw := (if sn_raw s = RawOpen then RawDropped else sn_raw s)\<rparr>)"

section \<open>Calls\<close>

text \<open>
  \<open>send\<close> and \<open>receive\<close> up to the Python future: the size check, the running loop, the conversion of the Rust future
  (dropped before its first poll when it fails). \<open>plaintext\<close> is \<open>None\<close> for a \<open>receive\<close>.
\<close>

definition begin_call ::
  "bytes option \<Rightarrow> py_err + unit \<Rightarrow> py_err + unit \<Rightarrow> secure_session \<Rightarrow> (py_err + nat) \<times> secure_session" where
  "begin_call plaintext locals spawned s =
     (let d = (if plaintext = None then DirReceive else DirSend);
          p = (case plaintext of None \<Rightarrow> receive_call (session_view d s) | Some b \<Rightarrow> send_call b (session_view d s)) in
      case p of
        CallReturned (Inl e) \<Rightarrow> (Inl e, s)
      | _ \<Rightarrow>
          (case try_result locals (\<lambda>_. spawned) of
             Inl e \<Rightarrow> (Inl e, s)
           | Inr _ \<Rightarrow>
               (Inr (length (sd_calls (side d s))),
                set_side d ((side d s)\<lparr>sd_calls := sd_calls (side d s)
                  @ [\<lparr>sc_pc = p, sc_future = FuturePending, sc_observed = False\<rparr>]\<rparr>) s)))"

text \<open>
  \<open>observe_cancellation\<close> on the call's future: an armed guard cancels the token when the callback object
  cannot be made or added; in the second case the Python future is cancelled, too.
\<close>

definition observe_call ::
  "session_direction \<Rightarrow> nat \<Rightarrow> py_err + unit \<Rightarrow> py_err + unit \<Rightarrow> secure_session \<Rightarrow> secure_session" where
  "observe_call d i callback added s =
     (let c = the_call d i s in
      case callback of
        Inl e \<Rightarrow> cancel_session s
      | Inr _ \<Rightarrow>
          (case added of
             Inl e \<Rightarrow>
               cancel_session
                 (if sc_future c = FuturePending then set_session_call d i (c\<lparr>sc_future := FutureCancelled\<rparr>) s else s)
           | Inr _ \<Rightarrow> set_session_call d i (c\<lparr>sc_observed := True\<rparr>) s))"

definition poll_call :: "session_direction \<Rightarrow> nat \<Rightarrow> call_event \<Rightarrow> secure_session \<Rightarrow> secure_session option" where
  "poll_call d i ev s =
     (case call_poll i (sc_pc (the_call d i s)) ev (session_view d s) of
        None \<Rightarrow> None
      | Some (p, v) \<Rightarrow> Some (release_session (session_put d i p v s)))"

definition drop_call :: "session_direction \<Rightarrow> nat \<Rightarrow> secure_session \<Rightarrow> secure_session option" where
  "drop_call d i s =
     (if pc_finished (sc_pc (the_call d i s)) then None
      else (case call_drop i (sc_pc (the_call d i s)) (session_view d s) of
              (p, v) \<Rightarrow> Some (release_session (session_put d i p v s))))"

text \<open>The link between the two futures of a call, as in \<open>Py_Upgrade\<close>.\<close>

definition deliver_call :: "session_direction \<Rightarrow> nat \<Rightarrow> secure_session \<Rightarrow> secure_session option" where
  "deliver_call d i s =
     (let c = the_call d i s in
      case sc_pc c of
        CallReturned r \<Rightarrow>
          if sc_future c = FuturePending then Some (set_session_call d i (c\<lparr>sc_future := FutureResolved r\<rparr>) s) else None
      | _ \<Rightarrow> None)"

definition cancel_call :: "session_direction \<Rightarrow> nat \<Rightarrow> secure_session \<Rightarrow> secure_session option" where
  "cancel_call d i s =
     (let c = the_call d i s in
      if sc_future c = FuturePending then Some (set_session_call d i (c\<lparr>sc_future := FutureCancelled\<rparr>) s) else None)"

text \<open>\<open>CancelOnPythonCancellation::__call__\<close>, which runs once the future is done.\<close>

definition call_callback :: "session_direction \<Rightarrow> nat \<Rightarrow> secure_session \<Rightarrow> secure_session option" where
  "call_callback d i s =
     (let c = the_call d i s in
      if \<not> sc_observed c \<or> sc_future c = FuturePending then None
      else Some (if sc_future c = FutureCancelled then cancel_session s else s))"

section \<open>Ending the session\<close>

definition session_abort :: "secure_session \<Rightarrow> secure_session" where
  "session_abort s = cancel_session s"

text \<open>
  \<open>close\<close> of the native object, and of its \<open>Connection\<close> once that is secured: without a running loop
  nothing happens; with one the token is cancelled before the future that closes the connection is made.
\<close>

definition session_close :: "py_err + unit \<Rightarrow> py_err + unit \<Rightarrow> secure_session \<Rightarrow> (py_err + unit) \<times> secure_session" where
  "session_close locals spawned s =
     (case locals of
        Inl e \<Rightarrow> (Inl e, s)
      | Inr _ \<Rightarrow>
          (let s = cancel_session s in
           case spawned of
             Inl e \<Rightarrow> (Inl e, s)
           | Inr _ \<Rightarrow> (Inr (), s\<lparr>sn_closers := Suc (sn_closers s)\<rparr>)))"

definition close_inner :: "secure_session \<Rightarrow> secure_session" where
  "close_inner s = s\<lparr>sn_raw := (if sn_raw s = RawOpen then RawClosed else sn_raw s)\<rparr>"

definition run_closer :: "secure_session \<Rightarrow> secure_session option" where
  "run_closer s =
     (if sn_closers s = 0 then None
      else Some (release_session ((close_inner s)\<lparr>sn_closers := sn_closers s - 1\<rparr>)))"

definition drop_closer :: "secure_session \<Rightarrow> secure_session option" where
  "drop_closer s =
     (if sn_closers s = 0 then None else Some (release_session (s\<lparr>sn_closers := sn_closers s - 1\<rparr>)))"

text \<open>The waiter that \<open>SecureSession::new\<close> spawns: it holds the session weakly until the token is cancelled.\<close>

definition run_waiter :: "secure_session \<Rightarrow> secure_session option" where
  "run_waiter s =
     (if sn_waiter s \<and> sn_cancelled s
      then Some ((if session_held s then close_inner s else s)\<lparr>sn_waiter := False\<rparr>) else None)"

text \<open>\<open>Drop for PySecureConnection\<close>; the native object keeps its \<open>Connection\<close>, so that goes after it.\<close>

definition release_native :: "secure_session \<Rightarrow> secure_session option" where
  "release_native s =
     (if sn_native s then Some (release_session (cancel_session (s\<lparr>sn_native := False\<rparr>))) else None)"

definition release_wrapper :: "secure_session \<Rightarrow> secure_session option" where
  "release_wrapper s =
     (if sn_wrapper s \<and> \<not> sn_native s then Some (release_session (s\<lparr>sn_wrapper := False\<rparr>)) else None)"

section \<open>Any interleaving\<close>

text \<open>\<open>ConnFails\<close>: the connection is closed under the session, by the peer or by an error.\<close>

datatype duplex_action =
  BeginCall "bytes option" "py_err + unit" "py_err + unit"
| ObserveCall session_direction nat "py_err + unit" "py_err + unit"
| PollCall session_direction nat call_event
| DropCall session_direction nat
| DeliverCall session_direction nat
| CancelCall session_direction nat
| CallbackCall session_direction nat
| SessionAbort
| SessionClose "py_err + unit" "py_err + unit"
| RunCloser
| DropCloser
| RunWaiter
| ReleaseNative
| ReleaseWrapper
| ConnFails

definition on_call ::
  "(session_direction \<Rightarrow> nat \<Rightarrow> secure_session \<Rightarrow> secure_session option)
     \<Rightarrow> session_direction \<Rightarrow> nat \<Rightarrow> secure_session \<Rightarrow> secure_session option" where
  "on_call f d i s = (if i < length (sd_calls (side d s)) then f d i s else None)"

fun duplex_step :: "secure_session \<Rightarrow> duplex_action \<Rightarrow> secure_session option" where
  "duplex_step s (BeginCall plaintext locals spawned) =
     (if sn_native s then Some (snd (begin_call plaintext locals spawned s)) else None)"
| "duplex_step s (ObserveCall d i callback added) = on_call (\<lambda>d i s. Some (observe_call d i callback added s)) d i s"
| "duplex_step s (PollCall d i ev) = on_call (\<lambda>d i s. poll_call d i ev s) d i s"
| "duplex_step s (DropCall d i) = on_call drop_call d i s"
| "duplex_step s (DeliverCall d i) = on_call deliver_call d i s"
| "duplex_step s (CancelCall d i) = on_call cancel_call d i s"
| "duplex_step s (CallbackCall d i) = on_call call_callback d i s"
| "duplex_step s SessionAbort = (if sn_native s then Some (session_abort s) else None)"
| "duplex_step s (SessionClose locals spawned) =
     (if sn_native s \<or> sn_wrapper s then Some (snd (session_close locals spawned s)) else None)"
| "duplex_step s RunCloser = run_closer s"
| "duplex_step s DropCloser = drop_closer s"
| "duplex_step s RunWaiter = run_waiter s"
| "duplex_step s ReleaseNative = release_native s"
| "duplex_step s ReleaseWrapper = release_wrapper s"
| "duplex_step s ConnFails = Some (close_inner s)"

fun duplex_run :: "secure_session \<Rightarrow> duplex_action list \<Rightarrow> secure_session option" where
  "duplex_run s [] = Some s"
| "duplex_run s (a # as) = (case duplex_step s a of None \<Rightarrow> None | Some t \<Rightarrow> duplex_run t as)"

end
