(* ===== verification/Duplex_Props.thy ===== *)
theory Duplex_Props
  imports Py_Duplex
begin

text \<open>
  What a whole Python session guarantees: each direction is a run of \<open>Py_Session\<close>, so its order of operations holds
  with both directions, the closing task and every holder at work; the end of one direction is the end of the
  other; and a session that is let go of winds down by steps of the runtime alone.
\<close>

section \<open>Runs of one direction\<close>

lemma session_steps_trans: "session_steps t u \<Longrightarrow> session_steps s t \<Longrightarrow> session_steps s u"
  by (induction rule: session_steps.induct) (auto intro: session_steps.intros)

lemma session_steps_one: "session_step s t \<Longrightarrow> session_steps s t"
  by (blast intro: session_steps.intros)

text \<open>A step on one call changes neither the connection nor the other calls, and never takes a cancellation back.\<close>

lemma call_poll_frame:
  "call_poll i p ev v = Some (q, w) \<Longrightarrow> ps_conn_closed w = ps_conn_closed v \<and> ps_calls w = ps_calls v
     \<and> (ps_cancelled v \<longrightarrow> ps_cancelled w)"
  by (cases p) (auto simp: call_defs break_inner_def split: call_event.splits if_splits sum.splits)

lemma call_drop_frame:
  "call_drop i p v = (q, w) \<Longrightarrow> ps_conn_closed w = ps_conn_closed v \<and> ps_calls w = ps_calls v
     \<and> (ps_cancelled v \<longrightarrow> ps_cancelled w)"
  by (cases p) (auto simp: break_inner_def Let_def)

section \<open>The view of a direction\<close>

lemma side_set [simp]:
  "side d (set_side d' x s) = (if d = d' then x else side d s)"
  "sn_cancelled (set_side d x s) = sn_cancelled s" "sn_raw (set_side d x s) = sn_raw s"
  "sn_native (set_side d x s) = sn_native s" "sn_wrapper (set_side d x s) = sn_wrapper s"
  "sn_closers (set_side d x s) = sn_closers s" "sn_waiter (set_side d x s) = sn_waiter s"
  by (cases d; cases d'; simp add: side_def set_side_def)+

lemma side_update [simp]:
  "side d (s\<lparr>sn_cancelled := b\<rparr>) = side d s" "side d (s\<lparr>sn_raw := r\<rparr>) = side d s"
  "side d (s\<lparr>sn_native := b\<rparr>) = side d s" "side d (s\<lparr>sn_wrapper := b\<rparr>) = side d s"
  "side d (s\<lparr>sn_closers := n\<rparr>) = side d s" "side d (s\<lparr>sn_waiter := b\<rparr>) = side d s"
  by (cases d; simp add: side_def)+

lemma session_held_side:
  "session_held s \<longleftrightarrow> sn_native s \<or> sn_wrapper s \<or> 0 < sn_closers s
     \<or> (\<exists>d. \<exists>c \<in> set (sd_calls (side d s)). \<not> pc_finished (sc_pc c))"
proof -
  have "(\<exists>d. P (side d s)) \<longleftrightarrow> P (sn_send s) \<or> P (sn_receive s)" for P
    unfolding side_def by (metis session_direction.exhaust session_direction.simps(3,4))
  from this [of "\<lambda>x. \<exists>c \<in> set (sd_calls x). \<not> pc_finished (sc_pc c)"] show ?thesis by (simp add: session_held_def)
qed

lemma cancel_session_sides [simp]:
  "side d (cancel_session s) = side d s" "sn_cancelled (cancel_session s)" "sn_raw (cancel_session s) = sn_raw s"
  "sn_waiter (cancel_session s) = sn_waiter s" "session_held (cancel_session s) = session_held s"
  by (simp_all add: cancel_session_def session_held_side)

lemma close_inner_sides [simp]:
  "side d (close_inner s) = side d s" "sn_cancelled (close_inner s) = sn_cancelled s"
  "sn_raw (close_inner s) \<noteq> RawOpen" "sn_waiter (close_inner s) = sn_waiter s"
  "session_held (close_inner s) = session_held s"
  by (simp_all add: close_inner_def session_held_side)

lemma release_session_sides [simp]:
  "side d (release_session s) = side d s" "sn_cancelled s \<Longrightarrow> sn_cancelled (release_session s)"
  "sn_waiter (release_session s) = sn_waiter s" "session_held (release_session s) = session_held s"
  by (simp_all add: release_session_def session_held_side cancel_session_def)

definition ends_quietly :: "secure_session \<Rightarrow> secure_session \<Rightarrow> bool" where
  "ends_quietly s t \<longleftrightarrow> (\<forall>d. side d t = side d s) \<and> (sn_cancelled s \<longrightarrow> sn_cancelled t)
     \<and> (sn_raw s \<noteq> RawOpen \<longrightarrow> sn_raw t \<noteq> RawOpen)"

lemma ends_quietly_intros [simp, intro]:
  "ends_quietly s s" "ends_quietly s (cancel_session s)" "ends_quietly s (close_inner s)"
  "ends_quietly s (release_session s)" "ends_quietly s (s\<lparr>sn_native := b\<rparr>)" "ends_quietly s (s\<lparr>sn_wrapper := b\<rparr>)"
  "ends_quietly s (s\<lparr>sn_closers := n\<rparr>)" "ends_quietly s (s\<lparr>sn_waiter := b\<rparr>)"
  by (auto simp: ends_quietly_def release_session_def)

lemma ends_quietly_trans: "ends_quietly s t \<Longrightarrow> ends_quietly t u \<Longrightarrow> ends_quietly s u"
  by (simp add: ends_quietly_def)

lemma ends_quietly_view:
  assumes "ends_quietly s t"
  shows "session_steps (session_view d s) (session_view d t)"
proof -
  let ?v = "session_view d s"
  let ?w = "if sn_cancelled t then ?v\<lparr>ps_cancelled := True\<rparr> else ?v"
  have "session_steps ?v ?w" using session_steps_one [OF session_cancel] steps_refl by simp
  moreover have "session_steps w (if sn_raw t = RawOpen then w else w\<lparr>ps_conn_closed := True\<rparr>)" for w
    using session_steps_one [OF session_conn_closed] steps_refl by simp
  moreover have "(if sn_raw t = RawOpen then ?w else ?w\<lparr>ps_conn_closed := True\<rparr>) = session_view d t"
    using assms by (auto simp: ends_quietly_def session_view_def)
  ultimately show ?thesis using session_steps_trans [of ?w "session_view d t" ?v] by metis
qed

lemma map_update_same:
  assumes "i < length xs \<Longrightarrow> f x = f (xs ! i)"
  shows "map f (xs[i := x]) = map f xs"
proof (cases "i < length xs")
  case True
  then have "(map f xs)[i := f x] = map f xs" using assms list_update_id [of "map f xs" i] by simp
  then show ?thesis by (simp add: map_update)
qed (simp add: list_update_beyond)

lemma session_call_view [simp]:
  "session_view d (set_session_call d' i ((the_call d' i s)\<lparr>sc_future := f\<rparr>) s) = session_view d s"
  "session_view d (set_session_call d' i ((the_call d' i s)\<lparr>sc_observed := b\<rparr>) s) = session_view d s"
  by (simp_all add: session_view_def set_session_call_def the_call_def map_update_same)

lemma session_put_view:
  "session_view d (session_put d i p w s) =
     \<lparr>ps_cancelled = ps_cancelled w, ps_conn_closed = ps_conn_closed (session_view d s), ps_gate = ps_gate w,
      ps_calls = (ps_calls (session_view d s))[i := p], ps_log = ps_log w\<rparr>"
  "d' \<noteq> d \<Longrightarrow> session_view d' (session_put d i p w s) = (session_view d' s)\<lparr>ps_cancelled := ps_cancelled w\<rparr>"
  by (simp_all add: session_view_def session_put_def map_update)

lemma session_put_steps:
  assumes step: "session_step (session_view d s) (w\<lparr>ps_calls := (ps_calls (session_view d s))[i := p]\<rparr>)"
    and frame: "ps_conn_closed w = ps_conn_closed (session_view d s)" "sn_cancelled s \<longrightarrow> ps_cancelled w"
  shows "session_steps (session_view d' s) (session_view d' (session_put d i p w s))"
proof (cases "d' = d")
  case True
  have "session_view d (session_put d i p w s) = w\<lparr>ps_calls := (ps_calls (session_view d s))[i := p]\<rparr>"
    using frame(1) by (simp add: session_put_view(1))
  with True step show ?thesis by (simp add: session_steps_one)
next
  case False
  have "session_steps v (v\<lparr>ps_cancelled := ps_cancelled w\<rparr>)" if "ps_cancelled v = sn_cancelled s" for v
    using that frame(2) session_cancel [of v]
    by (cases "ps_cancelled w"; cases v) (auto intro: session_steps_one steps_refl)
  from this [of "session_view d' s"] False show ?thesis by (simp add: session_put_view(2)) (simp add: session_view_def)
qed

lemma begin_call_view:
  "session_steps (session_view d s) (session_view d (snd (begin_call plaintext locals spawned s)))"
proof -
  let ?d = "if plaintext = None then DirReceive else DirSend"
  let ?p = "case plaintext of None \<Rightarrow> receive_call (session_view ?d s) | Some b \<Rightarrow> send_call b (session_view ?d s)"
  let ?t = "set_side ?d ((side ?d s)\<lparr>sd_calls := sd_calls (side ?d s)
                  @ [\<lparr>sc_pc = ?p, sc_future = FuturePending, sc_observed = False\<rparr>]\<rparr>) s"
  have "snd (begin_call plaintext locals spawned s) = s \<or> snd (begin_call plaintext locals spawned s) = ?t"
    by (auto simp: begin_call_def Let_def split: call_pc.split sum.split)
  moreover have "session_steps (session_view d s) (session_view d ?t)"
  proof (cases "d = ?d")
    case True
    have "session_step (session_view ?d s) ((session_view ?d s)\<lparr>ps_calls := ps_calls (session_view ?d s) @ [?p]\<rparr>)"
      by (cases plaintext) (auto intro: session_step.intros)
    moreover have "session_view ?d ?t = (session_view ?d s)\<lparr>ps_calls := ps_calls (session_view ?d s) @ [?p]\<rparr>"
      by (simp add: session_view_def)
    ultimately show ?thesis using True by (simp add: session_steps_one)
  next
    case False
    then have "session_view d ?t = session_view d s" by (simp add: session_view_def)
    then show ?thesis by (simp add: steps_refl)
  qed
  ultimately show ?thesis by (auto intro: steps_refl)
qed

lemma poll_call_view:
  assumes "poll_call d i ev s = Some t" and "i < length (sd_calls (side d s))"
  shows "session_steps (session_view d' s) (session_view d' t)"
proof -
  let ?v = "session_view d s"
  from assms(1) obtain p w where w: "call_poll i (sc_pc (the_call d i s)) ev ?v = Some (p, w)"
    and t: "t = release_session (session_put d i p w s)" by (auto simp: poll_call_def split: option.splits)
  have v: "i < length (ps_calls ?v)" "ps_calls ?v ! i = sc_pc (the_call d i s)" "ps_cancelled ?v = sn_cancelled s"
    using assms(2) by (simp_all add: session_view_def the_call_def)
  have "session_step ?v (w\<lparr>ps_calls := (ps_calls ?v)[i := p]\<rparr>)" using session_resume [of i ?v ev p w] w v by simp
  moreover have "ps_conn_closed w = ps_conn_closed ?v" "sn_cancelled s \<longrightarrow> ps_cancelled w"
    using call_poll_frame [OF w] v(3) by simp_all
  ultimately have "session_steps (session_view d' s) (session_view d' (session_put d i p w s))" by (rule session_put_steps)
  moreover have "session_steps (session_view d' (session_put d i p w s)) (session_view d' t)"
    unfolding t by (rule ends_quietly_view) simp
  ultimately show ?thesis using session_steps_trans by blast
qed

lemma drop_call_view:
  assumes "drop_call d i s = Some t" and "i < length (sd_calls (side d s))"
  shows "session_steps (session_view d' s) (session_view d' t)"
proof -
  let ?v = "session_view d s"
  obtain p w where w: "call_drop i (sc_pc (the_call d i s)) ?v = (p, w)" by fastforce
  with assms(1) have t: "t = release_session (session_put d i p w s)" by (auto simp: drop_call_def split: if_splits)
  have v: "i < length (ps_calls ?v)" "ps_calls ?v ! i = sc_pc (the_call d i s)" "ps_cancelled ?v = sn_cancelled s"
    using assms(2) by (simp_all add: session_view_def the_call_def)
  have "session_step ?v (w\<lparr>ps_calls := (ps_calls ?v)[i := p]\<rparr>)" using session_drop [of i ?v p w] w v by simp
  moreover have "ps_conn_closed w = ps_conn_closed ?v" "sn_cancelled s \<longrightarrow> ps_cancelled w"
    using call_drop_frame [OF w] v(3) by simp_all
  ultimately have "session_steps (session_view d' s) (session_view d' (session_put d i p w s))" by (rule session_put_steps)
  moreover have "session_steps (session_view d' (session_put d i p w s)) (session_view d' t)"
    unfolding t by (rule ends_quietly_view) simp
  ultimately show ?thesis using session_steps_trans by blast
qed

lemma ends_quietly_more:
  "ends_quietly s (release_session ((close_inner s)\<lparr>sn_closers := n\<rparr>))"
  "ends_quietly s (release_session (s\<lparr>sn_closers := n\<rparr>))"
  "ends_quietly s ((cancel_session s)\<lparr>sn_closers := n\<rparr>)"
  "ends_quietly s ((close_inner s)\<lparr>sn_waiter := b\<rparr>)"
  "ends_quietly s (release_session (cancel_session (s\<lparr>sn_native := b\<rparr>)))"
  "ends_quietly s (release_session (s\<lparr>sn_wrapper := b\<rparr>))"
  by (auto simp: ends_quietly_def release_session_def)

fun quiet_action :: "duplex_action \<Rightarrow> bool" where
  "quiet_action SessionAbort = True"
| "quiet_action (SessionClose locals spawned) = True"
| "quiet_action RunCloser = True"
| "quiet_action DropCloser = True"
| "quiet_action RunWaiter = True"
| "quiet_action ReleaseNative = True"
| "quiet_action ReleaseWrapper = True"
| "quiet_action ConnFails = True"
| "quiet_action a = False"

lemma quiet_step: "duplex_step s a = Some t \<Longrightarrow> quiet_action a \<Longrightarrow> ends_quietly s t"
proof (cases a)
  case (SessionClose locals spawned)
  assume "duplex_step s a = Some t" "quiet_action a"
  with SessionClose show ?thesis
    by (cases locals; cases spawned) (auto simp: session_close_def Let_def ends_quietly_more split: if_splits)
qed (auto simp: session_abort_def run_closer_def drop_closer_def run_waiter_def release_native_def release_wrapper_def
    ends_quietly_more split: if_splits)

lemma observe_call_view: "session_steps (session_view d s) (session_view d (observe_call d' i callback added s))"
proof -
  let ?c = "the_call d' i s"
  let ?u = "if sc_future ?c = FuturePending then set_session_call d' i (?c\<lparr>sc_future := FutureCancelled\<rparr>) s else s"
  have "session_steps (session_view d ?u) (session_view d (cancel_session ?u))" for u by (rule ends_quietly_view) simp
  then have "session_steps (session_view d s) (session_view d (cancel_session ?u))" by (simp split: if_splits)
  moreover have "session_steps (session_view d s) (session_view d (cancel_session s))" by (rule ends_quietly_view) simp
  ultimately show ?thesis by (auto simp: observe_call_def Let_def steps_refl split: sum.split)
qed

lemma duplex_step_view:
  assumes "duplex_step s a = Some t"
  shows "session_steps (session_view d s) (session_view d t)"
proof (cases a)
  case (BeginCall plaintext locals spawned)
  with assms begin_call_view show ?thesis by (auto split: if_splits)
next
  case (ObserveCall d' i callback added)
  with assms observe_call_view show ?thesis by (auto simp: on_call_def split: if_splits)
next
  case (PollCall d' i ev)
  with assms poll_call_view show ?thesis by (auto simp: on_call_def split: if_splits)
next
  case (DropCall d' i)
  with assms drop_call_view show ?thesis by (auto simp: on_call_def split: if_splits)
next
  case (DeliverCall d' i)
  with assms show ?thesis
    by (auto simp: on_call_def deliver_call_def Let_def steps_refl split: if_splits call_pc.splits)
next
  case (CancelCall d' i)
  with assms show ?thesis by (auto simp: on_call_def cancel_call_def Let_def steps_refl split: if_splits)
next
  case (CallbackCall d' i)
  with assms ends_quietly_view [of s "cancel_session s" d] show ?thesis
    by (auto simp: on_call_def call_callback_def Let_def steps_refl split: if_splits)
next
qed (use quiet_step [OF assms] ends_quietly_view in auto)

lemma duplex_run_view: "duplex_run s as = Some t \<Longrightarrow> session_steps (session_view d s) (session_view d t)"
proof (induction s as rule: duplex_run.induct)
  case (2 s a as)
  then show ?case by (auto split: option.splits intro: session_steps_trans dest: duplex_step_view)
qed (simp add: steps_refl)

lemma duplex_start_view: "session_view d secure_session_new = session_new"
  by (cases d) (simp_all add: session_view_def secure_session_new_def session_new_def side_def side_new_def)

lemma duplex_reachable: "duplex_run secure_session_new as = Some s \<Longrightarrow> session_reachable (session_view d s)"
  using duplex_run_view session_steps_reachable session_init duplex_start_view by metis

section \<open>After the token\<close>

text \<open>Once the token is cancelled a direction can only lose the operation that is running.\<close>

definition winds_down :: "inner_event list \<Rightarrow> inner_event list \<Rightarrow> bool" where
  "winds_down es es' \<longleftrightarrow> es' = es \<or> (\<exists>i past. es = past @ [InnerStarted i] \<and> es' = es @ [InnerBroken i])"

lemma cancelled_step:
  assumes "session_step s t" and "session_inv s" and "ps_cancelled s"
  shows "ps_cancelled t \<and> winds_down (ps_log s) (ps_log t)"
  using assms(1)
proof cases
  case (session_resume i ev p w)
  show ?thesis
  proof (cases "ps_calls s ! i = CallInner")
    case True
    from session_inv_inner [OF assms(2) session_resume(2) True] obtain past where "ps_log s = past @ [InnerStarted i]" by metis
    with session_resume(1,3) True assms(3) show ?thesis
      by (auto simp: call_defs break_inner_def winds_down_def split: call_event.splits)
  next
    case False
    with broken_gate_poll [OF assms(3) False session_resume(3)] session_resume(1) assms(3) show ?thesis
      by (simp add: winds_down_def)
  qed
next
  case (session_drop i p w)
  show ?thesis
  proof (cases "ps_calls s ! i = CallInner")
    case True
    from session_inv_inner [OF assms(2) session_drop(2) True] obtain past where "ps_log s = past @ [InnerStarted i]" by metis
    with session_drop(1,3) True show ?thesis by (auto simp: break_inner_def Let_def winds_down_def)
  next
    case False
    with session_drop assms(3) show ?thesis by (cases "ps_calls s ! i") (auto simp: winds_down_def)
  qed
qed (use assms(3) in \<open>auto simp: winds_down_def\<close>)

lemma cancelled_steps:
  "session_steps s t \<Longrightarrow> session_reachable s \<Longrightarrow> ps_cancelled s
     \<Longrightarrow> ps_cancelled t \<and> winds_down (ps_log s) (ps_log t)"
proof (induction rule: session_steps.induct)
  case (steps_refl s)
  then show ?case by (simp add: winds_down_def)
next
  case (steps_more s t u)
  then have ih: "ps_cancelled t" "winds_down (ps_log s) (ps_log t)" by simp_all
  have inv: "session_inv t" using steps_more session_steps_reachable session_reachable_inv by blast
  show ?case
  proof (cases "ps_log t = ps_log s")
    case True
    with cancelled_step [OF steps_more.hyps(2) inv ih(1)] show ?thesis by simp
  next
    case False
    with ih(2) have "session_broken t" by (auto simp: winds_down_def session_broken_def)
    with broken_frozen_step [OF steps_more.hyps(2) inv] cancelled_step [OF steps_more.hyps(2) inv ih(1)] ih(2)
    show ?thesis by simp
  qed
qed

text \<open>A call that had not finished by then, or that was made later, can only end with an error of the binding.\<close>

definition ends_closed :: "call_pc list \<Rightarrow> call_pc list \<Rightarrow> bool" where
  "ends_closed cs cs' \<longleftrightarrow> length cs \<le> length cs'
     \<and> (\<forall>j < length cs'. \<forall>r. cs' ! j = CallReturned r \<longrightarrow> (j < length cs \<longrightarrow> \<not> pc_finished (cs ! j))
          \<longrightarrow> r \<in> {Inl session_closed_error, Inl plaintext_size_error})"

lemma ends_closed_append:
  "ends_closed cs cs' \<Longrightarrow> (\<And>r. p = CallReturned r \<Longrightarrow> r = Inl plaintext_size_error) \<Longrightarrow> ends_closed cs (cs' @ [p])"
  by (auto simp: ends_closed_def nth_append less_Suc_eq)

lemma ends_closed_update:
  assumes "ends_closed cs cs'" and "\<And>r. p = CallReturned r \<Longrightarrow> r = Inl session_closed_error \<or> cs' ! i = p"
  shows "ends_closed cs (cs'[i := p])"
  unfolding ends_closed_def
proof (intro conjI allI impI)
  fix j r
  assume j: "j < length (cs'[i := p])" "cs'[i := p] ! j = CallReturned r" "j < length cs \<longrightarrow> \<not> pc_finished (cs ! j)"
  show "r \<in> {Inl session_closed_error, Inl plaintext_size_error}"
  proof (cases "j = i \<and> cs' ! j \<noteq> p")
    case True
    with j assms(2) show ?thesis by auto
  next
    case False
    with j have "cs' ! j = CallReturned r" by (cases "j = i") auto
    with j assms(1) show ?thesis by (simp add: ends_closed_def)
  qed
qed (use assms(1) in \<open>simp add: ends_closed_def\<close>)

lemma cancelled_poll:
  "ps_cancelled s \<Longrightarrow> call_poll i p ev s = Some (q, t) \<Longrightarrow> q = CallReturned (Inl session_closed_error)"
  by (cases p) (auto simp: call_defs split: call_event.splits)

lemma cancelled_results:
  "session_steps s t \<Longrightarrow> session_reachable s \<Longrightarrow> ps_cancelled s \<Longrightarrow> ends_closed (ps_calls s) (ps_calls t)"
proof (induction rule: session_steps.induct)
  case (steps_refl s)
  then show ?case by (auto simp: ends_closed_def)
next
  case (steps_more s t u)
  then have ih: "ends_closed (ps_calls s) (ps_calls t)" by simp
  have c: "ps_cancelled t" using cancelled_steps [OF steps_more.hyps(1)] steps_more.prems by blast
  from steps_more.hyps(2) show ?case
  proof cases
    case (session_send plaintext)
    with ih show ?thesis by (auto simp: send_call_def intro!: ends_closed_append)
  next
    case session_receive
    with ih show ?thesis by (auto simp: receive_call_def intro!: ends_closed_append)
  next
    case (session_resume i ev p w)
    with ih cancelled_poll [OF c session_resume(3)] show ?thesis by (auto intro!: ends_closed_update)
  next
    case (session_drop i p w)
    then have "p = CallReturned r \<Longrightarrow> ps_calls t ! i = p" for r by (cases "ps_calls t ! i") auto
    with session_drop ih show ?thesis by (auto intro!: ends_closed_update)
  qed (use ih in simp_all)
qed

section \<open>What a finished call says\<close>

text \<open>A call returned \<open>Ok\<close> exactly when its inner operation did.\<close>

definition results_inv :: "py_session \<Rightarrow> bool" where
  "results_inv s \<longleftrightarrow> (\<forall>j. InnerOk j \<in> set (ps_log s) \<longleftrightarrow> j < length (ps_calls s) \<and> ps_calls s ! j = CallReturned (Inr ()))"

lemma results_inv_update:
  assumes "results_inv s" and "i < length (ps_calls s)" and "ps_calls s ! i \<noteq> CallReturned (Inr ())"
    and "set (ps_log t) \<inter> range InnerOk = set (ps_log s) \<inter> range InnerOk \<union> (if p = CallReturned (Inr ()) then {InnerOk i} else {})"
  shows "results_inv (t\<lparr>ps_calls := (ps_calls s)[i := p]\<rparr>)"
  unfolding results_inv_def
proof
  fix j
  have "InnerOk j \<in> set (ps_log t) \<longleftrightarrow> InnerOk j \<in> set (ps_log s) \<or> p = CallReturned (Inr ()) \<and> j = i"
    using assms(4) by (cases "p = CallReturned (Inr ())") (auto simp: set_eq_iff)
  then show "(InnerOk j \<in> set (ps_log (t\<lparr>ps_calls := (ps_calls s)[i := p]\<rparr>)))
    = (j < length (ps_calls (t\<lparr>ps_calls := (ps_calls s)[i := p]\<rparr>)) \<and> ps_calls (t\<lparr>ps_calls := (ps_calls s)[i := p]\<rparr>) ! j = CallReturned (Inr ()))"
    using assms(1-3) by (cases "j = i") (auto simp: results_inv_def)
qed

lemma results_inv_step: "session_step s t \<Longrightarrow> results_inv s \<Longrightarrow> results_inv t"
proof (induction rule: session_step.induct)
  case (session_resume i s ev p t)
  show ?case
  proof (rule results_inv_update [OF session_resume.prems session_resume.hyps(1)])
    show "ps_calls s ! i \<noteq> CallReturned (Inr ())" using session_resume.hyps(2) by auto
    show "set (ps_log t) \<inter> range InnerOk
      = set (ps_log s) \<inter> range InnerOk \<union> (if p = CallReturned (Inr ()) then {InnerOk i} else {})"
      using session_resume.hyps(2)
      by (cases "ps_calls s ! i") (auto simp: call_defs break_inner_def split: call_event.splits if_splits sum.splits)
  qed
next
  case (session_drop i s p t)
  show ?case
  proof (cases "ps_calls s ! i = CallReturned (Inr ())")
    case True
    with session_drop have "t = s" "p = ps_calls s ! i" by auto
    with session_drop show ?thesis by simp
  next
    case False
    show ?thesis
    proof (rule results_inv_update [OF session_drop.prems session_drop.hyps(1) False])
      show "set (ps_log t) \<inter> range InnerOk
        = set (ps_log s) \<inter> range InnerOk \<union> (if p = CallReturned (Inr ()) then {InnerOk i} else {})"
        using session_drop.hyps(2) False by (cases "ps_calls s ! i") (auto simp: break_inner_def Let_def)
    qed
  qed
qed (auto simp: results_inv_def send_call_def receive_call_def nth_append)

lemma session_reachable_results: "session_reachable s \<Longrightarrow> results_inv s"
proof (induction rule: session_reachable.induct)
  case session_init
  then show ?case by (simp add: results_inv_def session_new_def)
next
  case (session_next s t)
  then show ?case by (simp add: results_inv_step)
qed

text \<open>A Python future is resolved with the result of its Rust future, and never empty.\<close>

definition future_ok :: "session_call \<Rightarrow> bool" where
  "future_ok c \<longleftrightarrow>
     (case sc_future c of
        NoFuture \<Rightarrow> False | FutureResolved r \<Rightarrow> sc_pc c = CallReturned r | _ \<Rightarrow> True)"

definition futures_ok :: "secure_session \<Rightarrow> bool" where
  "futures_ok s \<longleftrightarrow> (\<forall>d. list_all future_ok (sd_calls (side d s)))"

lemma list_all_replace: "list_all P xs \<Longrightarrow> (i < length xs \<Longrightarrow> P x) \<Longrightarrow> list_all P (xs[i := x])"
  by (cases "i < length xs") (auto simp: list_all_length nth_list_update)

lemma futures_ok_set: "futures_ok s \<Longrightarrow> future_ok c \<Longrightarrow> futures_ok (set_session_call d i c s)"
  by (simp add: futures_ok_def set_session_call_def list_all_replace)

lemma futures_ok_nth: "futures_ok s \<Longrightarrow> i < length (sd_calls (side d s)) \<Longrightarrow> future_ok (the_call d i s)"
  by (simp add: futures_ok_def the_call_def list_all_length)

lemma futures_ok_quiet: "ends_quietly s t \<Longrightarrow> futures_ok s \<Longrightarrow> futures_ok t"
  by (simp add: ends_quietly_def futures_ok_def)

lemma futures_ok_put:
  assumes "futures_ok s" and "i < length (sd_calls (side d s))" and "\<And>r. sc_pc (the_call d i s) \<noteq> CallReturned r"
  shows "futures_ok (session_put d i p w s)"
proof -
  have "future_ok ((the_call d i s)\<lparr>sc_pc := p\<rparr>)"
    using futures_ok_nth [OF assms(1,2)] assms(3) by (auto simp: future_ok_def split: py_future.splits)
  with assms(1) show ?thesis by (simp add: futures_ok_def session_put_def list_all_replace)
qed

lemma futures_ok_release: "futures_ok s \<Longrightarrow> futures_ok (release_session s)" "futures_ok s \<Longrightarrow> futures_ok (cancel_session s)"
  by (rule futures_ok_quiet [OF _ _]; simp)+

lemma futures_ok_step:
  assumes "duplex_step s a = Some t" and ok: "futures_ok s"
  shows "futures_ok t"
proof (cases a)
  case (BeginCall plaintext locals spawned)
  with assms show ?thesis
    by (auto simp: begin_call_def Let_def futures_ok_def future_ok_def split: if_splits call_pc.splits sum.splits)
next
  case (ObserveCall d i callback added)
  with assms(1) have i: "i < length (sd_calls (side d s))" and t: "t = observe_call d i callback added s"
    by (auto simp: on_call_def split: if_splits)
  have "future_ok ((the_call d i s)\<lparr>sc_future := FutureCancelled\<rparr>)" "future_ok ((the_call d i s)\<lparr>sc_observed := True\<rparr>)"
    using futures_ok_nth [OF ok i] by (auto simp: future_ok_def split: py_future.splits)
  with ok show ?thesis unfolding t
    by (auto simp: observe_call_def Let_def intro: futures_ok_release futures_ok_set split: sum.split)
next
  case (PollCall d i ev)
  with assms(1) have i: "i < length (sd_calls (side d s))" and p: "poll_call d i ev s = Some t"
    by (auto simp: on_call_def split: if_splits)
  have "sc_pc (the_call d i s) \<noteq> CallReturned r" for r using p by (auto simp: poll_call_def)
  with futures_ok_put [OF ok i this] p show ?thesis
    by (auto simp: poll_call_def intro: futures_ok_release split: option.splits)
next
  case (DropCall d i)
  with assms(1) have i: "i < length (sd_calls (side d s))" and p: "drop_call d i s = Some t"
    by (auto simp: on_call_def split: if_splits)
  have "sc_pc (the_call d i s) \<noteq> CallReturned r" for r using p by (auto simp: drop_call_def)
  with futures_ok_put [OF ok i this] p show ?thesis
    by (auto simp: drop_call_def intro: futures_ok_release split: if_splits prod.splits)
next
  case (DeliverCall d i)
  with assms show ?thesis
    by (auto simp: on_call_def deliver_call_def Let_def future_ok_def intro!: futures_ok_set split: if_splits call_pc.splits)
next
  case (CancelCall d i)
  with assms show ?thesis
    by (auto simp: on_call_def cancel_call_def Let_def future_ok_def intro!: futures_ok_set split: if_splits)
next
  case (CallbackCall d i)
  with assms show ?thesis
    by (auto simp: on_call_def call_callback_def Let_def intro: futures_ok_release split: if_splits)
qed (use quiet_step [OF assms(1)] futures_ok_quiet ok in auto)

section \<open>Who closes the connection\<close>

text \<open>
  A session nobody holds is cancelled and its connection gone; while the connection is open under a cancelled token the
  waiter has yet to run.
\<close>

definition holders_ok :: "secure_session \<Rightarrow> bool" where
  "holders_ok s \<longleftrightarrow> (session_held s \<or> sn_cancelled s \<and> sn_raw s \<noteq> RawOpen) \<and> (sn_waiter s \<or> sn_raw s \<noteq> RawOpen)"

lemma session_held_view:
  "session_held s \<longleftrightarrow> sn_native s \<or> sn_wrapper s \<or> 0 < sn_closers s
     \<or> (\<exists>d. \<exists>p \<in> set (ps_calls (session_view d s)). \<not> pc_finished p)"
  by (simp add: session_held_side session_view_def)

lemma release_raw: "\<not> session_held s \<Longrightarrow> sn_cancelled (release_session s) \<and> sn_raw (release_session s) \<noteq> RawOpen"
  by (simp add: release_session_def)

lemma holders_release:
  "sn_waiter s \<or> sn_raw s \<noteq> RawOpen \<Longrightarrow> holders_ok (release_session s)"
  by (cases "session_held s") (auto simp: holders_ok_def release_raw release_session_def)

lemma holders_cancel: "holders_ok s \<Longrightarrow> holders_ok (cancel_session s)"
  by (auto simp: holders_ok_def)

lemma set_session_call_holders [simp]:
  "session_held (set_session_call d i ((the_call d i s)\<lparr>sc_future := f\<rparr>) s) = session_held s"
  "session_held (set_session_call d i ((the_call d i s)\<lparr>sc_observed := b\<rparr>) s) = session_held s"
  "sn_cancelled (set_session_call d i c s) = sn_cancelled s" "sn_raw (set_session_call d i c s) = sn_raw s"
  "sn_waiter (set_session_call d i c s) = sn_waiter s" "sn_native (set_session_call d i c s) = sn_native s"
  by (simp_all add: session_held_view) (simp_all add: set_session_call_def)

lemma session_put_holders [simp]:
  "sn_raw (session_put d i p w s) = sn_raw s" "sn_waiter (session_put d i p w s) = sn_waiter s"
  by (simp_all add: session_put_def)

lemma holders_begin: "sn_native s \<Longrightarrow> holders_ok s \<Longrightarrow> holders_ok (snd (begin_call plaintext locals spawned s))"
  by (auto simp: begin_call_def Let_def holders_ok_def session_held_def split: call_pc.split sum.split)

lemma holders_observe: "holders_ok s \<Longrightarrow> holders_ok (observe_call d i callback added s)"
  by (auto simp: observe_call_def Let_def holders_ok_def split: sum.split)

text \<open>The actions that end with a holder of the session gone.\<close>

lemma releasing_step:
  assumes "duplex_step s a = Some t" and "sn_waiter s \<or> sn_raw s \<noteq> RawOpen"
    and "a \<in> {RunCloser, DropCloser, ReleaseNative, ReleaseWrapper} \<or> (\<exists>d i ev. a = PollCall d i ev \<or> a = DropCall d i)"
  shows "holders_ok t"
  using assms(3,1)
proof (elim disjE exE)
  fix d i ev
  assume "duplex_step s a = Some t" "a = PollCall d i ev"
  then obtain p v where "t = release_session (session_put d i p v s)"
    by (auto simp: on_call_def poll_call_def split: if_splits option.splits)
  then show ?thesis using assms(2) by (simp add: holders_release)
next
  fix d i
  assume "duplex_step s a = Some t" "a = DropCall d i"
  then obtain p v where "t = release_session (session_put d i p v s)"
    by (auto simp: on_call_def drop_call_def split: if_splits prod.splits)
  then show ?thesis using assms(2) by (simp add: holders_release)
qed (insert assms(2), auto simp: run_closer_def drop_closer_def release_native_def release_wrapper_def cancel_session_def
    close_inner_def intro!: holders_release split: if_splits)

lemma holders_step:
  assumes step: "duplex_step s a = Some t" and ok: "holders_ok s"
  shows "holders_ok t"
proof -
  have w: "sn_waiter s \<or> sn_raw s \<noteq> RawOpen" using ok by (simp add: holders_ok_def)
  show ?thesis
  proof (cases a)
    case (SessionClose locals spawned)
    with assms show ?thesis
      by (cases locals; cases spawned)
        (auto simp: session_close_def Let_def cancel_session_def holders_ok_def session_held_side split: if_splits)
  next
    case RunWaiter
    with assms show ?thesis
      by (auto simp: run_waiter_def holders_ok_def session_held_side split: if_splits)
  next
    case ConnFails
    with assms show ?thesis by (auto simp: holders_ok_def)
  next
    case (DeliverCall d i)
    with assms show ?thesis
      by (auto simp: on_call_def deliver_call_def Let_def holders_ok_def split: if_splits call_pc.splits)
  next
    case (CancelCall d i)
    with assms show ?thesis by (auto simp: on_call_def cancel_call_def Let_def holders_ok_def split: if_splits)
  next
    case (CallbackCall d i)
    with assms holders_cancel show ?thesis by (auto simp: on_call_def call_callback_def Let_def split: if_splits)
  next
    case (BeginCall plaintext locals spawned)
    with assms holders_begin show ?thesis by (auto split: if_splits)
  next
    case (ObserveCall d i callback added)
    with assms holders_observe show ?thesis by (auto simp: on_call_def split: if_splits)
  next
    case SessionAbort
    with assms holders_cancel show ?thesis by (auto simp: session_abort_def split: if_splits)
  qed (use releasing_step [OF step w] in simp_all)
qed

definition duplex_inv :: "secure_session \<Rightarrow> bool" where
  "duplex_inv s \<longleftrightarrow> (\<forall>d. session_reachable (session_view d s)) \<and> futures_ok s \<and> holders_ok s"

lemma duplex_inv_start: "duplex_inv secure_session_new"
  by (auto simp: duplex_inv_def duplex_start_view session_init)
    (auto simp: futures_ok_def holders_ok_def session_held_def secure_session_new_def side_def side_new_def
      split: session_direction.split)

lemma duplex_inv_run: "duplex_run s as = Some t \<Longrightarrow> duplex_inv s \<Longrightarrow> duplex_inv t"
proof (induction s as rule: duplex_run.induct)
  case (2 s a as)
  then show ?case
    using duplex_step_view session_steps_reachable futures_ok_step holders_step
    by (simp add: duplex_inv_def split: option.splits) blast
qed simp

lemma duplex_reached: "duplex_run secure_session_new as = Some s \<Longrightarrow> duplex_inv s"
  using duplex_inv_run duplex_inv_start by blast

section \<open>Winding down\<close>

text \<open>Steps that need neither Python nor the peer.\<close>

fun runtime_action :: "duplex_action \<Rightarrow> bool" where
  "runtime_action (PollCall d i TokenFired) = True"
| "runtime_action (DeliverCall d i) = True"
| "runtime_action (CallbackCall d i) = True"
| "runtime_action RunWaiter = True"
| "runtime_action a = False"

definition runtime_runs :: "secure_session \<Rightarrow> secure_session \<Rightarrow> bool" where
  "runtime_runs s t \<longleftrightarrow> (\<exists>as. list_all runtime_action as \<and> duplex_run s as = Some t)"

lemma duplex_run_append:
  "duplex_run s (as @ bs) = (case duplex_run s as of None \<Rightarrow> None | Some t \<Rightarrow> duplex_run t bs)"
  by (induction s as rule: duplex_run.induct) (auto split: option.split)

lemma runtime_runs_refl: "runtime_runs s s"
  unfolding runtime_runs_def by (rule exI [of _ "[]"]) simp

lemma runtime_runs_step: "duplex_step s a = Some t \<Longrightarrow> runtime_action a \<Longrightarrow> runtime_runs s t"
  unfolding runtime_runs_def by (rule exI [of _ "[a]"]) simp

lemma runtime_runs_trans: "runtime_runs s t \<Longrightarrow> runtime_runs t u \<Longrightarrow> runtime_runs s u"
proof -
  assume "runtime_runs s t" "runtime_runs t u"
  then obtain as bs where "list_all runtime_action as" "duplex_run s as = Some t"
    "list_all runtime_action bs" "duplex_run t bs = Some u" by (auto simp: runtime_runs_def)
  then show ?thesis unfolding runtime_runs_def by (intro exI [of _ "as @ bs"]) (simp add: duplex_run_append)
qed

definition unfinished :: "secure_session \<Rightarrow> nat" where
  "unfinished s = length (filter (\<lambda>p. \<not> pc_finished p) (ps_calls (session_view DirSend s)))
     + length (filter (\<lambda>p. \<not> pc_finished p) (ps_calls (session_view DirReceive s)))"

lemma filter_update_less:
  assumes "i < length xs" and "P (xs ! i)" and "\<not> P x"
  shows "length (filter P (xs[i := x])) < length (filter P xs)"
proof -
  have x: "xs = take i xs @ xs ! i # drop (Suc i) xs" using assms(1) by (simp add: id_take_nth_drop)
  have "xs[i := x] = take i xs @ x # drop (Suc i) xs" using assms(1) by (simp add: upd_conv_take_nth_drop)
  then have "length (filter P (xs[i := x])) = length (filter P (take i xs)) + length (filter P (drop (Suc i) xs))"
    using assms(3) by simp
  moreover have "length (filter P xs) = Suc (length (filter P (take i xs)) + length (filter P (drop (Suc i) xs)))"
    by (subst x) (use assms(2) in simp)
  ultimately show ?thesis by simp
qed

lemma token_poll:
  assumes "sn_cancelled s" and i: "i < length (sd_calls (side d s))" and "\<not> pc_finished (sc_pc (the_call d i s))"
  shows "\<exists>t. duplex_step s (PollCall d i TokenFired) = Some t \<and> sn_cancelled t \<and> unfinished t < unfinished s"
proof -
  let ?p = "CallReturned (Inl session_closed_error)" and ?v = "session_view d s"
  have "\<exists>w. call_poll i (sc_pc (the_call d i s)) TokenFired ?v = Some (?p, w) \<and> ps_cancelled w"
    using assms(1,3)
    by (cases "sc_pc (the_call d i s)") (auto simp: call_defs break_inner_def session_view_def)
  then obtain w where w: "call_poll i (sc_pc (the_call d i s)) TokenFired ?v = Some (?p, w)" "ps_cancelled w" by blast
  let ?t = "release_session (session_put d i ?p w s)"
  have "sn_cancelled (session_put d i ?p w s)" using w(2) by (simp add: session_put_def)
  then have c: "sn_cancelled ?t" by simp
  have view: "ps_calls (session_view d' ?t) = (if d' = d then (ps_calls ?v)[i := ?p] else ps_calls (session_view d' s))" for d'
    by (simp add: session_view_def session_put_def map_update)
  have "length (filter (\<lambda>p. \<not> pc_finished p) ((ps_calls ?v)[i := ?p])) < length (filter (\<lambda>p. \<not> pc_finished p) (ps_calls ?v))"
    by (rule filter_update_less) (use i assms(3) in \<open>simp_all add: session_view_def the_call_def\<close>)
  then have "unfinished ?t < unfinished s" unfolding unfinished_def view by (cases d) simp_all
  with c i w(1) show ?thesis by (simp add: on_call_def poll_call_def)
qed

lemma unfinished_call:
  "unfinished s \<noteq> 0 \<Longrightarrow> \<exists>d i. i < length (sd_calls (side d s)) \<and> \<not> pc_finished (sc_pc (the_call d i s))"
  by (fastforce simp: unfinished_def session_view_def the_call_def filter_empty_conv in_set_conv_nth)

lemma calls_finish: "sn_cancelled s \<Longrightarrow> \<exists>t. runtime_runs s t \<and> sn_cancelled t \<and> unfinished t = 0"
proof (induction "unfinished s" arbitrary: s rule: less_induct)
  case less
  show ?case
  proof (cases "unfinished s = 0")
    case True
    with less.prems runtime_runs_refl show ?thesis by blast
  next
    case False
    from unfinished_call [OF this] token_poll [OF less.prems] obtain d i u where
      u: "duplex_step s (PollCall d i TokenFired) = Some u" "sn_cancelled u" "unfinished u < unfinished s" by blast
    from less.hyps [OF u(3,2)] runtime_runs_step [OF u(1)] runtime_runs_trans show ?thesis by (metis runtime_action.simps(1))
  qed
qed

text \<open>Python futures that wait for a result that is there.\<close>

definition awaiting :: "session_call \<Rightarrow> bool" where
  "awaiting c \<longleftrightarrow> sc_future c = FuturePending \<and> (\<exists>r. sc_pc c = CallReturned r)"

definition undelivered :: "secure_session \<Rightarrow> nat" where
  "undelivered s = length (filter awaiting (sd_calls (side DirSend s))) + length (filter awaiting (sd_calls (side DirReceive s)))"

lemma unfinished_views: "(\<And>d. session_view d t = session_view d s) \<Longrightarrow> unfinished t = unfinished s"
  by (simp add: unfinished_def)

lemma deliver_one:
  assumes i: "i < length (sd_calls (side d s))" and a: "awaiting (the_call d i s)"
  shows "\<exists>t. duplex_step s (DeliverCall d i) = Some t \<and> sn_cancelled t = sn_cancelled s \<and> unfinished t = unfinished s
    \<and> undelivered t < undelivered s"
proof -
  let ?c = "the_call d i s"
  from a obtain r where r: "sc_pc ?c = CallReturned r" "sc_future ?c = FuturePending" by (auto simp: awaiting_def)
  let ?t = "set_session_call d i (?c\<lparr>sc_future := FutureResolved r\<rparr>) s"
  have step: "duplex_step s (DeliverCall d i) = Some ?t" using i r by (simp add: on_call_def deliver_call_def)
  have "unfinished ?t = unfinished s" by (rule unfinished_views) simp
  moreover have "length (filter awaiting ((sd_calls (side d s))[i := ?c\<lparr>sc_future := FutureResolved r\<rparr>]))
      < length (filter awaiting (sd_calls (side d s)))"
    by (rule filter_update_less) (use i a in \<open>simp_all add: awaiting_def the_call_def\<close>)
  then have "undelivered ?t < undelivered s" by (cases d) (simp_all add: undelivered_def set_session_call_def)
  ultimately show ?thesis using step by auto
qed

lemma undelivered_call:
  "undelivered s \<noteq> 0 \<Longrightarrow> \<exists>d i. i < length (sd_calls (side d s)) \<and> awaiting (the_call d i s)"
  by (fastforce simp: undelivered_def the_call_def filter_empty_conv in_set_conv_nth)

lemma results_delivered:
  "sn_cancelled s \<Longrightarrow> \<exists>t. runtime_runs s t \<and> sn_cancelled t \<and> unfinished t = unfinished s \<and> undelivered t = 0"
proof (induction "undelivered s" arbitrary: s rule: less_induct)
  case less
  show ?case
  proof (cases "undelivered s = 0")
    case True
    with less.prems runtime_runs_refl show ?thesis by blast
  next
    case False
    from undelivered_call [OF this] deliver_one [of _ _ s] obtain d i u where
      u: "duplex_step s (DeliverCall d i) = Some u" "sn_cancelled u = sn_cancelled s" "unfinished u = unfinished s"
        "undelivered u < undelivered s" by blast
    from less.hyps [OF u(4)] u(2,3) less.prems runtime_runs_step [OF u(1)] runtime_runs_trans show ?thesis
      by (metis runtime_action.simps(2))
  qed
qed

lemma waiter_closes:
  assumes "holders_ok s" and "sn_cancelled s"
  shows "\<exists>t. runtime_runs s t \<and> sn_cancelled t \<and> sn_raw t \<noteq> RawOpen \<and> unfinished t = unfinished s
    \<and> undelivered t = undelivered s"
proof (cases "sn_waiter s")
  case True
  let ?t = "(if session_held s then close_inner s else s)\<lparr>sn_waiter := False\<rparr>"
  have "duplex_step s RunWaiter = Some ?t" using True assms(2) by (simp add: run_waiter_def)
  then have "runtime_runs s ?t" by (rule runtime_runs_step) simp
  moreover have "sn_cancelled ?t" "sn_raw ?t \<noteq> RawOpen" "undelivered ?t = undelivered s" "unfinished ?t = unfinished s"
    using assms by (auto simp: holders_ok_def undelivered_def unfinished_def session_view_def)
  ultimately show ?thesis by blast
next
  case False
  with assms runtime_runs_refl [of s] show ?thesis by (auto simp: holders_ok_def)
qed

lemma runtime_runs_inv: "runtime_runs s t \<Longrightarrow> duplex_inv s \<Longrightarrow> duplex_inv t"
  by (auto simp: runtime_runs_def intro: duplex_inv_run)

lemma all_finished: "unfinished s = 0 \<Longrightarrow> p \<in> set (ps_calls (session_view d s)) \<Longrightarrow> pc_finished p"
  by (cases d) (simp_all add: unfinished_def filter_empty_conv)

text \<open>With every call finished the gates are free, and only the Python future of a dropped call can still wait.\<close>

lemma finished_gates:
  assumes "duplex_inv s" and "unfinished s = 0"
  shows "\<not> sd_gate (side d s)"
proof
  assume "sd_gate (side d s)"
  moreover have "session_inv (session_view d s)" using assms(1) by (simp add: duplex_inv_def session_reachable_inv)
  ultimately obtain i where "only_inner (ps_calls (session_view d s)) i"
    unfolding session_inv_def by (auto simp: session_view_def)
  then have "CallInner \<in> set (ps_calls (session_view d s))" unfolding only_inner_def by (metis nth_mem)
  with all_finished [OF assms(2)] show False by fastforce
qed

lemma finished_calls:
  assumes "unfinished s = 0" and "undelivered s = 0" and "c \<in> set (sd_calls (side d s))"
  shows "pc_finished (sc_pc c) \<and> (sc_future c = FuturePending \<longrightarrow> sc_pc c = CallDropped)"
proof -
  have "pc_finished (sc_pc c)" "\<not> awaiting c"
    using assms by (cases d; auto simp: unfinished_def undelivered_def session_view_def filter_empty_conv)+
  then show ?thesis by (cases "sc_pc c") (auto simp: awaiting_def)
qed

section \<open>Properties\<close>

text \<open>Full duplex adds nothing to one direction: whatever the calls of both directions, their Python futures, the
  closing task, the holders and the connection do in any order, each direction of a Python session runs as one direction of
  \<open>Py_Session\<close> does, from any state on.\<close>

theorem session_directions_refine:
  assumes "duplex_run secure_session_new as = Some s" and "duplex_run s bs = Some t"
  shows "session_reachable (session_view d s) \<and> session_steps (session_view d s) (session_view d t)
    \<and> (sn_is_closed s \<longleftrightarrow> session_is_closed (session_view d s))"
  using duplex_reachable [OF assms(1)] duplex_run_view [OF assms(2)]
  by (simp add: sn_is_closed_def session_is_closed_def session_view_def)

text \<open>C5: The end of one direction is the end of both. Once an inner operation of either direction is broken, or the token is
  cancelled in any other way, it stays cancelled in every continuation: neither direction ever starts or completes
  another inner operation, at most the one that is running breaks off, and every call that had not finished, and every
  later one, can only end with an error of the binding.\<close>

theorem broken_call_ends_both:
  assumes "duplex_run secure_session_new as = Some s" and "duplex_run s bs = Some t"
    and "sn_cancelled s \<or> InnerBroken i \<in> set (sd_log (side d s))"
  shows "sn_cancelled t
    \<and> (\<forall>d'. sd_log (side d' t) = sd_log (side d' s)
         \<or> (\<exists>past j. sd_log (side d' s) = past @ [InnerStarted j] \<and> sd_log (side d' t) = sd_log (side d' s) @ [InnerBroken j]))
    \<and> (\<forall>d' j r. j < length (sd_calls (side d' t)) \<and> sc_pc (the_call d' j t) = CallReturned r
         \<and> (j < length (sd_calls (side d' s)) \<longrightarrow> \<not> pc_finished (sc_pc (the_call d' j s)))
         \<longrightarrow> r \<in> {Inl session_closed_error, Inl plaintext_size_error})"
proof -
  note inv = duplex_reached [OF assms(1)]
  have reach: "session_reachable (session_view d' s)" for d' using inv by (simp add: duplex_inv_def)
  have steps: "session_steps (session_view d' s) (session_view d' t)" for d' by (rule duplex_run_view [OF assms(2)])
  have c: "sn_cancelled s"
    using assms(3) session_broken_state [OF session_reachable_inv [OF reach [of d]]]
    by (auto simp: session_broken_def session_view_def)
  have "sn_cancelled t" "winds_down (sd_log (side d' s)) (sd_log (side d' t))" for d'
    using cancelled_steps [OF steps reach, of d'] c by (simp_all add: session_view_def)
  moreover have "ends_closed (map sc_pc (sd_calls (side d' s))) (map sc_pc (sd_calls (side d' t)))" for d'
    using cancelled_results [OF steps reach, of d'] c by (simp add: session_view_def)
  ultimately show ?thesis
    unfolding winds_down_def ends_closed_def the_call_def by (simp, blast)
qed

text \<open>C16: What Python lets go of winds down. If the token of a session is cancelled, or Python has cancelled an observed
  future of one of its calls (even one whose inner operation had already completed), then some run of the runtime's
  own steps finishes every call, frees both gates, closes the connection and resolves every Python future that
  waits for a result; nothing is needed from Python or from the peer.\<close>

theorem cancelled_session_winds_down:
  assumes "duplex_run secure_session_new as = Some s"
    and "sn_cancelled s \<or> (i < length (sd_calls (side d s)) \<and> sc_observed (the_call d i s)
           \<and> sc_future (the_call d i s) = FutureCancelled)"
  shows "\<exists>bs t. list_all runtime_action bs \<and> duplex_run s bs = Some t
    \<and> sn_cancelled t \<and> sn_raw t \<noteq> RawOpen
    \<and> (\<forall>d'. \<not> sd_gate (side d' t)
         \<and> (\<forall>c \<in> set (sd_calls (side d' t)). pc_finished (sc_pc c) \<and> (sc_future c = FuturePending \<longrightarrow> sc_pc c = CallDropped)))"
proof -
  note inv = duplex_reached [OF assms(1)]
  have "\<exists>u. runtime_runs s u \<and> sn_cancelled u"
  proof (cases "sn_cancelled s")
    case True
    with runtime_runs_refl show ?thesis by blast
  next
    case False
    with assms(2) have "duplex_step s (CallbackCall d i) = Some (cancel_session s)"
      by (simp add: on_call_def call_callback_def)
    then have "runtime_runs s (cancel_session s)" by (rule runtime_runs_step) simp
    then show ?thesis by (intro exI [of _ "cancel_session s"]) simp
  qed
  then obtain u where u: "runtime_runs s u" "sn_cancelled u" by blast
  from calls_finish [OF u(2)] obtain v where v: "runtime_runs u v" "sn_cancelled v" "unfinished v = 0" by blast
  from results_delivered [OF v(2)] v(3) obtain w where
    w: "runtime_runs v w" "sn_cancelled w" "unfinished w = 0" "undelivered w = 0" by metis
  have sw: "runtime_runs s w" using u(1) v(1) w(1) runtime_runs_trans by blast
  have "holders_ok w" using runtime_runs_inv [OF sw inv] by (simp add: duplex_inv_def)
  from waiter_closes [OF this w(2)] w(3,4) obtain t where
    t: "runtime_runs w t" "sn_cancelled t" "sn_raw t \<noteq> RawOpen" "unfinished t = 0" "undelivered t = 0" by auto
  have st: "runtime_runs s t" using sw t(1) runtime_runs_trans by blast
  have "\<not> sd_gate (side d' t)" for d' by (rule finished_gates [OF runtime_runs_inv [OF st inv] t(4)])
  with t finished_calls [OF t(4,5)] st show ?thesis unfolding runtime_runs_def by blast
qed

text \<open>C17: A Python result is true. The future of a call resolves to success only if its inner operation returned \<open>Ok\<close>, and
  to an error only if it did not; an operation that completed while its future was cancelled is not lost silently:
  the future's callback then ends the session.\<close>

theorem python_result_is_true:
  assumes "duplex_run secure_session_new as = Some s" and "i < length (sd_calls (side d s))"
  shows "(\<forall>r. sc_future (the_call d i s) = FutureResolved r \<longrightarrow>
        (InnerOk i \<in> set (sd_log (side d s)) \<longleftrightarrow> r = Inr ()) \<and> (InnerBroken i \<in> set (sd_log (side d s)) \<longrightarrow> sn_cancelled s))
    \<and> (sc_observed (the_call d i s) \<and> sc_future (the_call d i s) = FutureCancelled \<longrightarrow>
        (\<exists>t. duplex_step s (CallbackCall d i) = Some t \<and> sn_cancelled t))"
proof -
  note inv = duplex_reached [OF assms(1)]
  have reach: "session_reachable (session_view d s)" using inv by (simp add: duplex_inv_def)
  have "sn_cancelled s" if "InnerBroken i \<in> set (sd_log (side d s))"
    using session_broken_state [OF session_reachable_inv [OF reach]] that by (auto simp: session_broken_def session_view_def)
  moreover have "InnerOk i \<in> set (sd_log (side d s)) \<longleftrightarrow> sc_pc (the_call d i s) = CallReturned (Inr ())"
    using session_reachable_results [OF reach] assms(2)
    by (simp add: results_inv_def session_view_def the_call_def)
  moreover have "sc_pc (the_call d i s) = CallReturned r" if "sc_future (the_call d i s) = FutureResolved r" for r
    using futures_ok_nth [OF _ assms(2)] inv that by (simp add: duplex_inv_def future_ok_def)
  ultimately show ?thesis using assms(2) by (auto simp: on_call_def call_callback_def)
qed

text \<open>Both directions are inside their inner operations when Python cancels the future of the send.\<close>

definition duplex_demo :: "duplex_action list" where
  "duplex_demo =
     [BeginCall (Some [1]) (Inr ()) (Inr ()), ObserveCall DirSend 0 (Inr ()) (Inr ()),
      BeginCall None (Inr ()) (Inr ()), ObserveCall DirReceive 0 (Inr ()) (Inr ()),
      PollCall DirSend 0 CallGateAcquired, PollCall DirReceive 0 CallGateAcquired, CancelCall DirSend 0]"

lemmas duplex_eval =
  on_call_def begin_call_def observe_call_def poll_call_def drop_call_def cancel_call_def deliver_call_def call_callback_def
  the_call_def set_session_call_def session_put_def session_view_def side_def set_side_def secure_session_new_def side_new_def
  release_session_def session_held_def session_is_closed_def cancel_session_def send_call_def receive_call_def
  MAX_PLAINTEXT_SIZE_def call_gate_def call_inner_def break_inner_def

lemma duplex_demo_run:
  "\<exists>s. duplex_run secure_session_new duplex_demo = Some s \<and> \<not> sn_cancelled s \<and> sd_gate (side DirSend s) \<and> sd_gate (side DirReceive s)
     \<and> length (sd_calls (side DirSend s)) = 1 \<and> sc_observed (the_call DirSend 0 s)
     \<and> sc_future (the_call DirSend 0 s) = FutureCancelled \<and> sd_log (side DirReceive s) = [InnerStarted 0]"
  by (simp add: duplex_demo_def duplex_eval)

lemma cancelled_session_winds_down_witness:
  "\<exists>s bs t. duplex_run secure_session_new duplex_demo = Some s \<and> sd_gate (side DirReceive s)
     \<and> duplex_run s bs = Some t \<and> sn_raw t \<noteq> RawOpen \<and> \<not> sd_gate (side DirReceive t)"
proof -
  from duplex_demo_run obtain s where s: "duplex_run secure_session_new duplex_demo = Some s" "sd_gate (side DirReceive s)"
    "length (sd_calls (side DirSend s)) = 1" "sc_observed (the_call DirSend 0 s)"
    "sc_future (the_call DirSend 0 s) = FutureCancelled" by blast
  then have "0 < length (sd_calls (side DirSend s)) \<and> sc_observed (the_call DirSend 0 s)
      \<and> sc_future (the_call DirSend 0 s) = FutureCancelled" by simp
  from cancelled_session_winds_down [OF s(1) disjI2 [OF this]] s(1,2) show ?thesis by blast
qed

lemma session_directions_refine_witness:
  "\<exists>s. duplex_run secure_session_new duplex_demo = Some s \<and> session_reachable (session_view DirReceive s)"
proof -
  from duplex_demo_run obtain s where s: "duplex_run secure_session_new duplex_demo = Some s" by blast
  have "duplex_run s [] = Some s" by simp
  from session_directions_refine [OF s this] s show ?thesis by blast
qed

lemma python_result_is_true_witness:
  "\<exists>s t. duplex_run secure_session_new duplex_demo = Some s \<and> \<not> sn_cancelled s
     \<and> duplex_step s (CallbackCall DirSend 0) = Some t \<and> sn_cancelled t"
proof -
  from duplex_demo_run obtain s where s: "duplex_run secure_session_new duplex_demo = Some s" "\<not> sn_cancelled s"
    "length (sd_calls (side DirSend s)) = 1" "sc_observed (the_call DirSend 0 s)"
    "sc_future (the_call DirSend 0 s) = FutureCancelled" by blast
  then have "0 < length (sd_calls (side DirSend s))" by simp
  from python_result_is_true [OF s(1) this] s show ?thesis by blast
qed

text \<open>The send is dropped with a part of its frame written; then the receive, too, ends.\<close>

lemma broken_demo_run:
  "\<exists>s t. duplex_run secure_session_new (duplex_demo @ [DropCall DirSend 0]) = Some s
     \<and> InnerBroken 0 \<in> set (sd_log (side DirSend s)) \<and> \<not> pc_finished (sc_pc (the_call DirReceive 0 s))
     \<and> duplex_run s [PollCall DirReceive 0 TokenFired] = Some t \<and> length (sd_calls (side DirReceive t)) = 1
     \<and> sc_pc (the_call DirReceive 0 t) = CallReturned (Inl session_closed_error)
     \<and> sd_log (side DirReceive t) = [InnerStarted 0, InnerBroken 0]"
  by (simp add: duplex_demo_def duplex_eval)

lemma broken_call_ends_both_witness:
  "\<exists>s t. duplex_run secure_session_new (duplex_demo @ [DropCall DirSend 0]) = Some s
     \<and> duplex_run s [PollCall DirReceive 0 TokenFired] = Some t \<and> sn_cancelled t
     \<and> sc_pc (the_call DirReceive 0 t) = CallReturned (Inl session_closed_error)"
proof -
  from broken_demo_run obtain s t where s: "duplex_run secure_session_new (duplex_demo @ [DropCall DirSend 0]) = Some s"
    "InnerBroken 0 \<in> set (sd_log (side DirSend s))" "duplex_run s [PollCall DirReceive 0 TokenFired] = Some t"
    "sc_pc (the_call DirReceive 0 t) = CallReturned (Inl session_closed_error)" by blast
  from broken_call_ends_both [OF s(1,3) disjI2 [OF s(2)]] s show ?thesis by blast
qed

end
