(* ===== verification/Py_Delivery.thy ===== *)
theory Py_Delivery
  imports Py_Secure Duplex_Props
begin

text \<open>
  The receiving direction of a Python session over the secure channel: what the receives that a session's log records
  take from the network, and that the messages handed to Python are the peer's, in order, whatever is dropped or
  cancelled on the way. A receive that is dropped in the middle of a frame loses what it had read; the
  binding never starts another one after it.
\<close>

section \<open>The inner receives of a log\<close>

text \<open>
  An execution of the inner receives of a log. Each starts on what the one before left of the network and
  whatever arrived since; the schedule and the connection may be different ones. \<open>got\<close> collects the calls
  that were given a message, \<open>arrived\<close> all the bytes that ever arrived.
\<close>

inductive inner_receives ::
  "crypto \<Rightarrow> session \<Rightarrow> inner_event list \<Rightarrow> session \<Rightarrow> net \<Rightarrow> (nat \<times> bytes) list \<Rightarrow> bytes \<Rightarrow> bool"
  for cr rs where
  receives_none: "net_inv w \<Longrightarrow> inner_receives cr rs [] rs w [] (net_in w)"
| receives_ok:
    "inner_receives cr rs es rs1 w1 got arrived \<Longrightarrow> net_inv w2 \<Longrightarrow> net_in w2 = net_in w1 @ extra
       \<Longrightarrow> secure_receive cr conn_receive (rs1, w2) = (Ret p, (rs2, w3))
       \<Longrightarrow> inner_receives cr rs (es @ [InnerStarted i, InnerOk i]) rs2 w3 (got @ [(i, p)]) (arrived @ extra)"
| receives_running:
    "inner_receives cr rs es rs1 w1 got arrived \<Longrightarrow> net_inv w2 \<Longrightarrow> net_in w2 = net_in w1 @ extra
       \<Longrightarrow> secure_receive cr conn_receive (rs1, w2) = (Pending, (rs2, w3))
       \<Longrightarrow> inner_receives cr rs (es @ [InnerStarted i]) rs2 w3 got (arrived @ extra)"
| receives_broken:
    "inner_receives cr rs es rs1 w1 got arrived \<Longrightarrow> net_inv w2 \<Longrightarrow> net_in w2 = net_in w1 @ extra
       \<Longrightarrow> secure_receive cr conn_receive (rs1, w2) = (r, (rs2, w3)) \<Longrightarrow> (\<And>p. r \<noteq> Ret p)
       \<Longrightarrow> inner_receives cr rs (es @ [InnerStarted i, InnerBroken i]) rs2 w3 got (arrived @ extra)"

definition ok_calls :: "inner_event list \<Rightarrow> nat list" where
  "ok_calls es = concat (map (\<lambda>e. case e of InnerOk i \<Rightarrow> [i] | _ \<Rightarrow> []) es)"

lemma ok_calls_simps [simp]:
  "ok_calls [] = []" "ok_calls (es @ es') = ok_calls es @ ok_calls es'"
  "ok_calls (InnerStarted i # es) = ok_calls es" "ok_calls (InnerBroken i # es) = ok_calls es"
  "ok_calls (InnerOk i # es) = i # ok_calls es"
  by (simp_all add: ok_calls_def)

lemma ok_calls_set: "i \<in> set (ok_calls es) \<longleftrightarrow> InnerOk i \<in> set es"
  by (induction es) (auto simp: ok_calls_def split: inner_event.split)

lemma inner_receives_calls: "inner_receives cr rs es rs' w' got arrived \<Longrightarrow> map fst got = ok_calls es"
  by (induction rule: inner_receives.induct) simp_all

lemma unforged_prefix: "unforged cr hash st frames (a @ b) \<Longrightarrow> unforged cr hash st frames a"
  unfolding unforged_def by (meson sublist_append_rightI sublist_order.order.trans)

text \<open>After completed receives only: the messages are the first ones sent, and the receiver stands right behind them.\<close>

lemma inner_receives_completed:
  assumes ok: "aead_ok cr" and all: "seal_all cr (transcript_hash rs) (receive_state rs) sent = Some frames"
  shows "inner_receives cr rs es rs1 w1 got arrived \<Longrightarrow> completed_pairs es
    \<Longrightarrow> unforged cr (transcript_hash rs) (receive_state rs) frames arrived
    \<Longrightarrow> length got \<le> length sent \<and> map snd got = take (length got) sent
      \<and> transcript_hash rs1 = transcript_hash rs
      \<and> receive_state rs1 = at_sequence (receive_state rs) (ds_sequence (receive_state rs) + of_nat (length got))
      \<and> (\<exists>consumed. arrived = consumed @ net_in w1)"
proof (induction rule: inner_receives.induct)
  case (receives_none w)
  then show ?case by simp
next
  case (receives_ok es rs1 w1 got arrived w2 extra p rs2 w3 i)
  from receives_ok.prems have "completed_pairs es" "unforged cr (transcript_hash rs) (receive_state rs) frames arrived"
    by (auto simp: completed_pairs_snoc_iff intro: unforged_prefix)
  note ih = receives_ok.IH [OF this]
  then obtain consumed where arr: "arrived = consumed @ net_in w1" by blast
  from conn_reader.secure_receive_sound [OF receives_ok.hyps(2,4)] ih obtain f n where
    f: "unseal cr (transcript_hash rs)
          (at_sequence (receive_state rs) (ds_sequence (receive_state rs) + of_nat (length got))) f = Inr (p, n)"
    and rs2: "rs2 = set_receive_sequence n rs1" and w3: "net_in w2 = frame_bytes f @ net_in w3" by auto
  have w: "arrived @ extra = (consumed @ frame_bytes f) @ net_in w3"
    using arr receives_ok.hyps(3) w3 by simp
  then have "sublist (frame_bytes f) (arrived @ extra)" by (auto simp: sublist_def)
  with receives_ok.prems(2) f have "f \<in> set frames" unfolding unforged_def by blast
  from sealed_at_own_sequence [OF ok all this f] ih have
    k: "length got < length sent" "p = sent ! length got" "n = ds_sequence (receive_state rs) + of_nat (Suc (length got))"
    by auto
  then show ?case using ih rs2 w by (auto simp: take_Suc_conv_app_nth add.commute)
next
  case (receives_running es rs1 w1 got arrived w2 extra rs2 w3 i)
  from completed_pairs_last [OF receives_running.prems(1)] show ?case by simp
next
  case (receives_broken es rs1 w1 got arrived w2 extra r rs2 w3 i)
  then show ?case by (simp add: completed_pairs_snoc_iff)
qed

lemma inner_receives_prefix:
  assumes "aead_ok cr" and "seal_all cr (transcript_hash rs) (receive_state rs) sent = Some frames"
    and "unforged cr (transcript_hash rs) (receive_state rs) frames arrived"
    and run: "inner_receives cr rs (es @ rest) rs' w' got arrived" and "completed_pairs es"
    and rest: "rest = [] \<or> (\<exists>i. rest = [InnerStarted i]) \<or> (\<exists>i. rest = [InnerStarted i, InnerBroken i])"
  shows "length got \<le> length sent \<and> map snd got = take (length got) sent"
proof -
  note whole = inner_receives_completed [OF assms(1,2) _ assms(5)]
  from run show ?thesis
  proof (cases rule: inner_receives.cases)
    case receives_none
    then show ?thesis by simp
  next
    case (receives_ok es' rs1 w1 got1 arrived1 w2 extra p i)
    with rest have "rest = []" by (auto simp: append_eq_append_conv2 append_eq_Cons_conv)
    with run assms(3) whole show ?thesis by auto
  next
    case (receives_running es' rs1 w1 arrived1 w2 extra i)
    show ?thesis
    proof (cases "rest = []")
      case True
      with run assms(3) whole show ?thesis by auto
    next
      case False
      with receives_running rest have "es' = es" by (auto simp: append_eq_append_conv2 append_eq_Cons_conv)
      with receives_running assms(3) whole show ?thesis by (auto dest: unforged_prefix)
    qed
  next
    case (receives_broken es' rs1 w1 arrived1 w2 extra r i)
    show ?thesis
    proof (cases "rest = []")
      case True
      with run assms(3) whole show ?thesis by auto
    next
      case False
      with receives_broken rest have "es' = es" by (auto simp: append_eq_append_conv2 append_eq_Cons_conv)
      with receives_broken assms(3) whole show ?thesis by (auto dest: unforged_prefix)
    qed
  qed
qed

section \<open>Properties\<close>

text \<open>C6: What Python receives is what the peer sent. In every run of a Python session, with calls dropped, cancelled
  and closed at any point in both directions and a network that does anything but forge, the messages given to
  the receiving calls are, in the order the calls held the gate, a prefix of the peer's messages; every Python
  future that resolved to a success is among those calls.\<close>

theorem python_receives_prefix:
  assumes "duplex_run secure_session_new as = Some s"
    and "inner_receives cr rs (sd_log (side DirReceive s)) rs' w' got arrived"
    and "aead_ok cr" and "seal_all cr (transcript_hash rs) (receive_state rs) sent = Some frames"
    and "unforged cr (transcript_hash rs) (receive_state rs) frames arrived"
  shows "length got \<le> length sent \<and> map snd got = take (length got) sent
    \<and> map fst got = ok_calls (sd_log (side DirReceive s))
    \<and> (\<forall>i < length (sd_calls (side DirReceive s)).
         sc_future (the_call DirReceive i s) = FutureResolved (Inr ()) \<longrightarrow> (\<exists>p. (i, p) \<in> set got))"
proof -
  note inv = duplex_reached [OF assms(1)]
  have reach: "session_reachable (session_view DirReceive s)" using inv by (simp add: duplex_inv_def)
  have log: "ps_log (session_view DirReceive s) = sd_log (side DirReceive s)" by (simp add: session_view_def)
  from session_reachable_inv [OF reach] obtain es rest where es: "sd_log (side DirReceive s) = es @ rest" "completed_pairs es"
    and rest: "rest = [] \<or> (\<exists>i. rest = [InnerStarted i]) \<or> (\<exists>i. rest = [InnerStarted i, InnerBroken i])"
    unfolding session_inv_def log by (metis append_Nil2)
  from inner_receives_prefix [OF assms(3-5) assms(2) [unfolded es(1)] es(2) rest] have
    "length got \<le> length sent" "map snd got = take (length got) sent" by auto
  moreover have fst: "map fst got = ok_calls (sd_log (side DirReceive s))" by (rule inner_receives_calls [OF assms(2)])
  moreover have "\<exists>p. (i, p) \<in> set got"
    if i: "i < length (sd_calls (side DirReceive s))" "sc_future (the_call DirReceive i s) = FutureResolved (Inr ())" for i
  proof -
    have "sc_pc (the_call DirReceive i s) = CallReturned (Inr ())"
      using futures_ok_nth [OF _ i(1)] inv i(2) by (simp add: duplex_inv_def future_ok_def)
    with session_reachable_results [OF reach] i(1) have "InnerOk i \<in> set (sd_log (side DirReceive s))"
      by (simp add: results_inv_def session_view_def the_call_def)
    then have "i \<in> set (map fst got)" unfolding fst ok_calls_set .
    then show ?thesis by auto
  qed
  ultimately show ?thesis by blast
qed

text \<open>One receive; its frame arrives after the session was made.\<close>

definition delivery_demo :: "duplex_action list" where
  "delivery_demo =
     [BeginCall None (Inr ()) (Inr ()), PollCall DirReceive 0 CallGateAcquired,
      PollCall DirReceive 0 (InnerReturned (Inr ())), DeliverCall DirReceive 0]"

lemma delivery_demo_run:
  "\<exists>s. duplex_run secure_session_new delivery_demo = Some s \<and> sd_log (side DirReceive s) = [InnerStarted 0, InnerOk 0]
     \<and> length (sd_calls (side DirReceive s)) = 1 \<and> sc_future (the_call DirReceive 0 s) = FutureResolved (Inr ())"
  by (simp add: delivery_demo_def duplex_eval)

lemma python_receives_prefix_witness:
  "\<exists>s rs' w' got arrived. duplex_run secure_session_new delivery_demo = Some s
     \<and> inner_receives strict_toy demo_session (sd_log (side DirReceive s)) rs' w' got arrived
     \<and> map snd got = take (length got) [[1, 2], [1, 2]] \<and> (\<exists>p. (0, p) \<in> set got)"
proof -
  let ?a = "demo_net (replicate 40 2) []"
  let ?w = "demo_net (replicate 40 2) (frame_bytes (demo_frame 0))"
  have hash: "transcript_hash demo_session = replicate 32 9" by (simp add: demo_session_def)
  have all: "seal_all strict_toy (transcript_hash demo_session) (receive_state demo_session) [[1, 2], [1, 2]]
      = Some [demo_frame 0, demo_frame 1]"
    using demo_seal [of 0] demo_seal [of 1] by (simp add: hash seal_all_Cons_iff)
  have one: "seal_all strict_toy (transcript_hash demo_session) (receive_state demo_session) [[1, 2]] = Some [demo_frame 0]"
    using demo_seal [of 0] by (simp add: hash)
  have unf: "unforged strict_toy (transcript_hash demo_session) (receive_state demo_session)
      [demo_frame 0, demo_frame 1] (net_in ?w)"
    unfolding unforged_def using demo_unseal single_delivery by (fastforce simp: hash)
  have frames: "\<forall>f \<in> set [demo_frame 0]. frame_ok f" "length (wire [demo_frame 0]) \<le> net_fuel ?w"
    "net_in ?w = wire [demo_frame 0] @ []"
    using length_demo_frame [of 0] by (auto simp: frame_ok_def MAX_FRAME_SIZE_def FRAME_LENGTH_SIZE_def)
  from conn_reader.receive_all_live [OF strict_toy_aead demo_net_live one frames] obtain rs1 w1 where
    "receive_all strict_toy conn_receive 1 (demo_session, ?w) = (Ret [[1, 2]], (rs1, w1))" by auto
  then have r: "secure_receive strict_toy conn_receive (demo_session, ?w) = (Ret [1, 2], (rs1, w1))"
    by (auto simp: and_then_Ret_iff)
  have inv: "net_inv ?a" "net_inv ?w" by (rule net_live_inv [OF demo_net_live])+
  have in_w: "net_in ?w = net_in ?a @ frame_bytes (demo_frame 0)" by simp
  from delivery_demo_run obtain s where s: "duplex_run secure_session_new delivery_demo = Some s"
    "sd_log (side DirReceive s) = [] @ [InnerStarted 0, InnerOk 0]" "length (sd_calls (side DirReceive s)) = 1"
    "sc_future (the_call DirReceive 0 s) = FutureResolved (Inr ())" by auto
  have len: "0 < length (sd_calls (side DirReceive s))" using s(3) by simp
  have run: "inner_receives strict_toy demo_session (sd_log (side DirReceive s)) rs1 w1
      ([] @ [(0, [1, 2])]) (net_in ?a @ frame_bytes (demo_frame 0))"
    unfolding s(2) by (rule receives_ok [OF receives_none [OF inv(1)] inv(2) in_w r])
  from python_receives_prefix [OF s(1) run strict_toy_aead all] unf in_w s(1,4) len run show ?thesis by metis
qed

end
