(* ===== verification/Queues.thy ===== *)
theory Queues
  imports Results
begin

text \<open>
  The Python queues (\<open>crates/taunicorn-python/src/channel.rs\<close>): a Tokio channel behind a receiver
  mutex and a shutdown token. The channel is not part of the sources: it is the record
  \<open>channel_ops\<close>, an argument, and \<open>channel_ok\<close> states the documented behaviour the queues
  rely on: first in first out, a full channel keeps a send waiting, a closed one refuses sends but
  still hands out what it holds. \<open>BoundedQueue\<close> and \<open>UnboundedQueue\<close> differ in the channel and the
  constructor only. Receivers are state machines that hold the mutex from the poll that gets it to the
  one that returns, or until they are dropped.
\<close>

datatype send_answer = SendOk | SendFull | SendClosed

datatype 'x recv_answer = RecvItem 'x | RecvEmpty | RecvDisconnected

record ('c, 'x) channel_ops =
  ch_send :: "'c \<Rightarrow> 'x \<Rightarrow> send_answer \<times> 'c"
  ch_recv :: "'c \<Rightarrow> 'x recv_answer \<times> 'c"
  ch_close :: "'c \<Rightarrow> 'c"
  ch_is_closed :: "'c \<Rightarrow> bool"

definition channel_ok :: "('c, 'x) channel_ops \<Rightarrow> ('c \<Rightarrow> 'x list) \<Rightarrow> nat option \<Rightarrow> bool" where
  "channel_ok ch items cap \<longleftrightarrow>
     (\<forall>c x. ch_is_closed ch c \<longrightarrow> ch_send ch c x = (SendClosed, c))
     \<and> (\<forall>c x. \<not> ch_is_closed ch c \<and> cap = Some (length (items c)) \<longrightarrow> ch_send ch c x = (SendFull, c))
     \<and> (\<forall>c x. \<not> ch_is_closed ch c \<and> cap \<noteq> Some (length (items c)) \<longrightarrow>
          (\<exists>d. ch_send ch c x = (SendOk, d) \<and> items d = items c @ [x] \<and> \<not> ch_is_closed ch d))
     \<and> (\<forall>c x xs. items c = x # xs \<longrightarrow>
          (\<exists>d. ch_recv ch c = (RecvItem x, d) \<and> items d = xs \<and> ch_is_closed ch d = ch_is_closed ch c))
     \<and> (\<forall>c. items c = [] \<longrightarrow> ch_recv ch c = (if ch_is_closed ch c then RecvDisconnected else RecvEmpty, c))
     \<and> (\<forall>c. items (ch_close ch c) = items c \<and> ch_is_closed ch (ch_close ch c))"

datatype queue_exception = QueueClosed | QueueFull | QueueEmpty | QueueBusy | CapacityError

type_synonym queue_err = "queue_exception \<times> string"

definition queue_closed_error :: queue_err where
  "queue_closed_error = (QueueClosed, ''queue is closed'')"

definition recv_error :: "'x recv_answer \<Rightarrow> queue_err" where
  "recv_error r =
     (case r of RecvEmpty \<Rightarrow> (QueueEmpty, ''queue is empty'') | _ \<Rightarrow> queue_closed_error)"

record 'c queue =
  q_chan :: 'c
  q_rx_locked :: bool
  q_shutdown :: bool

definition bounded_new :: "nat \<Rightarrow> (nat \<Rightarrow> 'c) \<Rightarrow> nat \<Rightarrow> queue_err + 'c queue" where
  "bounded_new max_permits channel capacity =
     (if capacity = 0 \<or> capacity > max_permits
      then Inl (CapacityError, ''capacity must be between 1 and '' @ decimal max_permits)
      else Inr \<lparr>q_chan = channel capacity, q_rx_locked = False, q_shutdown = False\<rparr>)"

definition unbounded_new :: "'c \<Rightarrow> 'c queue" where
  "unbounded_new channel = \<lparr>q_chan = channel, q_rx_locked = False, q_shutdown = False\<rparr>"

definition queue_is_closed :: "('c, 'x) channel_ops \<Rightarrow> 'c queue \<Rightarrow> bool" where
  "queue_is_closed ch q \<longleftrightarrow> q_shutdown q \<or> ch_is_closed ch (q_chan q)"

text \<open>One poll of the future \<open>send\<close> returns; \<open>None\<close> while the channel is full.\<close>

definition queue_send_poll ::
  "('c, 'x) channel_ops \<Rightarrow> 'x \<Rightarrow> 'c queue \<Rightarrow> ((queue_err + unit) \<times> 'c queue) option" where
  "queue_send_poll ch x q =
     (if q_shutdown q then Some (Inl queue_closed_error, q)
      else (case ch_send ch (q_chan q) x of
              (SendOk, c) \<Rightarrow> Some (Inr (), q\<lparr>q_chan := c\<rparr>)
            | (SendFull, c) \<Rightarrow> None
            | (SendClosed, c) \<Rightarrow> Some (Inl queue_closed_error, q\<lparr>q_chan := c\<rparr>)))"

definition queue_try_send :: "('c, 'x) channel_ops \<Rightarrow> 'x \<Rightarrow> 'c queue \<Rightarrow> (queue_err + unit) \<times> 'c queue" where
  "queue_try_send ch x q =
     (if queue_is_closed ch q then (Inl queue_closed_error, q)
      else (case ch_send ch (q_chan q) x of
              (SendOk, c) \<Rightarrow> (Inr (), q\<lparr>q_chan := c\<rparr>)
            | (SendFull, c) \<Rightarrow> (Inl (QueueFull, ''queue is full''), q\<lparr>q_chan := c\<rparr>)
            | (SendClosed, c) \<Rightarrow> (Inl queue_closed_error, q\<lparr>q_chan := c\<rparr>)))"

datatype 'x recv_pc = RecvLock | RecvWait | RecvDone "queue_err + 'x" | RecvDropped

text \<open>The \<open>select!\<close> of \<open>recv\<close>, with the mutex held.\<close>

definition queue_recv_wait :: "('c, 'x) channel_ops \<Rightarrow> 'c queue \<Rightarrow> 'x recv_pc \<times> 'c queue" where
  "queue_recv_wait ch q =
     (let c = (if q_shutdown q then ch_close ch (q_chan q) else q_chan q) in
      case ch_recv ch c of
        (RecvItem x, d) \<Rightarrow> (RecvDone (Inr x), q\<lparr>q_chan := d, q_rx_locked := False\<rparr>)
      | (RecvDisconnected, d) \<Rightarrow>
          (RecvDone (Inl queue_closed_error), q\<lparr>q_chan := d, q_rx_locked := False\<rparr>)
      | (RecvEmpty, d) \<Rightarrow> (RecvWait, q\<lparr>q_chan := d, q_rx_locked := True\<rparr>))"

fun queue_recv_poll :: "('c, 'x) channel_ops \<Rightarrow> 'x recv_pc \<Rightarrow> 'c queue \<Rightarrow> 'x recv_pc \<times> 'c queue" where
  "queue_recv_poll ch RecvLock q = (if q_rx_locked q then (RecvLock, q) else queue_recv_wait ch q)"
| "queue_recv_poll ch RecvWait q = queue_recv_wait ch q"
| "queue_recv_poll ch p q = (p, q)"

text \<open>The mutex hands itself to a waiting receiver that has not been polled yet.\<close>

fun queue_recv_grant :: "'x recv_pc \<Rightarrow> 'c queue \<Rightarrow> 'x recv_pc \<times> 'c queue" where
  "queue_recv_grant RecvLock q =
     (if q_rx_locked q then (RecvLock, q) else (RecvWait, q\<lparr>q_rx_locked := True\<rparr>))"
| "queue_recv_grant p q = (p, q)"

fun queue_recv_drop :: "'x recv_pc \<Rightarrow> 'c queue \<Rightarrow> 'x recv_pc \<times> 'c queue" where
  "queue_recv_drop RecvLock q = (RecvDropped, q)"
| "queue_recv_drop RecvWait q = (RecvDropped, q\<lparr>q_rx_locked := False\<rparr>)"
| "queue_recv_drop p q = (p, q)"

definition queue_try_recv :: "('c, 'x) channel_ops \<Rightarrow> 'c queue \<Rightarrow> (queue_err + 'x) \<times> 'c queue" where
  "queue_try_recv ch q =
     (if q_rx_locked q then (Inl (QueueBusy, ''receiver is busy''), q)
      else
        (let c = (if q_shutdown q then ch_close ch (q_chan q) else q_chan q) in
         case ch_recv ch c of
           (RecvItem x, d) \<Rightarrow> (Inr x, q\<lparr>q_chan := d\<rparr>)
         | (r, d) \<Rightarrow> (Inl (recv_error r), q\<lparr>q_chan := d\<rparr>)))"

definition queue_close :: "('c, 'x) channel_ops \<Rightarrow> 'c queue \<Rightarrow> 'c queue" where
  "queue_close ch q =
     (let q' = q\<lparr>q_shutdown := True\<rparr> in
      if q_rx_locked q then q' else q'\<lparr>q_chan := ch_close ch (q_chan q')\<rparr>)"

text \<open>
  The capacity getters ask the channel: how many sends it would take now, and how many it was made for.
\<close>

definition queue_capacity :: "('c \<Rightarrow> nat) \<Rightarrow> 'c queue \<Rightarrow> nat" where
  "queue_capacity capacity q = capacity (q_chan q)"

definition queue_max_capacity :: "('c \<Rightarrow> nat) \<Rightarrow> 'c queue \<Rightarrow> nat" where
  "queue_max_capacity max_capacity q = max_capacity (q_chan q)"

section \<open>A queue with its users\<close>

text \<open>The items the queue accepted and the items it handed out, each in order.\<close>

record ('c, 'x) queue_sys =
  qs_queue :: "'c queue"
  qs_receivers :: "'x recv_pc list"
  qs_accepted :: "'x list"
  qs_delivered :: "'x list"

datatype 'x queue_action =
  TrySend 'x | PollSend 'x | TryRecv | StartRecv | GrantRecv nat | PollRecv nat | DropRecv nat | CloseQueue

definition accept_send ::
  "'x \<Rightarrow> (queue_err + unit) \<times> 'c queue \<Rightarrow> ('c, 'x) queue_sys \<Rightarrow> ('c, 'x) queue_sys" where
  "accept_send x r s =
     s\<lparr>qs_queue := snd r,
       qs_accepted := qs_accepted s @ (case fst r of Inr _ \<Rightarrow> [x] | Inl e \<Rightarrow> [])\<rparr>"

text \<open>The receiver that a step is about (a dropped one where there is none), the item its poll returns, and
  the system after it.\<close>

definition receiver :: "('c, 'x) queue_sys \<Rightarrow> nat \<Rightarrow> 'x recv_pc" where
  "receiver s i = (if i < length (qs_receivers s) then qs_receivers s ! i else RecvDropped)"

fun received :: "'x recv_pc \<Rightarrow> 'x recv_pc \<Rightarrow> 'x list" where
  "received (RecvDone r) p = []"
| "received p (RecvDone (Inr x)) = [x]"
| "received p p' = []"

definition receiver_step ::
  "('c, 'x) queue_sys \<Rightarrow> nat \<Rightarrow> 'x recv_pc \<times> 'c queue \<Rightarrow> 'x list \<Rightarrow> ('c, 'x) queue_sys" where
  "receiver_step s i r out =
     s\<lparr>qs_queue := snd r, qs_receivers := (qs_receivers s)[i := fst r],
       qs_delivered := qs_delivered s @ out\<rparr>"

definition queue_step :: "('c, 'x) channel_ops \<Rightarrow> 'x queue_action \<Rightarrow> ('c, 'x) queue_sys \<Rightarrow> ('c, 'x) queue_sys" where
  "queue_step ch a s =
     (case a of
        TrySend x \<Rightarrow> accept_send x (queue_try_send ch x (qs_queue s)) s
      | PollSend x \<Rightarrow>
          (case queue_send_poll ch x (qs_queue s) of None \<Rightarrow> s | Some r \<Rightarrow> accept_send x r s)
      | TryRecv \<Rightarrow>
          (case queue_try_recv ch (qs_queue s) of
             (Inr x, q) \<Rightarrow> s\<lparr>qs_queue := q, qs_delivered := qs_delivered s @ [x]\<rparr>
           | (Inl e, q) \<Rightarrow> s\<lparr>qs_queue := q\<rparr>)
      | StartRecv \<Rightarrow> s\<lparr>qs_receivers := qs_receivers s @ [RecvLock]\<rparr>
      | GrantRecv i \<Rightarrow> receiver_step s i (queue_recv_grant (receiver s i) (qs_queue s)) []
      | PollRecv i \<Rightarrow>
          (let r = queue_recv_poll ch (receiver s i) (qs_queue s)
           in receiver_step s i r (received (receiver s i) (fst r)))
      | DropRecv i \<Rightarrow> receiver_step s i (queue_recv_drop (receiver s i) (qs_queue s)) []
      | CloseQueue \<Rightarrow> s\<lparr>qs_queue := queue_close ch (qs_queue s)\<rparr>)"

definition queue_run :: "('c, 'x) channel_ops \<Rightarrow> 'x queue_action list \<Rightarrow> ('c, 'x) queue_sys \<Rightarrow> ('c, 'x) queue_sys" where
  "queue_run ch as s = fold (queue_step ch) as s"

definition queue_init :: "'c queue \<Rightarrow> ('c, 'x) queue_sys" where
  "queue_init q = \<lparr>qs_queue = q, qs_receivers = [], qs_accepted = [], qs_delivered = []\<rparr>"

text \<open>Repeated \<open>try_recv\<close>, until the first refusal.\<close>

fun queue_drain :: "('c, 'x) channel_ops \<Rightarrow> nat \<Rightarrow> 'c queue \<Rightarrow> 'x list \<times> queue_err option" where
  "queue_drain ch 0 q = ([], None)"
| "queue_drain ch (Suc n) q =
     (case queue_try_recv ch q of
        (Inl e, q') \<Rightarrow> ([], Some e)
      | (Inr x, q') \<Rightarrow> (case queue_drain ch n q' of (xs, r) \<Rightarrow> (x # xs, r)))"

section \<open>What the channel promises\<close>

lemma channel_send_closed: "channel_ok ch items cap \<Longrightarrow> ch_is_closed ch c \<Longrightarrow> ch_send ch c x = (SendClosed, c)"
  unfolding channel_ok_def by blast

lemma channel_send_full:
  "channel_ok ch items (Some (length (items c))) \<Longrightarrow> \<not> ch_is_closed ch c \<Longrightarrow> ch_send ch c x = (SendFull, c)"
  unfolding channel_ok_def by blast

lemma channel_send_ok:
  "channel_ok ch items cap \<Longrightarrow> \<not> ch_is_closed ch c \<Longrightarrow> cap \<noteq> Some (length (items c)) \<Longrightarrow>
     \<exists>d. ch_send ch c x = (SendOk, d) \<and> items d = items c @ [x] \<and> \<not> ch_is_closed ch d"
  unfolding channel_ok_def by blast

lemma channel_send_cases:
  assumes "channel_ok ch items cap"
  obtains "ch_is_closed ch c" "ch_send ch c x = (SendClosed, c)"
  | "\<not> ch_is_closed ch c" "ch_send ch c x = (SendFull, c)" "cap = Some (length (items c))"
  | d where "\<not> ch_is_closed ch c" "ch_send ch c x = (SendOk, d)" "items d = items c @ [x]"
      "cap \<noteq> Some (length (items c))"
  using channel_send_closed [OF assms, of c x] channel_send_full [of ch items c x]
    channel_send_ok [OF assms, of c x] assms
  by (cases "ch_is_closed ch c"; cases "cap = Some (length (items c))") auto

lemma channel_recv_item:
  "channel_ok ch items cap \<Longrightarrow> items c = x # xs \<Longrightarrow> \<exists>d. ch_recv ch c = (RecvItem x, d) \<and> items d = xs
     \<and> ch_is_closed ch d = ch_is_closed ch c"
  unfolding channel_ok_def by blast

lemma channel_recv_none:
  "channel_ok ch items cap \<Longrightarrow> items c = [] \<Longrightarrow>
     ch_recv ch c = (if ch_is_closed ch c then RecvDisconnected else RecvEmpty, c)"
  unfolding channel_ok_def by blast

lemma channel_close:
  "channel_ok ch items cap \<Longrightarrow> items (ch_close ch c) = items c \<and> ch_is_closed ch (ch_close ch c)"
  unfolding channel_ok_def by blast

lemma channel_recv_cases:
  assumes "channel_ok ch items cap"
  obtains x d where "ch_recv ch c = (RecvItem x, d)" "items c = x # items d"
      "ch_is_closed ch d = ch_is_closed ch c"
  | "ch_recv ch c = (RecvDisconnected, c)" "items c = []" "ch_is_closed ch c"
  | "ch_recv ch c = (RecvEmpty, c)" "items c = []" "\<not> ch_is_closed ch c"
  using channel_recv_item [OF assms, of c] channel_recv_none [OF assms, of c]
  by (cases "items c"; cases "ch_is_closed ch c") auto

section \<open>The queue invariant\<close>

text \<open>Every accepted item is either delivered or in the channel, in order; the channel never holds more
  than its capacity; the mutex is held by exactly one waiting receiver, or free.\<close>

fun holds_lock :: "'x recv_pc \<Rightarrow> nat" where
  "holds_lock RecvWait = 1"
| "holds_lock p = 0"

definition queue_inv :: "('c \<Rightarrow> 'x list) \<Rightarrow> nat option \<Rightarrow> ('c, 'x) queue_sys \<Rightarrow> bool" where
  "queue_inv items cap s \<longleftrightarrow>
     qs_accepted s = qs_delivered s @ items (q_chan (qs_queue s))
     \<and> (case cap of None \<Rightarrow> True | Some n \<Rightarrow> length (items (q_chan (qs_queue s))) \<le> n)
     \<and> sum_list (map holds_lock (qs_receivers s)) = (if q_rx_locked (qs_queue s) then 1 else 0)"

lemma holds_lock_update:
  "i < length ps \<Longrightarrow>
     sum_list (map holds_lock (ps[i := p])) + holds_lock (ps ! i) = sum_list (map holds_lock ps) + holds_lock p"
  by (induction ps arbitrary: i) (auto split: nat.splits simp: nth_Cons')

lemma holds_lock_le: "i < length ps \<Longrightarrow> holds_lock (ps ! i) \<le> sum_list (map holds_lock ps)"
  by (induction ps arbitrary: i) (auto simp: nth_Cons' trans_le_add2)

abbreviation lock_count :: "'c queue \<Rightarrow> nat" where
  "lock_count q \<equiv> if q_rx_locked q then 1 else 0"

fun sent :: "'x \<Rightarrow> queue_err + unit \<Rightarrow> 'x list" where
  "sent x (Inr u) = [x]"
| "sent x (Inl e) = []"

lemma accept_send_sent:
  "accept_send x r s = s\<lparr>qs_queue := snd r, qs_accepted := qs_accepted s @ sent x (fst r)\<rparr>"
  unfolding accept_send_def by (cases "fst r") auto

lemma queue_try_send_effect:
  assumes "channel_ok ch items cap" "queue_try_send ch x q = (r, q')"
  shows "items (q_chan q') = items (q_chan q) @ sent x r" "q_rx_locked q' = q_rx_locked q"
    "q_shutdown q' = q_shutdown q" "r = Inr () \<Longrightarrow> \<not> q_shutdown q \<and> cap \<noteq> Some (length (items (q_chan q)))"
  using assms(2) unfolding queue_try_send_def
  by (cases rule: channel_send_cases [OF assms(1), of "q_chan q" x],
      auto simp: queue_is_closed_def split: if_splits)+

lemma queue_send_poll_effect:
  assumes "channel_ok ch items cap" "queue_send_poll ch x q = Some (r, q')"
  shows "items (q_chan q') = items (q_chan q) @ sent x r" "q_rx_locked q' = q_rx_locked q"
    "q_shutdown q' = q_shutdown q" "r = Inr () \<Longrightarrow> \<not> q_shutdown q \<and> cap \<noteq> Some (length (items (q_chan q)))"
  using assms(2) unfolding queue_send_poll_def
  by (cases rule: channel_send_cases [OF assms(1), of "q_chan q" x],
      auto simp: split: if_splits)+

lemma queue_recv_wait_effect:
  assumes ch: "channel_ok ch items cap" and w: "queue_recv_wait ch q = (p, q')"
  shows "items (q_chan q) = received RecvWait p @ items (q_chan q')" "q_shutdown q' = q_shutdown q"
    "q_rx_locked q' = (p = RecvWait)" "p = RecvWait \<or> (\<exists>r. p = RecvDone r)"
    "q_shutdown q \<Longrightarrow> p = RecvDone (case items (q_chan q) of [] \<Rightarrow> Inl queue_closed_error | x # xs \<Rightarrow> Inr x)"
proof -
  define c where "c = (if q_shutdown q then ch_close ch (q_chan q) else q_chan q)"
  have i: "items c = items (q_chan q)" "q_shutdown q \<Longrightarrow> ch_is_closed ch c"
    using channel_close [OF ch, of "q_chan q"] by (auto simp: c_def)
  have w': "queue_recv_wait ch q = (case ch_recv ch c of
        (RecvItem x, d) \<Rightarrow> (RecvDone (Inr x), q\<lparr>q_chan := d, q_rx_locked := False\<rparr>)
      | (RecvDisconnected, d) \<Rightarrow> (RecvDone (Inl queue_closed_error), q\<lparr>q_chan := d, q_rx_locked := False\<rparr>)
      | (RecvEmpty, d) \<Rightarrow> (RecvWait, q\<lparr>q_chan := d, q_rx_locked := True\<rparr>))"
    unfolding queue_recv_wait_def c_def Let_def by simp
  have "items (q_chan q) = received RecvWait p @ items (q_chan q') \<and> q_shutdown q' = q_shutdown q
    \<and> q_rx_locked q' = (p = RecvWait) \<and> (p = RecvWait \<or> (\<exists>r. p = RecvDone r))
    \<and> (q_shutdown q \<longrightarrow> p = RecvDone (case items (q_chan q) of [] \<Rightarrow> Inl queue_closed_error | x # xs \<Rightarrow> Inr x))"
    using w i(2) unfolding i(1) [symmetric] w'
    by (cases rule: channel_recv_cases [OF ch, of c]) auto
  then show "items (q_chan q) = received RecvWait p @ items (q_chan q')" "q_shutdown q' = q_shutdown q"
    "q_rx_locked q' = (p = RecvWait)" "p = RecvWait \<or> (\<exists>r. p = RecvDone r)"
    "q_shutdown q \<Longrightarrow> p = RecvDone (case items (q_chan q) of [] \<Rightarrow> Inl queue_closed_error | x # xs \<Rightarrow> Inr x)"
    by blast+
qed

lemma queue_try_recv_effect:
  assumes ch: "channel_ok ch items cap" and w: "queue_try_recv ch q = (r, q')"
  shows "items (q_chan q) = (case r of Inr x \<Rightarrow> [x] | Inl e \<Rightarrow> []) @ items (q_chan q')"
    "q_shutdown q' = q_shutdown q" "q_rx_locked q' = q_rx_locked q"
    "\<not> q_rx_locked q \<Longrightarrow> q_shutdown q \<Longrightarrow>
       r = (case items (q_chan q) of [] \<Rightarrow> Inl queue_closed_error | x # xs \<Rightarrow> Inr x)"
proof -
  define c where "c = (if q_shutdown q then ch_close ch (q_chan q) else q_chan q)"
  have i: "items c = items (q_chan q)" "q_shutdown q \<Longrightarrow> ch_is_closed ch c"
    using channel_close [OF ch, of "q_chan q"] by (auto simp: c_def)
  have w': "queue_try_recv ch q = (if q_rx_locked q then (Inl (QueueBusy, ''receiver is busy''), q) else
      case ch_recv ch c of
        (RecvItem x, d) \<Rightarrow> (Inr x, q\<lparr>q_chan := d\<rparr>)
      | (r, d) \<Rightarrow> (Inl (recv_error r), q\<lparr>q_chan := d\<rparr>))"
    unfolding queue_try_recv_def c_def Let_def by simp
  have "items (q_chan q) = (case r of Inr x \<Rightarrow> [x] | Inl e \<Rightarrow> []) @ items (q_chan q')
    \<and> q_shutdown q' = q_shutdown q \<and> q_rx_locked q' = q_rx_locked q
    \<and> (\<not> q_rx_locked q \<longrightarrow> q_shutdown q \<longrightarrow>
       r = (case items (q_chan q) of [] \<Rightarrow> Inl queue_closed_error | x # xs \<Rightarrow> Inr x))"
  proof (cases "q_rx_locked q")
    case True
    then show ?thesis using w unfolding w' by auto
  next
    case False
    then show ?thesis using w i(2) unfolding i(1) [symmetric] w'
      by (cases rule: channel_recv_cases [OF ch, of c]) (auto simp: recv_error_def)
  qed
  then show "items (q_chan q) = (case r of Inr x \<Rightarrow> [x] | Inl e \<Rightarrow> []) @ items (q_chan q')"
    "q_shutdown q' = q_shutdown q" "q_rx_locked q' = q_rx_locked q"
    "\<not> q_rx_locked q \<Longrightarrow> q_shutdown q \<Longrightarrow>
       r = (case items (q_chan q) of [] \<Rightarrow> Inl queue_closed_error | x # xs \<Rightarrow> Inr x)"
    by blast+
qed

text \<open>
  Tokio documents the capacity of a bounded channel as its size less the items it holds. It then tells exactly
  whether a send is refused as full, and each accepted item takes one from it.
\<close>

definition capacity_ok :: "('c \<Rightarrow> 'x list) \<Rightarrow> nat \<Rightarrow> ('c \<Rightarrow> nat) \<Rightarrow> bool" where
  "capacity_ok items n capacity \<longleftrightarrow> (\<forall>c. length (items c) \<le> n \<longrightarrow> capacity c = n - length (items c))"

lemma queue_capacity_exact:
  assumes ch: "channel_ok ch items (Some n)" and cap: "capacity_ok items n capacity"
    and len: "length (items (q_chan q)) \<le> n" and "\<not> queue_is_closed ch q"
    and r: "queue_try_send ch x q = (r, q')"
  shows "r = (if queue_capacity capacity q = 0 then Inl (QueueFull, ''queue is full'') else Inr ())
    \<and> (r = Inr () \<longrightarrow> Suc (queue_capacity capacity q') = queue_capacity capacity q)"
proof -
  have open_c: "\<not> ch_is_closed ch (q_chan q)" using assms(4) by (simp add: queue_is_closed_def)
  show ?thesis
  proof (cases "length (items (q_chan q)) = n")
    case True
    with ch open_c have "ch_send ch (q_chan q) x = (SendFull, q_chan q)" unfolding channel_ok_def by metis
    with r assms(4) True cap show ?thesis by (auto simp: queue_try_send_def queue_capacity_def capacity_ok_def)
  next
    case False
    with ch open_c have "\<exists>d. ch_send ch (q_chan q) x = (SendOk, d) \<and> items d = items (q_chan q) @ [x]"
      unfolding channel_ok_def by (metis option.inject)
    then obtain d where d: "ch_send ch (q_chan q) x = (SendOk, d)" "items d = items (q_chan q) @ [x]" by blast
    have "capacity (q_chan q) = n - length (items (q_chan q))" "capacity d = n - length (items d)"
      using cap len False d(2) by (simp_all add: capacity_ok_def)
    with r assms(4) d False len show ?thesis by (auto simp: queue_try_send_def queue_capacity_def)
  qed
qed

lemma queue_close_effect:
  assumes "channel_ok ch items cap"
  shows "items (q_chan (queue_close ch q)) = items (q_chan q)" "q_shutdown (queue_close ch q)"
    "q_rx_locked (queue_close ch q) = q_rx_locked q"
  using channel_close [OF assms, of "q_chan q"] by (simp_all add: queue_close_def Let_def)

lemma receiver_step_inv:
  assumes inv: "queue_inv items cap s"
    and out: "items (q_chan (qs_queue s)) = out @ items (q_chan (snd r))"
    and lock: "holds_lock (fst r) + lock_count (qs_queue s) = holds_lock (receiver s i) + lock_count (snd r)"
    and drop: "receiver s i = RecvDropped \<Longrightarrow> fst r = RecvDropped"
  shows "queue_inv items cap (receiver_step s i r out)"
proof -
  have "sum_list (map holds_lock ((qs_receivers s)[i := fst r])) + lock_count (qs_queue s)
      = sum_list (map holds_lock (qs_receivers s)) + lock_count (snd r)"
  proof (cases "i < length (qs_receivers s)")
    case True
    then show ?thesis using lock holds_lock_update [OF True, of "fst r"] by (auto simp: receiver_def split: if_splits)
  next
    case False
    then show ?thesis using lock drop by (simp add: receiver_def list_update_beyond)
  qed
  then show ?thesis using inv out
    by (auto simp: queue_inv_def receiver_step_def split: option.splits if_splits)
qed

lemma receiver_holds_lock: "queue_inv items cap s \<Longrightarrow> receiver s i = RecvWait \<Longrightarrow> q_rx_locked (qs_queue s)"
  using holds_lock_le [of i "qs_receivers s"]
  by (cases "q_rx_locked (qs_queue s)"; cases "i < length (qs_receivers s)")
    (simp_all add: queue_inv_def receiver_def del: sum_list_eq_0_iff)

lemma received_lock: "received RecvLock p = received RecvWait p"
proof (cases p)
  case (RecvDone r)
  then show ?thesis by (cases r) auto
qed auto

lemma poll_send_inv:
  assumes ch: "channel_ok ch items cap" and inv: "queue_inv items cap s"
  shows "queue_inv items cap (queue_step ch (PollSend x) s)"
proof (cases "queue_send_poll ch x (qs_queue s)")
  case None
  then show ?thesis using inv by (simp add: queue_step_def)
next
  case (Some rq)
  obtain r q where rq: "rq = (r, q)" by fastforce
  with queue_send_poll_effect [OF ch Some [unfolded rq]] inv Some show ?thesis
    by (cases r) (auto simp: queue_step_def accept_send_sent queue_inv_def split: option.splits)
qed

lemma poll_recv_inv:
  assumes ch: "channel_ok ch items cap" and inv: "queue_inv items cap s"
  shows "queue_inv items cap (queue_step ch (PollRecv i) s)"
proof -
  have wait: "queue_inv items cap (receiver_step s i r (received (receiver s i) (fst r)))"
    if r: "r = queue_recv_wait ch (qs_queue s)"
      and pc: "receiver s i = RecvWait \<or> receiver s i = RecvLock \<and> \<not> q_rx_locked (qs_queue s)" for r
  proof -
    obtain p q where pq: "queue_recv_wait ch (qs_queue s) = (p, q)" by fastforce
    note eff = queue_recv_wait_effect [OF ch pq]
    have "received (receiver s i) p = received RecvWait p" using pc received_lock by auto
    then show ?thesis
      using pc eff(1,3,4) receiver_holds_lock [OF inv, of i]
      by (intro receiver_step_inv [OF inv]) (auto simp: r pq)
  qed
  show ?thesis
  proof (cases "receiver s i")
    case RecvLock
    then show ?thesis using wait inv
      by (auto simp: queue_step_def Let_def intro!: receiver_step_inv [OF inv])
  next
    case RecvWait
    then show ?thesis using wait by (simp add: queue_step_def Let_def)
  qed (auto simp: queue_step_def Let_def intro!: receiver_step_inv [OF inv])
qed

lemma queue_step_inv:
  assumes ch: "channel_ok ch items cap" and inv: "queue_inv items cap s"
  shows "queue_inv items cap (queue_step ch a s)"
proof (cases a)
  case (TrySend x)
  obtain r q where "queue_try_send ch x (qs_queue s) = (r, q)" by fastforce
  with queue_try_send_effect [OF ch this] inv show ?thesis
    by (cases r) (auto simp: TrySend queue_step_def accept_send_sent queue_inv_def split: option.splits)
next
  case (PollSend x)
  then show ?thesis using poll_send_inv [OF assms] by simp
next
  case TryRecv
  obtain r q where "queue_try_recv ch (qs_queue s) = (r, q)" by fastforce
  with queue_try_recv_effect [OF ch this] inv show ?thesis
    by (cases r) (auto simp: TryRecv queue_step_def queue_inv_def split: option.splits)
next
  case StartRecv
  then show ?thesis using inv by (simp add: queue_step_def queue_inv_def cong: option.case_cong)
next
  case (GrantRecv i)
  then show ?thesis
    by (cases "receiver s i")
      (auto simp: queue_step_def intro!: receiver_step_inv [OF inv])
next
  case (PollRecv i)
  then show ?thesis using poll_recv_inv [OF assms] by simp
next
  case (DropRecv i)
  then show ?thesis using receiver_holds_lock [OF inv, of i]
    by (cases "receiver s i")
      (auto simp: queue_step_def intro!: receiver_step_inv [OF inv])
next
  case CloseQueue
  then show ?thesis using inv queue_close_effect [OF ch, of "qs_queue s"]
    by (simp add: queue_step_def queue_inv_def cong: option.case_cong)
qed

lemma queue_run_inv:
  "channel_ok ch items cap \<Longrightarrow> queue_inv items cap s \<Longrightarrow> queue_inv items cap (queue_run ch as s)"
  unfolding queue_run_def by (induction as arbitrary: s) (auto intro: queue_step_inv)

text \<open>The queue a program starts with: \<open>BoundedQueue(n)\<close> or \<open>UnboundedQueue()\<close> over an empty channel.\<close>

definition new_queue :: "nat \<Rightarrow> ('c \<Rightarrow> 'x list) \<Rightarrow> nat option \<Rightarrow> 'c queue \<Rightarrow> bool" where
  "new_queue max_permits items cap q \<longleftrightarrow>
     (case cap of
        Some n \<Rightarrow> bounded_new max_permits (\<lambda>n. q_chan q) n = Inr q
      | None \<Rightarrow> unbounded_new (q_chan q) = q)
     \<and> items (q_chan q) = []"

lemma new_queue_inv: "new_queue max_permits items cap q \<Longrightarrow> queue_inv items cap (queue_init q)"
  by (auto simp: new_queue_def bounded_new_def unbounded_new_def queue_inv_def queue_init_def
      split: option.splits if_splits)
    (metis queue.select_convs(2))+

section \<open>After a close\<close>

lemma queue_step_after_close:
  assumes ch: "channel_ok ch items cap" and sd: "q_shutdown (qs_queue s)"
  shows "q_shutdown (qs_queue (queue_step ch a s)) \<and> qs_accepted (queue_step ch a s) = qs_accepted s"
proof (cases a)
  case (TrySend x)
  show ?thesis using sd by (simp add: TrySend queue_step_def queue_try_send_def queue_is_closed_def accept_send_def)
next
  case (PollSend x)
  show ?thesis using sd by (simp add: PollSend queue_step_def queue_send_poll_def accept_send_def)
next
  case TryRecv
  obtain r q where "queue_try_recv ch (qs_queue s) = (r, q)" by fastforce
  with queue_try_recv_effect(2) [OF ch this] sd show ?thesis
    by (cases r) (simp_all add: TryRecv queue_step_def)
next
  case (GrantRecv i)
  show ?thesis using sd by (cases "receiver s i") (simp_all add: GrantRecv queue_step_def receiver_step_def)
next
  case (PollRecv i)
  obtain p q where "queue_recv_wait ch (qs_queue s) = (p, q)" by fastforce
  with queue_recv_wait_effect(2) [OF ch this] sd show ?thesis
    by (cases "receiver s i") (simp_all add: PollRecv queue_step_def receiver_step_def Let_def)
next
  case (DropRecv i)
  show ?thesis using sd by (cases "receiver s i") (simp_all add: DropRecv queue_step_def receiver_step_def)
qed (use sd in \<open>simp_all add: queue_step_def queue_close_effect [OF ch]\<close>)

lemma queue_run_after_close:
  "channel_ok ch items cap \<Longrightarrow> q_shutdown (qs_queue s) \<Longrightarrow>
     q_shutdown (qs_queue (queue_run ch as s)) \<and> qs_accepted (queue_run ch as s) = qs_accepted s"
  unfolding queue_run_def
proof (induction as arbitrary: s)
  case (Cons a as)
  then show ?case using queue_step_after_close [OF Cons.prems(1,2), of a] by simp
qed simp

lemma queue_drain_after_close:
  assumes "channel_ok ch items cap"
  shows "q_shutdown q \<Longrightarrow> \<not> q_rx_locked q \<Longrightarrow> length (items (q_chan q)) < n \<Longrightarrow>
     queue_drain ch n q = (items (q_chan q), Some queue_closed_error)"
proof (induction n arbitrary: q)
  case (Suc n)
  obtain r q' where r: "queue_try_recv ch q = (r, q')" by fastforce
  note eff = queue_try_recv_effect [OF assms r]
  show ?case
  proof (cases "items (q_chan q)")
    case Nil
    then show ?thesis using r eff(4) Suc.prems by simp
  next
    case (Cons x xs)
    then have "r = Inr x" "items (q_chan q') = xs" using eff(1,4) Suc.prems by simp_all
    then show ?thesis using r Cons Suc eff(2,3) by simp
  qed
qed simp

section \<open>Properties\<close>

text \<open>C25: A queue is first in first out, bounded and exclusive. Whatever sends, receives, dropped receivers and
  closes ran, in whatever order, on a new \<open>BoundedQueue\<close> or \<open>UnboundedQueue\<close>: the items handed out followed by
  the items still in the channel are the items accepted, in the order of acceptance (none is lost,
  duplicated or reordered, also when a waiting receiver is cancelled); a bounded queue never holds more
  than its capacity, which is between 1 and the semaphore's maximum; and at most one receiver waits on the
  channel, exactly when the mutex is held.\<close>

theorem queue_fifo:
  assumes "channel_ok ch items cap" "new_queue max_permits items cap q"
  shows "let s = queue_run ch as (queue_init q) in
     qs_accepted s = qs_delivered s @ items (q_chan (qs_queue s))
     \<and> (\<forall>n. cap = Some n \<longrightarrow> length (items (q_chan (qs_queue s))) \<le> n \<and> 1 \<le> n \<and> n \<le> max_permits)
     \<and> sum_list (map holds_lock (qs_receivers s)) = (if q_rx_locked (qs_queue s) then 1 else 0)"
proof -
  have "queue_inv items cap (queue_run ch as (queue_init q))"
    by (rule queue_run_inv [OF assms(1) new_queue_inv [OF assms(2)]])
  moreover have "1 \<le> n \<and> n \<le> max_permits" if "cap = Some n" for n
    using assms(2) that by (simp add: new_queue_def bounded_new_def split: if_splits)
  ultimately show ?thesis unfolding queue_inv_def Let_def by (cases cap) auto
qed


text \<open>The two properties on a channel that is a list and a flag.\<close>

definition list_channel :: "nat option \<Rightarrow> (nat list \<times> bool, nat) channel_ops" where
  "list_channel cap =
     \<lparr>ch_send = (\<lambda>(xs, closed) x. if closed then (SendClosed, (xs, closed))
        else if cap = Some (length xs) then (SendFull, (xs, closed)) else (SendOk, (xs @ [x], closed))),
      ch_recv = (\<lambda>(xs, closed). case xs of
          [] \<Rightarrow> (if closed then RecvDisconnected else RecvEmpty, (xs, closed))
        | x # ys \<Rightarrow> (RecvItem x, (ys, closed))),
      ch_close = (\<lambda>(xs, closed). (xs, True)), ch_is_closed = snd\<rparr>"

lemma list_channel_ok: "channel_ok (list_channel cap) fst cap"
  by (auto simp: channel_ok_def list_channel_def)

definition queue_example :: "nat queue_action list" where
  "queue_example = [StartRecv, PollRecv 0, TrySend 5, TryRecv, PollRecv 0, PollSend 6, TrySend 7, TrySend 8]"

lemma queue_fifo_witness:
  "(let s = queue_run (list_channel (Some 2)) queue_example
        (queue_init \<lparr>q_chan = ([], False), q_rx_locked = False, q_shutdown = False\<rparr>) in
     qs_accepted s = qs_delivered s @ fst (q_chan (qs_queue s)) \<and> length (fst (q_chan (qs_queue s))) \<le> 2)
   \<and> qs_delivered (queue_run (list_channel (Some 2)) queue_example
        (queue_init \<lparr>q_chan = ([], False), q_rx_locked = False, q_shutdown = False\<rparr>)) = [5]"
proof (intro conjI, goal_cases)
  case 1
  show ?case
    using queue_fifo [OF list_channel_ok, of 4 "Some 2" "\<lparr>q_chan = ([], False), q_rx_locked = False,
      q_shutdown = False\<rparr>" queue_example]
    by (simp add: new_queue_def bounded_new_def Let_def)
qed code_simp


end
