(* ===== verification/Spec2Isabelle.thy ===== *)
theory Spec2Isabelle
  imports Conn_Liveness Conn_Refine Flag_Races Server_Races Secure_Link Upgrade_Props Py_Repr Py_Guards Py_Delivery Queues
begin

text \<open>
  Verification of taunicorn, a local byte transport with a mutually authenticated, encrypted message layer.

  \<^bold>\<open>The program and its models.\<close> The Rust core is \<open>crates/taunicorn/src/lib.rs\<close> (endpoints,
  the listening server, connections) and \<open>security.rs\<close> (frames, the handshake, the secure channel);
  the Python binding is \<open>crates/taunicorn-python/src/\<close> \<open>lib.rs\<close>, \<open>security.rs\<close> and \<open>channel.rs\<close>.
  Names of definitions follow the names of the source.

  \<^item> \<open>Prelude\<close>, \<open>Results\<close>: bytes and big-endian numbers, \<open>u64\<close> and \<open>usize\<close>
    with checked addition; \<open>anyhow\<close> errors with their exact texts, the \<open>?\<close> operator, and
    the outcome of an async call: returned, failed, or still pending when the schedule ends.
  \<^item> \<open>Lifecycle\<close>: the pause/resume/end flags that connections and servers share, as a locale.
  \<^item> \<open>Endpoint\<close>, \<open>Conn_Core\<close>: \<open>Endpoint\<close>, socket ids, \<open>ConnectionState\<close> and
    \<open>ConnectionCore\<close> with the checks every operation makes and \<open>fail_connection\<close>.
  \<^item> \<open>Conn_Ops\<close>: each async method of \<open>ConnectionCore\<close> as a state machine that is cut at
    its awaits: \<open>start\<close> runs a call up to its first await, \<open>poll\<close> resumes it with one ready
    branch of its \<open>select!\<close>, \<open>drop_future\<close> cancels it.
  \<^item> \<open>Conn_Tasks\<close>, \<open>Conn_Safety\<close>, \<open>Conn_Liveness\<close>: any number of calls on one
    connection in any interleaving (\<open>sys_step\<close>, \<open>reachable\<close>), the log of bytes the OS stream
    took, the invariant of gates and log, and the runs that need nothing from the peer.
  \<^item> \<open>Streams\<close>, \<open>Framing\<close>, \<open>Conn_Seq\<close>: the interfaces of a byte reader and a byte
    writer as locales; \<open>read_exact\<close>, \<open>read_frame\<close> and \<open>write_frame\<close> proved against
    them; one connection on a network that cuts its bytes arbitrarily, which interprets them.
  \<^item> \<open>Hello_Codec\<close>, \<open>Crypto\<close>, \<open>Handshake\<close>, \<open>Secure_Channel\<close>, \<open>Secure_Stream\<close>:
    the messages, key derivation, both sides of the handshake, \<open>send\<close> and \<open>receive\<close> of a session;
    \<open>Secure_Link\<close>: the handshake and the messages of two sides, run one after the other.
  \<^item> \<open>Server_Model\<close>, \<open>Connection_Api\<close>: \<open>Server\<close> with any number of pending accepts; \<open>connect\<close>,
    the snapshots and the compatibility reads.
  \<^item> \<open>Atomic_Flags\<close>, \<open>Flag_Races\<close>, \<open>Server_Races\<close>: calls that share atomic flags, as a locale, and its two
    instances: \<open>ConnectionState\<close>, and \<open>ServerState\<close> with the stop token and the listener mutex, at the grain of
    single loads, stores and swaps.
  \<^item> \<open>Conn_Progress\<close>: typing and termination of the concurrent calls; \<open>Conn_Refine\<close>: the sequential
    connection of \<open>Conn_Seq\<close> as a schedule of the concurrent one, as an instance of the stream interfaces.
  \<^item> \<open>Py_Errors\<close>, \<open>Py_Slot\<close>, \<open>Py_Session\<close>, \<open>Queues\<close>: the exception mapping, the ownership
    slot of a Python connection, the gates and guards around a secure session, the queues.
  \<^item> \<open>Py_Duplex\<close>, \<open>Duplex_Props\<close>: a whole Python \<open>SecureConnection\<close>: two directions of \<open>Py_Session\<close> with their
    Python futures and callbacks, the token and connection they share, who holds the session, its closing task.
  \<^item> \<open>Py_Secure\<close>, \<open>Py_Delivery\<close>: the sends and the receives that a Python session starts, run on the secure channel.
  \<^item> \<open>Py_Calls\<close>, \<open>Py_Guards\<close>: every async method of \<open>Connection\<close>, \<open>ReadHalf\<close> and \<open>WriteHalf\<close>
    as a Python future around one core call, and the guard tasks that a broken write spawns.
  \<^item> \<open>Py_Upgrade\<close>, \<open>Upgrade_Props\<close>: \<open>SecureConnection.client\<close> and \<open>server\<close>: the future that owns the raw
    connection, its token and guards, the Python future over it, the closing task of a session.
  \<^item> \<open>Py_Api\<close>: the Python server and transport, connecting and splitting, the info classes, and what a plain or
    secured connection reports of itself; \<open>Py_Repr\<close>: the \<open>__repr__\<close> texts with Rust's quoting, the version text,
    the names of the module.

  \<^bold>\<open>What the lemmas show.\<close> \<open>Transport_Props\<close>: sends never interleave and report their progress
  exactly, failures and deadlines are terminal or harmless, closing drains every operation, frames
  arrive whole. \<open>Secure_Props\<close>: accepted messages are a prefix of the sent ones, nonces are distinct
  over completed sends (and repeat after an unfinished one), the sequence number does not wrap.
  \<open>Handshake_Props\<close>: a session implies a verified identity, equal transcripts imply matching sessions,
  two honest sides complete; \<open>Secure_Link\<close>: they then exchange any messages, whatever the network cuts.
  \<open>Conn_Progress\<close>: calls are well typed, can only be resumed a bounded number of
  times, and can always finish. \<open>Conn_Refine\<close> and \<open>Py_Guards\<close>: the sequential layer and the Python layer
  refine the concurrent core, so its invariants hold there; a Python write that breaks off leaves no
  usable sending side. \<open>Py_Secure\<close>: the Python policy closes the gap of unfinished sends, so that no nonce is
  ever used twice; \<open>Py_Delivery\<close>: what its receives return is a prefix of what the peer sent. \<open>Duplex_Props\<close>: each
  direction is a run of \<open>Py_Session\<close>, the end of one is the end of both, and a session that Python lets go of winds
  down by steps of the runtime alone. \<open>Py_Repr\<close>: the printed texts determine the values. \<open>Upgrade_Props\<close>: at most one upgrade per connection, no orphaned session, nothing Python lets go of
  stays connected, and the keys named in Python are the ones pinned. The other theories end with the
  properties of their component.

  \<^bold>\<open>Concurrency.\<close> A step is the code between two awaits. A Tokio mutex is a flag that a
  waiting call may take when it is free (fairness is not used for safety; liveness gives a run); a \<open>select!\<close>
  resumes by any of its ready branches; a cancelled token stays cancelled; a dropped future releases
  what it held. The connection and server theories take a call on the flags as one step. \<open>Flag_Races\<close> and \<open>Server_Races\<close> split
  it into its atomic operations: undisturbed they agree, the winner of racing closes or stops is unique and does
  all the work, no pause outlives a close unless it was under way. Two schedules in which the grain
  shows are exhibited: a pause that outlives a close, and an \<open>is_accepting\<close> that was never true.
  In \<open>Py_Upgrade\<close> and \<open>Py_Duplex\<close> the interpreter lock is not assumed: Python's own steps interleave freely, too.

  \<^bold>\<open>Parameters.\<close> The OS stream, listener and name mapping are events or arguments. The
  primitives of Ed25519, X25519, SHA-256, HKDF and ChaCha20-Poly1305 are the record \<open>crypto\<close>;
  \<open>aead_ok\<close>, \<open>aead_total\<close>, \<open>sizes_ok\<close> and \<open>handshake_ok\<close> state their documented input and output
  behaviour, and the instance \<open>toy\<close> shows that these can hold together. Forgery is never
  excluded by an axiom: \<open>unforged\<close> and the absence of a collision are hypotheses about the run at hand. The
  Tokio channel is the record \<open>channel_ops\<close>, with \<open>list_channel\<close> as its instance.

  \<^bold>\<open>Bounds and fuel.\<close> \<open>usize\<close> is a natural number below \<open>2 ^ 64\<close> where the source adds with a
  check, \<open>u64\<close> a word. The loop of \<open>read_exact\<close> consumes at least one byte per turn, so it runs
  with its size as fuel. A network schedule is finite: \<open>net_fuel\<close> counts the progress it still offers, and
  the liveness properties ask for as much as the bytes they move; what ends early is \<open>Pending\<close>.

  \<^bold>\<open>Not modelled.\<close> Poisoned mutexes in the Python wrapper (nothing panics while holding them); the memory orderings
  weaker than \<open>SeqCst\<close>, which the sources do not use; the reference counts of Python objects, of which only the
  holders of a session are kept; characters beyond eight bits in names; the Python facade and the examples, which only
  forward.
\<close>

end
